(* ===== verification/Prelude.thy ===== *)
theory Prelude
  imports
    Main
    "HOL-Library.Char_ord"
    "HOL-Library.List_Lexorder"
    "HOL-Library.Sublist"
    "HOL-Library.Monad_Syntax"
begin

text \<open>
  Shared vocabulary of the development.

  A Rust \<open>String\<close>, \<open>&str\<close>, \<open>Vec<u8>\<close> or \<open>Bytes\<close> is a list of HOL characters: a HOL
  \<open>char\<close> is exactly one byte, so a string is its UTF-8 encoding and \<open>length\<close> counts what
  \<open>len()\<close> counts.  A fallible Rust function returns a sum, \<open>Inl\<close> for \<open>Err\<close> and \<open>Inr\<close> for
  \<open>Ok\<close>; \<open>try_res\<close> is the question-mark operator.  The standard library's string functions
  that the code uses (\<open>find\<close>, \<open>split_once\<close>, \<open>split\<close>, \<open>strip_prefix\<close>, decimal and padded
  formatting, ASCII case mapping) are defined here once.
\<close>

named_theorems str_simps \<open>evaluation rules for the string functions of the standard library\<close>
named_theorems res_simps \<open>rules for chains of fallible operations\<close>

type_synonym bytes = "char list"

section \<open>Fallible operations\<close>

definition try_res :: "'e + 'a \<Rightarrow> ('a \<Rightarrow> 'e + 'b) \<Rightarrow> 'e + 'b" where
  "try_res r f = (case r of Inl e \<Rightarrow> Inl e | Inr x \<Rightarrow> f x)"

definition ok_or :: "'e \<Rightarrow> 'a option \<Rightarrow> 'e + 'a" where
  "ok_or e m = (case m of None \<Rightarrow> Inl e | Some x \<Rightarrow> Inr x)"

definition is_ok :: "'e + 'a \<Rightarrow> bool" where
  "is_ok r = (case r of Inl _ \<Rightarrow> False | Inr _ \<Rightarrow> True)"

lemma try_res_Inl [simp, res_simps]: "try_res (Inl e) f = Inl e"
  by (simp add: try_res_def)

lemma try_res_Inr [simp, res_simps]: "try_res (Inr x) f = f x"
  by (simp add: try_res_def)

lemma try_res_eq_Inr [res_simps]: "try_res r f = Inr y \<longleftrightarrow> (\<exists>x. r = Inr x \<and> f x = Inr y)"
  by (cases r) auto

lemma try_res_eq_Inl [res_simps]:
  "try_res r f = Inl e \<longleftrightarrow> r = Inl e \<or> (\<exists>x. r = Inr x \<and> f x = Inl e)"
  by (cases r) auto

lemma try_res_assoc: "try_res (try_res r f) g = try_res r (\<lambda>x. try_res (f x) g)"
  by (cases r) auto

lemma is_ok_simps [simp]: "is_ok (Inr x)" "\<not> is_ok (Inl e)"
  by (simp_all add: is_ok_def)

lemma is_ok_iff: "is_ok r \<longleftrightarrow> (\<exists>x. r = Inr x)"
  by (cases r) auto

lemma ok_or_simps [simp, res_simps]: "ok_or e (Some x) = Inr x" "ok_or e None = Inl e"
  by (simp_all add: ok_or_def)

text \<open>A loop over a list whose body may return early with an error.\<close>

fun fold_res :: "('a \<Rightarrow> 's \<Rightarrow> 'e + 's) \<Rightarrow> 'a list \<Rightarrow> 's \<Rightarrow> 'e + 's" where
  "fold_res f [] s = Inr s"
| "fold_res f (x # xs) s = try_res (f x s) (fold_res f xs)"

lemma fold_res_append:
  "fold_res f (xs @ ys) s = try_res (fold_res f xs s) (fold_res f ys)"
  by (induction xs arbitrary: s) (auto simp: try_res_def split: sum.splits)

lemma fold_res_invariant:
  assumes "fold_res f xs s = Inr t" "I s"
    and "\<And>x s t. x \<in> set xs \<Longrightarrow> I s \<Longrightarrow> f x s = Inr t \<Longrightarrow> I t"
  shows "I t"
  using assms
proof (induction xs arbitrary: s)
  case Nil
  then show ?case by simp
next
  case (Cons x xs)
  then obtain u where u: "f x s = Inr u" "fold_res f xs u = Inr t"
    by (auto simp: res_simps)
  then have "I u" using Cons.prems(2,3) by auto
  then show ?case using Cons.IH u(2) Cons.prems(3) by auto
qed

fun map_res :: "('a \<Rightarrow> 'e + 'b) \<Rightarrow> 'a list \<Rightarrow> 'e + 'b list" where
  "map_res f [] = Inr []"
| "map_res f (x # xs) = try_res (f x) (\<lambda>y. try_res (map_res f xs) (\<lambda>ys. Inr (y # ys)))"

lemma map_res_Inr_iff:
  "map_res f xs = Inr ys \<longleftrightarrow> list_all2 (\<lambda>x y. f x = Inr y) xs ys"
proof (induction xs arbitrary: ys)
  case Nil
  then show ?case by auto
next
  case (Cons x xs)
  then show ?case
    by (cases ys) (auto simp: res_simps)
qed

text \<open>
  Operations on a state that may fail: an error leaves the state as it was when it struck.
\<close>

type_synonym ('st, 'e, 'a) act = "'st \<Rightarrow> ('e + 'a) \<times> 'st"

definition act_return :: "'a \<Rightarrow> ('st, 'e, 'a) act" where
  "act_return x st = (Inr x, st)"

definition act_fail :: "'e \<Rightarrow> ('st, 'e, 'a) act" where
  "act_fail e st = (Inl e, st)"

definition act_lift :: "'e + 'a \<Rightarrow> ('st, 'e, 'a) act" where
  "act_lift r st = (r, st)"

definition act_bind :: "('st, 'e, 'a) act \<Rightarrow> ('a \<Rightarrow> ('st, 'e, 'b) act) \<Rightarrow> ('st, 'e, 'b) act" where
  "act_bind m f st = (case m st of (Inl e, st1) \<Rightarrow> (Inl e, st1) | (Inr x, st1) \<Rightarrow> f x st1)"

fun act_all :: "('a \<Rightarrow> ('st, 'e, unit) act) \<Rightarrow> 'a list \<Rightarrow> ('st, 'e, unit) act" where
  "act_all f [] = act_return ()"
| "act_all f (x # xs) = act_bind (f x) (\<lambda>_. act_all f xs)"

named_theorems act_simps \<open>rules for operations on a state that may fail\<close>

lemma act_basic [simp, act_simps]:
  "act_return x st = (Inr x, st)" "act_fail e st = (Inl e, st)" "act_lift r st = (r, st)"
  by (simp_all add: act_return_def act_fail_def act_lift_def)

lemma act_bind_Inr [act_simps]:
  "act_bind m f st = (Inr y, st2) \<longleftrightarrow> (\<exists>x st1. m st = (Inr x, st1) \<and> f x st1 = (Inr y, st2))"
  by (auto simp: act_bind_def split: prod.splits sum.splits)

lemma act_bind_Inl [act_simps]:
  "act_bind m f st = (Inl e, st2) \<longleftrightarrow>
     m st = (Inl e, st2) \<or> (\<exists>x st1. m st = (Inr x, st1) \<and> f x st1 = (Inl e, st2))"
  by (auto simp: act_bind_def split: prod.splits sum.splits)

lemma act_bind_assoc: "act_bind (act_bind m f) g = act_bind m (\<lambda>x. act_bind (f x) g)"
  by (auto simp: act_bind_def fun_eq_iff split: prod.splits sum.splits)

lemma act_case_pair [act_simps]: "(case p of (a, b) \<Rightarrow> f a b) = z \<longleftrightarrow> (\<exists>a b. p = (a, b) \<and> f a b = z)"
  by (cases p) simp

lemma act_bind_state:
  assumes "act_bind m f st = (r, st2)" "I st"
    and "\<And>r1 st1. m st = (r1, st1) \<Longrightarrow> I st1"
    and "\<And>x st1. m st = (Inr x, st1) \<Longrightarrow> I st1 \<Longrightarrow> f x st1 = (r, st2) \<Longrightarrow> I st2"
  shows "I st2"
  using assms by (cases "m st") (auto simp: act_bind_def split: sum.splits)

lemma act_all_invariant:
  assumes "act_all f xs st = (r, st2)" "I st"
    and "\<And>x st r st1. x \<in> set xs \<Longrightarrow> I st \<Longrightarrow> f x st = (r, st1) \<Longrightarrow> I st1"
  shows "I st2"
  using assms
proof (induction xs arbitrary: st)
  case (Cons x xs)
  show ?case
  proof (cases "f x st")
    case (Pair r1 st1)
    then have I1: "I st1" using Cons.prems(2,3) by auto
    show ?thesis
    proof (cases r1)
      case (Inl e)
      then show ?thesis using Cons.prems(1) Pair I1 by (simp add: act_bind_def)
    next
      case (Inr u)
      then have "act_all f xs st1 = (r, st2)" using Cons.prems(1) Pair by (simp add: act_bind_def)
      then show ?thesis using Cons.IH [OF _ I1] Cons.prems(3) by auto
    qed
  qed
qed simp

text \<open>An operation that keeps an invariant, whether it fails or not.\<close>

definition act_keeps :: "('st \<Rightarrow> bool) \<Rightarrow> ('st, 'e, 'a) act \<Rightarrow> bool" where
  "act_keeps I m \<longleftrightarrow> (\<forall>st r st1. I st \<longrightarrow> m st = (r, st1) \<longrightarrow> I st1)"

named_theorems act_intros \<open>introduction rules for operations that keep an invariant\<close>

lemma act_keepsD: "act_keeps I m \<Longrightarrow> I st \<Longrightarrow> m st = (r, st1) \<Longrightarrow> I st1"
  by (auto simp: act_keeps_def)

lemma act_keeps_basic [act_intros]:
  "act_keeps I (act_return x)" "act_keeps I (act_fail e)" "act_keeps I (act_lift r)"
  by (simp_all add: act_keeps_def)

lemma act_keeps_bind [act_intros]:
  "act_keeps I m \<Longrightarrow> (\<And>x. act_keeps I (f x)) \<Longrightarrow> act_keeps I (act_bind m f)"
  unfolding act_keeps_def by (blast intro: act_bind_state)

lemma act_keeps_all [act_intros]:
  "(\<And>x. x \<in> set xs \<Longrightarrow> act_keeps I (f x)) \<Longrightarrow> act_keeps I (act_all f xs)"
  by (induction xs) (auto intro: act_intros)

lemma act_keeps_dep:
  assumes "\<And>x. act_keeps I (f x)"
  shows "act_keeps I (\<lambda>st. f st st)"
  using assms unfolding act_keeps_def by blast

lemma act_keeps_after:
  assumes "act_keeps I m" "\<And>st. I st \<Longrightarrow> I (g st)"
  shows "act_keeps I (\<lambda>st. case m st of (r, st1) \<Rightarrow> (r, g st1))"
  unfolding act_keeps_def
proof (intro allI impI)
  fix st r st1
  assume "I st" "(case m st of (r, st1) \<Rightarrow> (r, g st1)) = (r, st1)"
  then show "I st1" using act_keepsD [OF assms(1), of st] assms(2) by (cases "m st") auto
qed

lemma act_keeps_pair [act_intros]: "act_keeps I (\<lambda>st. (r, st))"
  by (simp add: act_keeps_def)

section \<open>Strings\<close>

fun str_find :: "char \<Rightarrow> string \<Rightarrow> nat option" where
  "str_find c [] = None"
| "str_find c (x # xs) = (if x = c then Some 0 else map_option Suc (str_find c xs))"

fun split_once :: "char \<Rightarrow> string \<Rightarrow> (string \<times> string) option" where
  "split_once c [] = None"
| "split_once c (x # xs) =
     (if x = c then Some ([], xs) else map_option (\<lambda>(a, b). (x # a, b)) (split_once c xs))"

fun strip_prefix :: "string \<Rightarrow> string \<Rightarrow> string option" where
  "strip_prefix [] s = Some s"
| "strip_prefix (p # ps) [] = None"
| "strip_prefix (p # ps) (x # xs) = (if p = x then strip_prefix ps xs else None)"

definition strip_suffix :: "string \<Rightarrow> string \<Rightarrow> string option" where
  "strip_suffix suf s = map_option rev (strip_prefix (rev suf) (rev s))"

text \<open>\<open>split_once\<close> with a string pattern: the first position where the pattern occurs.\<close>

fun split_once_str :: "string \<Rightarrow> string \<Rightarrow> (string \<times> string) option" where
  "split_once_str p s =
     (case strip_prefix p s of
        Some rest \<Rightarrow> Some ([], rest)
      | None \<Rightarrow> (case s of [] \<Rightarrow> None
                 | x # xs \<Rightarrow> map_option (\<lambda>(a, b). (x # a, b)) (split_once_str p xs)))"

declare split_once_str.simps [simp del]

text \<open>\<open>split(c)\<close>: the segments between separators; \<open>""\<close> has one, empty, segment.\<close>

fun split_on :: "char \<Rightarrow> string \<Rightarrow> string list" where
  "split_on c [] = [[]]"
| "split_on c (x # xs) =
     (if x = c then [] # split_on c xs
      else (case split_on c xs of [] \<Rightarrow> [[x]] | s # ss \<Rightarrow> (x # s) # ss))"

fun join :: "string \<Rightarrow> string list \<Rightarrow> string" where
  "join sep [] = []"
| "join sep [s] = s"
| "join sep (s # t # ss) = s @ sep @ join sep (t # ss)"

definition trim_start_ch :: "char \<Rightarrow> string \<Rightarrow> string" where
  "trim_start_ch c s = dropWhile (\<lambda>x. x = c) s"

definition trim_end_ch :: "char \<Rightarrow> string \<Rightarrow> string" where
  "trim_end_ch c s = rev (dropWhile (\<lambda>x. x = c) (rev s))"

definition is_upper :: "char \<Rightarrow> bool" where
  "is_upper c = (65 \<le> (of_char c :: nat) \<and> (of_char c :: nat) \<le> 90)"

definition is_lower :: "char \<Rightarrow> bool" where
  "is_lower c = (97 \<le> (of_char c :: nat) \<and> (of_char c :: nat) \<le> 122)"

definition is_digit :: "char \<Rightarrow> bool" where
  "is_digit c = (48 \<le> (of_char c :: nat) \<and> (of_char c :: nat) \<le> 57)"

definition ascii_lower :: "char \<Rightarrow> char" where
  "ascii_lower c = (if is_upper c then char_of ((of_char c :: nat) + 32) else c)"

definition to_ascii_lowercase :: "string \<Rightarrow> string" where
  "to_ascii_lowercase s = map ascii_lower s"

text \<open>\<open>u8::is_ascii_whitespace\<close>: space, tab, line feed, form feed, carriage return.\<close>

definition is_ascii_whitespace :: "char \<Rightarrow> bool" where
  "is_ascii_whitespace c = (of_char c \<in> {32, 9, 10, 12, 13 :: nat})"

abbreviation newline :: char where
  "newline \<equiv> CHR 0x0A"

lemma split_once_Some:
  "split_once c s = Some (a, b) \<longleftrightarrow> s = a @ c # b \<and> c \<notin> set a"
proof (induction s arbitrary: a)
  case Nil
  then show ?case by simp
next
  case (Cons x xs)
  show ?case
  proof (cases "x = c")
    case True
    then show ?thesis by (cases a) auto
  next
    case False
    then show ?thesis using Cons by (cases a) auto
  qed
qed

lemma split_once_None: "split_once c s = None \<longleftrightarrow> c \<notin> set s"
  by (induction s) auto

lemma strip_prefix_Some [str_simps]: "strip_prefix p s = Some r \<longleftrightarrow> s = p @ r"
  by (induction p s rule: strip_prefix.induct) auto

lemma strip_prefix_append [simp]: "strip_prefix p (p @ r) = Some r"
  by (simp add: strip_prefix_Some)

lemma strip_suffix_Some [str_simps]: "strip_suffix suf s = Some r \<longleftrightarrow> s = r @ suf"
proof -
  have "strip_suffix suf s = Some r \<longleftrightarrow> strip_prefix (rev suf) (rev s) = Some (rev r)"
    by (auto simp: strip_suffix_def)
  also have "\<dots> \<longleftrightarrow> rev s = rev suf @ rev r" by (rule strip_prefix_Some)
  also have "\<dots> \<longleftrightarrow> s = r @ suf" by (metis rev_append rev_rev_ident)
  finally show ?thesis .
qed

lemma split_once_str_append: "split_once_str p s = Some (a, b) \<Longrightarrow> s = a @ p @ b"
proof (induction s arbitrary: a)
  case Nil
  then show ?case
    by (subst (asm) split_once_str.simps) (auto simp: strip_prefix_Some split: option.splits)
next
  case (Cons x xs)
  then show ?case
    by (subst (asm) split_once_str.simps) (auto simp: strip_prefix_Some split: option.splits)
qed

lemma split_on_not_Nil [simp]: "split_on c s \<noteq> []"
  by (induction s) (auto split: list.splits)

lemma join_split_on: "join [c] (split_on c s) = s"
proof (induction s)
  case Nil
  then show ?case by simp
next
  case (Cons x xs)
  obtain t ts where "split_on c xs = t # ts" by (cases "split_on c xs") auto
  with Cons show ?case by (cases ts) auto
qed

lemma split_on_segments: "seg \<in> set (split_on c s) \<Longrightarrow> c \<notin> set seg"
proof (induction s arbitrary: seg)
  case Nil
  then show ?case by simp
next
  case (Cons x xs)
  then show ?case by (cases "split_on c xs") (auto split: if_splits)
qed

lemma split_on_free: "c \<notin> set s \<Longrightarrow> split_on c s = [s]"
  by (induction s) auto

lemma split_on_append: "c \<notin> set a \<Longrightarrow> split_on c (a @ c # b) = a # split_on c b"
  by (induction a) auto

lemma dropWhile_rev_trim: "trim_end_ch c s = s" if "s = [] \<or> last s \<noteq> c"
proof (cases s rule: rev_cases)
  case Nil
  then show ?thesis by (simp add: trim_end_ch_def)
next
  case (snoc ys y)
  then show ?thesis using that by (simp add: trim_end_ch_def)
qed

section \<open>Decimal numbers\<close>

definition digit_char :: "nat \<Rightarrow> char" where
  "digit_char d = char_of (48 + d)"

text \<open>\<open>format!("{n}")\<close> on an unsigned integer.\<close>

fun dec :: "nat \<Rightarrow> string" where
  "dec n = (if n < 10 then [digit_char n] else dec (n div 10) @ [digit_char (n mod 10)])"

declare dec.simps [simp del]

text \<open>\<open>format!("{n:0w}")\<close>: zero-padded on the left to width \<open>w\<close>.\<close>

definition dec_pad :: "nat \<Rightarrow> nat \<Rightarrow> string" where
  "dec_pad w n = replicate (w - length (dec n)) (CHR ''0'') @ dec n"

definition undec :: "string \<Rightarrow> nat" where
  "undec s = foldl (\<lambda>acc c. 10 * acc + (of_char c - 48)) 0 s"

lemma of_char_digit [simp]: "d < 10 \<Longrightarrow> (of_char (digit_char d) :: nat) = 48 + d"
  by (simp add: digit_char_def of_char_of)

lemma undec_dec [simp]: "undec (dec n) = n"
proof (induction n rule: dec.induct)
  case (1 n)
  show ?case
  proof (cases "n < 10")
    case True
    then show ?thesis by (simp add: dec.simps [of n] undec_def)
  next
    case False
    with 1 have "undec (dec (n div 10)) = n div 10" by simp
    then show ?thesis using False by (simp add: dec.simps [of n] undec_def)
  qed
qed

lemma dec_inj [simp]: "dec m = dec n \<longleftrightarrow> m = n"
  by (metis undec_dec)

lemma undec_zeros: "undec (replicate k (CHR ''0'') @ s) = undec s"
  by (induction k) (simp_all add: undec_def)

lemma undec_dec_pad [simp]: "undec (dec_pad w n) = n"
  by (simp add: dec_pad_def undec_zeros)

lemma dec_pad_inj [simp]: "dec_pad w m = dec_pad w n \<longleftrightarrow> m = n"
  by (metis undec_dec_pad)

lemma is_digit_digit_char [simp]: "d < 10 \<Longrightarrow> is_digit (digit_char d)"
  by (simp add: is_digit_def)

lemma dec_digits: "c \<in> set (dec n) \<Longrightarrow> is_digit c"
proof (induction n rule: dec.induct)
  case (1 n)
  then show ?case by (cases "n < 10") (auto simp: dec.simps [of n])
qed

lemma dec_not_Nil [simp]: "dec n \<noteq> []"
  by (simp add: dec.simps [of n])

lemma digit_char_zero: "d < 10 \<Longrightarrow> digit_char d = CHR ''0'' \<Longrightarrow> d = 0"
  using of_char_digit [of d] by simp

text \<open>A decimal numeral of more than one digit does not begin with a zero.\<close>

lemma dec_no_leading_zero: "dec n = x # xs \<Longrightarrow> xs \<noteq> [] \<or> n \<noteq> 0 \<Longrightarrow> x \<noteq> CHR ''0''"
proof (induction n arbitrary: xs rule: dec.induct)
  case (1 n)
  show ?case
  proof (cases "n < 10")
    case True
    then show ?thesis using 1(2,3) digit_char_zero [of n] by (auto simp: dec.simps [of n])
  next
    case False
    obtain ys where ys: "dec (n div 10) = x # ys"
      using 1(2) False by (cases "dec (n div 10)") (auto simp: dec.simps [of n])
    have "n div 10 \<noteq> 0" using False by auto
    then show ?thesis using 1(1) [OF False ys] by blast
  qed
qed

lemma dec_pad_not_Nil [simp]: "dec_pad w n \<noteq> []"
  by (simp add: dec_pad_def)

lemma dec_pad_digits: "c \<in> set (dec_pad w n) \<Longrightarrow> is_digit c"
  by (auto simp: dec_pad_def is_digit_def dest: dec_digits)

section \<open>Lists\<close>

lemma take_drop_chunk: "take n (drop k xs) @ drop (k + n) xs = drop k xs"
  by (metis add.commute append_take_drop_id drop_drop)

lemma map_of_filter_key: "map_of (filter (\<lambda>(k, v). P k) xs) k = (if P k then map_of xs k else None)"
  by (induction xs) auto

lemma sum_list_map_length: "length (concat xss) = sum_list (map length xss)"
  by (rule length_concat)

end
