(* ===== verification/Unicode.thy ===== *)
theory Unicode
  imports Prelude
begin

text \<open>
  Rust's \<open>char\<close> is a Unicode scalar value; code that walks a string with \<open>chars()\<close> sees
  scalar values, not bytes.  A scalar value is a natural number here, a sequence of them is
  what \<open>chars().collect()\<close> returns, and \<open>utf8\<close> is the encoding that turns it back into the
  bytes of a \<open>String\<close>.  The encoding is proved injective, so nothing is lost by it.
\<close>

type_synonym codepoint = nat

abbreviation cp :: "char \<Rightarrow> codepoint" where
  "cp c \<equiv> of_char c"

abbreviation cps :: "string \<Rightarrow> codepoint list" where
  "cps s \<equiv> map of_char s"

text \<open>\<open>char::from_u32\<close>: the surrogate range and everything above U+10FFFF is refused.\<close>

definition is_scalar :: "nat \<Rightarrow> bool" where
  "is_scalar c = (c < 0xD800 \<or> (0xDFFF < c \<and> c \<le> 0x10FFFF))"

definition char_from_u32 :: "nat \<Rightarrow> codepoint option" where
  "char_from_u32 c = (if is_scalar c then Some c else None)"

text \<open>\<open>char::is_whitespace\<close>, the Unicode \<open>White_Space\<close> property.\<close>

definition cp_whitespace :: "codepoint \<Rightarrow> bool" where
  "cp_whitespace c =
     ((9 \<le> c \<and> c \<le> 13) \<or> (0x2000 \<le> c \<and> c \<le> 0x200A) \<or>
      c \<in> {0x20, 0x85, 0xA0, 0x1680, 0x2028, 0x2029, 0x202F, 0x205F, 0x3000})"

definition cp_digit :: "codepoint \<Rightarrow> bool" where
  "cp_digit c = (48 \<le> c \<and> c \<le> 57)"

definition cp_alpha :: "codepoint \<Rightarrow> bool" where
  "cp_alpha c = ((65 \<le> c \<and> c \<le> 90) \<or> (97 \<le> c \<and> c \<le> 122))"

definition cp_alnum :: "codepoint \<Rightarrow> bool" where
  "cp_alnum c = (cp_alpha c \<or> cp_digit c)"

text \<open>\<open>str::trim\<close>.\<close>

definition cp_trim :: "codepoint list \<Rightarrow> codepoint list" where
  "cp_trim s = rev (dropWhile cp_whitespace (rev (dropWhile cp_whitespace s)))"

section \<open>UTF-8\<close>

definition utf8_char :: "codepoint \<Rightarrow> string" where
  "utf8_char c =
     (if c < 0x80 then [char_of c]
      else if c < 0x800 then [char_of (0xC0 + c div 64), char_of (0x80 + c mod 64)]
      else if c < 0x10000 then
        [char_of (0xE0 + c div 4096), char_of (0x80 + c div 64 mod 64), char_of (0x80 + c mod 64)]
      else
        [char_of (0xF0 + c div 262144), char_of (0x80 + c div 4096 mod 64),
         char_of (0x80 + c div 64 mod 64), char_of (0x80 + c mod 64)])"

definition utf8 :: "codepoint list \<Rightarrow> string" where
  "utf8 s = concat (map utf8_char s)"

text \<open>A decoder for one character; what it gives is only right for the bytes of an encoding.\<close>

definition utf8_first :: "string \<Rightarrow> (codepoint \<times> string) option" where
  "utf8_first s =
     (let b = (\<lambda>i. if i < length s then of_char (s ! i) else 0 :: nat) in
      if s = [] then None
      else if b 0 < 0x80 then Some (b 0, drop 1 s)
      else if b 0 < 0xE0 then Some ((b 0 - 0xC0) * 64 + (b 1 - 0x80), drop 2 s)
      else if b 0 < 0xF0 then
        Some ((b 0 - 0xE0) * 4096 + (b 1 - 0x80) * 64 + (b 2 - 0x80), drop 3 s)
      else Some ((b 0 - 0xF0) * 262144 + (b 1 - 0x80) * 4096 + (b 2 - 0x80) * 64
                 + (b 3 - 0x80), drop 4 s))"

lemma of_char_of_small [simp]: "n < 256 \<Longrightarrow> (of_char (char_of n) :: nat) = n"
  by (simp add: of_char_of)

lemma utf8_first_char:
  assumes "is_scalar c"
  shows "utf8_first (utf8_char c @ rest) = Some (c, rest)"
proof -
  have c: "c < 0x110000" using assms by (auto simp: is_scalar_def)
  consider "c < 0x80" | "0x80 \<le> c" "c < 0x800" | "0x800 \<le> c" "c < 0x10000" | "0x10000 \<le> c"
    by linarith
  then show ?thesis
  proof cases
    case 1
    then show ?thesis by (simp add: utf8_char_def utf8_first_def Let_def)
  next
    case 2
    then have "c div 64 < 32" by linarith
    with 2 show ?thesis by (simp add: utf8_char_def utf8_first_def Let_def)
  next
    case 3
    then have d: "c div 4096 < 16" by linarith
    have "c div 4096 = c div 64 div 64" by (simp add: div_mult2_eq [symmetric])
    then have "c div 4096 * 4096 + c div 64 mod 64 * 64 + c mod 64 = c"
      using div_mult_mod_eq [of c 64] div_mult_mod_eq [of "c div 64" 64] by linarith
    with 3 d show ?thesis by (simp add: utf8_char_def utf8_first_def Let_def)
  next
    case 4
    then have d: "c div 262144 < 5" using c by linarith
    have "c div 4096 = c div 64 div 64" "c div 262144 = c div 4096 div 64"
      by (simp_all add: div_mult2_eq [symmetric])
    then have "c div 262144 * 262144 + c div 4096 mod 64 * 4096 + c div 64 mod 64 * 64
        + c mod 64 = c"
      using div_mult_mod_eq [of c 64] div_mult_mod_eq [of "c div 64" 64]
        div_mult_mod_eq [of "c div 4096" 64] by linarith
    with 4 d show ?thesis by (simp add: utf8_char_def utf8_first_def Let_def)
  qed
qed

lemma utf8_char_not_Nil [simp]: "utf8_char c \<noteq> []"
  by (simp add: utf8_char_def)

lemma utf8_simps [simp]:
  "utf8 [] = []" "utf8 (c # s) = utf8_char c @ utf8 s" "utf8 (s @ t) = utf8 s @ utf8 t"
  by (simp_all add: utf8_def)

lemma utf8_inject:
  "list_all is_scalar s \<Longrightarrow> list_all is_scalar t \<Longrightarrow> utf8 s = utf8 t \<Longrightarrow> s = t"
proof (induction s arbitrary: t)
  case Nil
  then show ?case by (cases t) auto
next
  case (Cons c s)
  then obtain d t' where t: "t = d # t'" by (cases t) auto
  have "utf8_first (utf8 (c # s)) = Some (c, utf8 s)"
    using Cons.prems(1) by (simp add: utf8_first_char)
  moreover have "utf8_first (utf8 t) = Some (d, utf8 t')"
    using Cons.prems(2) t by (simp add: utf8_first_char)
  ultimately have "c = d" "utf8 s = utf8 t'" using Cons.prems(3) by simp_all
  then show ?case using Cons.IH [of t'] Cons.prems t by simp
qed

text \<open>
  \<open>String::from_utf8\<close>: bytes are well-formed when they are the encoding of scalar values, and
  then those are the characters.
\<close>

fun utf8_decode :: "nat \<Rightarrow> string \<Rightarrow> codepoint list" where
  "utf8_decode 0 b = []"
| "utf8_decode (Suc n) b =
     (case utf8_first b of None \<Rightarrow> [] | Some (c, rest) \<Rightarrow> c # utf8_decode n rest)"

definition from_utf8 :: "string \<Rightarrow> codepoint list option" where
  "from_utf8 b = (let s = utf8_decode (length b) b in
     if list_all is_scalar s \<and> utf8 s = b then Some s else None)"

lemma utf8_decode_utf8:
  "list_all is_scalar s \<Longrightarrow> length s \<le> n \<Longrightarrow> utf8_decode n (utf8 s) = s"
proof (induction s arbitrary: n)
  case Nil
  then show ?case by (cases n) (simp_all add: utf8_first_def)
next
  case (Cons c s)
  then show ?case by (cases n) (simp_all add: utf8_first_char)
qed

lemma length_utf8: "length s \<le> length (utf8 s)"
proof (induction s)
  case (Cons c s)
  have "0 < length (utf8_char c)" by simp
  then show ?case using Cons unfolding utf8_simps length_append list.size by linarith
qed simp

lemma from_utf8_utf8 [simp]: "list_all is_scalar s \<Longrightarrow> from_utf8 (utf8 s) = Some s"
  by (simp add: from_utf8_def utf8_decode_utf8 length_utf8)

lemma from_utf8_Some: "from_utf8 b = Some s \<longleftrightarrow> list_all is_scalar s \<and> utf8 s = b"
  by (auto simp: from_utf8_def utf8_decode_utf8 length_utf8 Let_def split: if_splits)

lemma utf8_ascii: "\<forall>c \<in> set s. (of_char c :: nat) < 128 \<Longrightarrow> utf8 (cps s) = s"
  by (induction s) (auto simp: utf8_char_def)

text \<open>An ASCII byte of an encoded text is that character; no other byte of an encoding is below 128.\<close>

lemma utf8_char_ascii:
  "c < 0x110000 \<Longrightarrow> x \<in> set (utf8_char c) \<Longrightarrow> (of_char x :: nat) < 128 \<Longrightarrow> c = of_char x"
proof -
  assume c: "c < 0x110000" and x: "x \<in> set (utf8_char c)" "(of_char x :: nat) < 128"
  have high: "x \<noteq> char_of m" if "128 \<le> m" "m < 256" for m :: nat
    using that x(2) by auto
  have tail: "x \<noteq> char_of (128 + m mod 64)" for m :: nat
    using mod_less_divisor [of 64 m] by (intro high) linarith+
  consider "c < 0x80" | "0x80 \<le> c" "c < 0x800" | "0x800 \<le> c" "c < 0x10000" | "0x10000 \<le> c"
    by linarith
  then show ?thesis
  proof cases
    case 1
    then show ?thesis using x by (simp add: utf8_char_def of_char_of)
  next
    case 2
    then have "x \<noteq> char_of (0xC0 + c div 64)" by (intro high) linarith+
    then show ?thesis using x(1) tail 2 by (simp add: utf8_char_def)
  next
    case 3
    then have "x \<noteq> char_of (0xE0 + c div 4096)" by (intro high) linarith+
    then show ?thesis using x(1) tail 3 by (simp add: utf8_char_def)
  next
    case 4
    then have "x \<noteq> char_of (0xF0 + c div 262144)" using c by (intro high) linarith+
    then show ?thesis using x(1) tail 4 by (simp add: utf8_char_def)
  qed
qed

lemma utf8_no_ascii:
  "\<forall>c \<in> set s. c \<noteq> of_char x \<and> c < 0x110000 \<Longrightarrow> (of_char x :: nat) < 128 \<Longrightarrow> x \<notin> set (utf8 s)"
  by (induction s) (auto dest: utf8_char_ascii)

lemma utf8_no_zero:
  "\<forall>c \<in> set s. c \<noteq> 0 \<and> c < 0x110000 \<Longrightarrow> CHR 0x00 \<notin> set (utf8 s)"
  using utf8_no_ascii [of s "CHR 0x00"] by simp

end
