(* ===== verification/Errors.thy ===== *)
theory Errors
  imports Unicode
begin

text \<open>
  The error taxonomy of \<open>arangodb-tools-core/src/error.rs\<close>: the context attached to an
  error, its rendering, and the unified error type.  A field \<open>f\<close> of the Rust struct
  \<open>ErrorContext\<close> is the record field \<open>ec_f\<close>.  Message texts are kept where they are part of
  what a caller can see.
\<close>

record error_context =
  ec_collection :: "string option"
  ec_object_path :: "string option"
  ec_byte_range :: "(nat \<times> nat) option"
  ec_batch :: "nat option"
  ec_server_response :: "string option"

definition ctx_new :: error_context where
  "ctx_new = \<lparr>ec_collection = None, ec_object_path = None, ec_byte_range = None,
     ec_batch = None, ec_server_response = None\<rparr>"

definition ctx_collection :: "string \<Rightarrow> error_context \<Rightarrow> error_context" where
  "ctx_collection c x = x\<lparr>ec_collection := Some c\<rparr>"

definition ctx_object_path :: "string \<Rightarrow> error_context \<Rightarrow> error_context" where
  "ctx_object_path p x = x\<lparr>ec_object_path := Some p\<rparr>"

definition ctx_byte_range :: "nat \<Rightarrow> nat \<Rightarrow> error_context \<Rightarrow> error_context" where
  "ctx_byte_range a b x = x\<lparr>ec_byte_range := Some (a, b)\<rparr>"

definition ctx_batch :: "nat \<Rightarrow> error_context \<Rightarrow> error_context" where
  "ctx_batch n x = x\<lparr>ec_batch := Some n\<rparr>"

definition ctx_server_response :: "string \<Rightarrow> error_context \<Rightarrow> error_context" where
  "ctx_server_response r x = x\<lparr>ec_server_response := Some r\<rparr>"

definition ctx_is_empty :: "error_context \<Rightarrow> bool" where
  "ctx_is_empty x \<longleftrightarrow> ec_collection x = None \<and> ec_object_path x = None \<and>
     ec_byte_range x = None \<and> ec_batch x = None \<and> ec_server_response x = None"

text \<open>\<open>impl Display for ErrorContext\<close>.\<close>

definition opt_part :: "string \<Rightarrow> ('a \<Rightarrow> string) \<Rightarrow> 'a option \<Rightarrow> string list" where
  "opt_part key show v = (case v of None \<Rightarrow> [] | Some x \<Rightarrow> [key @ ''='' @ show x])"

definition ctx_parts :: "error_context \<Rightarrow> string list" where
  "ctx_parts x =
     opt_part ''collection'' id (ec_collection x)
     @ opt_part ''path'' id (ec_object_path x)
     @ opt_part ''bytes'' (\<lambda>(a, b). dec a @ ''-'' @ dec b) (ec_byte_range x)
     @ opt_part ''batch'' dec (ec_batch x)
     @ opt_part ''response'' id (ec_server_response x)"

definition ctx_display :: "error_context \<Rightarrow> string" where
  "ctx_display x =
     (if ctx_parts x = [] then [] else '' ['' @ join '', '' (ctx_parts x) @ '']'')"

text \<open>
  \<open>server_response_truncated\<close>: the text is trimmed; a blank text leaves the context alone;
  a text of more than 300 characters keeps its first 300 and an ellipsis (U+2026).
\<close>

definition response_limit :: nat where
  "response_limit = 300"

definition ctx_server_response_truncated ::
  "codepoint list \<Rightarrow> error_context \<Rightarrow> error_context" where
  "ctx_server_response_truncated response x =
     (let text = cp_trim response in
      if text = [] then x
      else let clipped = (if response_limit < length text
                          then take response_limit text @ [0x2026] else text)
           in ctx_server_response (utf8 clipped) x)"

text \<open>\<open>std::io::ErrorKind\<close>, the kinds the code distinguishes or the file system returns.\<close>

datatype io_kind =
    TimedOut | Interrupted | ConnectionReset | ConnectionAborted | BrokenPipe | WouldBlock
  | NotFound | FileExists | NotADirectory | IsADirectory | UnexpectedEof | OtherIo

datatype error =
    Config string
  | Connection string
  | Http nat string error_context
  | Io io_kind
  | Storage string
  | AlreadyExists string
  | Parse string "nat option" "nat option"
  | Serialization string
  | Checkpoint string
  | Cancelled

type_synonym 'a res = "error + 'a"

definition parse_error :: "string \<Rightarrow> error" where
  "parse_error msg = Parse msg None None"

text \<open>\<open>impl Display for Error\<close> (derived with \<open>thiserror\<close>); the text of an I/O error is the
  operating system's, a parameter.\<close>

fun error_display :: "(io_kind \<Rightarrow> string) \<Rightarrow> error \<Rightarrow> string" where
  "error_display os (Config m) = ''configuration error: '' @ m"
| "error_display os (Connection m) = ''connection error: '' @ m"
| "error_display os (Http status m ctx) =
     ''HTTP '' @ dec status @ '': '' @ m @ ctx_display ctx"
| "error_display os (Io k) = os k"
| "error_display os (Storage m) = ''storage error: '' @ m"
| "error_display os (AlreadyExists m) = ''object already exists: '' @ m"
| "error_display os (Parse m l c) = ''parse error: '' @ m"
| "error_display os (Serialization m) = ''serialization error: '' @ m"
| "error_display os (Checkpoint m) = ''checkpoint error: '' @ m"
| "error_display os Cancelled = ''operation cancelled''"

lemma ctx_parts_Nil_iff: "ctx_parts x = [] \<longleftrightarrow> ctx_is_empty x"
  by (auto simp: ctx_parts_def ctx_is_empty_def opt_part_def split: option.splits)

lemma ctx_display_Nil_iff: "ctx_display x = [] \<longleftrightarrow> ctx_is_empty x"
  by (simp add: ctx_display_def ctx_parts_Nil_iff)

lemma cp_trim_length: "length (cp_trim s) \<le> length s"
  unfolding cp_trim_def by (metis dual_order.trans length_dropWhile_le length_rev)

text \<open>
  A server body of any size adds a bounded, whole-character prefix of its trimmed text
  to an error, marks a cut with the ellipsis, and a blank body adds nothing.
\<close>

theorem server_response_truncated_spec:
  "ec_server_response (ctx_server_response_truncated r x) =
     (if cp_trim r = [] then ec_server_response x
      else if length (cp_trim r) \<le> 300 then Some (utf8 (cp_trim r))
      else Some (utf8 (take 300 (cp_trim r)) @ utf8 [0x2026]))
   \<and> ec_collection (ctx_server_response_truncated r x) = ec_collection x
   \<and> ec_batch (ctx_server_response_truncated r x) = ec_batch x"
  by (simp add: ctx_server_response_truncated_def ctx_server_response_def response_limit_def Let_def)

end
