(* ===== verification/Retry.thy ===== *)
theory Retry
  imports Errors Complex_Main "HOL-Library.Word"
begin

unbundle bit_operations_syntax

text \<open>
  The retry policy and the retry loop of \<open>arangodb-tools-core/src/retry.rs\<close>.

  The operation that is retried is a function from the attempt number to the outcome of
  that attempt, so any server behaviour is one such function.  The loop returns its result
  together with the number of attempts made, the backoff delays slept and the shared
  counters.  Durations are nanoseconds.  The counters are 64-bit atomics and wrap.

  Floating point: \<open>powi\<close> and the product with the base delay are parameters (\<open>fpow\<close>,
  \<open>fmul\<close>, \<open>None\<close> for a value that is not finite), because their rounding is the machine's;
  a finite \<open>f64\<close> is a real number.
\<close>

section \<open>Classification\<close>

fun is_server_error :: "error \<Rightarrow> bool" where
  "is_server_error (Http _ _ _) = True"
| "is_server_error _ = False"

fun is_retryable :: "error \<Rightarrow> bool" where
  "is_retryable (Connection _) = True"
| "is_retryable (Io k) =
     (k \<in> {TimedOut, Interrupted, ConnectionReset, ConnectionAborted, BrokenPipe, WouldBlock})"
| "is_retryable (Http status _ _) = (status \<in> {429, 502, 503, 504})"
| "is_retryable _ = False"

section \<open>Policy and backoff\<close>

record retry_stats =
  rs_retries :: "64 word"
  rs_server_errors :: "64 word"

definition stats_new :: retry_stats where
  "stats_new = \<lparr>rs_retries = 0, rs_server_errors = 0\<rparr>"

record retry_policy =
  max_attempts :: nat
  base_delay :: nat
  max_delay :: nat
  multiplier :: real
  jitter :: bool
  has_stats :: bool

definition retry_policy_default :: retry_policy where
  "retry_policy_default =
     \<lparr>max_attempts = 5, base_delay = 100 * 10^6, max_delay = 30 * 10^9,
      multiplier = 2, jitter = True, has_stats = False\<rparr>"

text \<open>The SplitMix64 finalizer over the clock reading \<open>seed\<close>.\<close>

definition pseudo_random :: "64 word \<Rightarrow> 64 word" where
  "pseudo_random seed =
     (let x = seed XOR 0x9E3779B97F4A7C15;
          x = (x XOR drop_bit 30 x) * 0xBF58476D1CE4E5B9;
          x = (x XOR drop_bit 27 x) * 0x94D049BB133111EB
      in x XOR drop_bit 31 x)"

definition backoff_exponent :: "nat \<Rightarrow> nat" where
  "backoff_exponent attempt = min (attempt - 1) (2^31 - 1)"

definition uncapped_backoff ::
  "(real \<Rightarrow> nat \<Rightarrow> real option) \<Rightarrow> (real \<Rightarrow> real \<Rightarrow> real option) \<Rightarrow> retry_policy \<Rightarrow> nat \<Rightarrow> nat"
where
  "uncapped_backoff fpow fmul p attempt =
     (case Option.bind (fpow (max (multiplier p) 1) (backoff_exponent attempt))
             (fmul (real (base_delay p))) of
        None \<Rightarrow> max_delay p
      | Some raw \<Rightarrow> if 2^64 \<le> raw then max_delay p else nat \<lfloor>raw\<rfloor>)"

definition backoff ::
  "(real \<Rightarrow> nat \<Rightarrow> real option) \<Rightarrow> (real \<Rightarrow> real \<Rightarrow> real option) \<Rightarrow> retry_policy \<Rightarrow>
   64 word \<Rightarrow> nat \<Rightarrow> nat"
where
  "backoff fpow fmul p seed attempt =
     (let capped = min (uncapped_backoff fpow fmul p attempt) (max_delay p) in
      if jitter p
      then (let nanos = min capped (2^64 - 1); bound = max nanos 1
            in unat (pseudo_random seed) mod bound)
      else capped)"

section \<open>The loop\<close>

record 'a retry_run =
  rr_result :: "'a"
  rr_attempts :: nat
  rr_delays :: "nat list"
  rr_stats :: retry_stats

function retry_from ::
  "('e \<Rightarrow> bool) \<Rightarrow> ('e \<Rightarrow> bool) \<Rightarrow> (nat \<Rightarrow> nat) \<Rightarrow> retry_policy \<Rightarrow> (nat \<Rightarrow> 'e + 'a) \<Rightarrow>
   nat \<Rightarrow> nat list \<Rightarrow> retry_stats \<Rightarrow> ('e + 'a) retry_run"
where
  "retry_from retryable server delay p op attempt delays st =
     (let attempt = attempt + 1 in
      case op attempt of
        Inr v \<Rightarrow> \<lparr>rr_result = Inr v, rr_attempts = attempt, rr_delays = delays, rr_stats = st\<rparr>
      | Inl err \<Rightarrow>
          (let st = (if has_stats p \<and> server err
                     then st\<lparr>rs_server_errors := rs_server_errors st + 1\<rparr> else st)
           in if max_attempts p \<le> attempt \<or> \<not> retryable err
              then \<lparr>rr_result = Inl err, rr_attempts = attempt, rr_delays = delays, rr_stats = st\<rparr>
              else (let st = (if has_stats p then st\<lparr>rs_retries := rs_retries st + 1\<rparr> else st)
                    in retry_from retryable server delay p op attempt
                         (delays @ [delay attempt]) st)))"
  by pat_completeness auto
termination
  by (relation "measure (\<lambda>(_, _, _, p, _, attempt, _, _). max_attempts p - attempt)") auto

declare retry_from.simps [simp del]

definition retry ::
  "('e \<Rightarrow> bool) \<Rightarrow> ('e \<Rightarrow> bool) \<Rightarrow> (nat \<Rightarrow> nat) \<Rightarrow> retry_policy \<Rightarrow> (nat \<Rightarrow> 'e + 'a) \<Rightarrow>
   retry_stats \<Rightarrow> ('e + 'a) retry_run"
where
  "retry retryable server delay p op st = retry_from retryable server delay p op 0 [] st"

section \<open>Properties\<close>

lemma backoff_le_max_delay: "backoff fpow fmul p seed attempt \<le> max_delay p"
proof (cases "jitter p")
  case False
  then show ?thesis by (simp add: backoff_def Let_def)
next
  case True
  define capped where "capped = min (uncapped_backoff fpow fmul p attempt) (max_delay p)"
  define bound where "bound = max (min capped (2^64 - 1)) (1 :: nat)"
  have b: "backoff fpow fmul p seed attempt = unat (pseudo_random seed) mod bound"
    using True by (simp add: backoff_def Let_def capped_def bound_def)
  have "0 < bound" by (simp add: bound_def)
  then have "unat (pseudo_random seed) mod bound < bound" by (rule mod_less_divisor)
  moreover have "bound \<le> capped + 1" by (simp add: bound_def)
  ultimately have "unat (pseudo_random seed) mod bound \<le> capped" by linarith
  then show ?thesis by (simp add: b capped_def)
qed

text \<open>The error outcomes of the attempts \<open>a + 1 .. k\<close>.\<close>

definition attempt_errors :: "(nat \<Rightarrow> 'e + 'a) \<Rightarrow> nat \<Rightarrow> nat \<Rightarrow> 'e list" where
  "attempt_errors op a k = concat (map (\<lambda>i. case op i of Inl e \<Rightarrow> [e] | Inr _ \<Rightarrow> []) [a + 1..<k + 1])"

lemma attempt_errors_self [simp]: "attempt_errors op k k = []"
  by (simp add: attempt_errors_def)

lemma attempt_errors_step:
  "a < k \<Longrightarrow> attempt_errors op a k =
     (case op (a + 1) of Inl e \<Rightarrow> [e] | Inr _ \<Rightarrow> []) @ attempt_errors op (a + 1) k"
  by (simp add: attempt_errors_def upt_conv_Cons del: upt_Suc)

text \<open>Where the loop stops: the attempt succeeded, failed for good, or was the last one.\<close>

definition retry_stops :: "('e \<Rightarrow> bool) \<Rightarrow> retry_policy \<Rightarrow> (nat \<Rightarrow> 'e + 'a) \<Rightarrow> nat \<Rightarrow> bool" where
  "retry_stops retryable p op k =
     (case op k of Inr _ \<Rightarrow> True | Inl e \<Rightarrow> max_attempts p \<le> k \<or> \<not> retryable e)"

lemma retry_from_spec:
  fixes op :: "nat \<Rightarrow> 'e + 'a"
  defines "run \<equiv> \<lambda>ret srv dl p op a ds st. retry_from ret srv dl p op a ds st"
  shows "\<exists>k. a < k \<and> k \<le> max (a + 1) (max_attempts p)
     \<and> retry_stops ret p op k \<and> (\<forall>i. a < i \<and> i < k \<longrightarrow> \<not> retry_stops ret p op i)
     \<and> run ret srv dl p op a ds st =
         \<lparr>rr_result = op k, rr_attempts = k, rr_delays = ds @ map dl [a + 1..<k],
          rr_stats = (if has_stats p
            then \<lparr>rs_retries = rs_retries st + of_nat (k - 1 - a),
                  rs_server_errors = rs_server_errors st
                    + of_nat (length (filter srv (attempt_errors op a k))), \<dots> = retry_stats.more st\<rparr>
            else st)\<rparr>"
  unfolding run_def
proof (induction ret srv dl p op a ds st rule: retry_from.induct)
  case (1 ret srv dl p op a ds st)
  note IH = "1.IH" [OF refl]
  show ?case
  proof (cases "retry_stops ret p op (a + 1)")
    case True
    then show ?thesis
      by (intro exI [of _ "a + 1"], subst retry_from.simps)
         (auto simp: retry_stops_def Let_def attempt_errors_step split: sum.splits)
  next
    case False
    then obtain e where e: "op (a + 1) = Inl e" "a + 1 < max_attempts p" "ret e"
      by (auto simp: retry_stops_def split: sum.splits)
    define st1 where "st1 = (if has_stats p \<and> srv e
      then st\<lparr>rs_server_errors := rs_server_errors st + 1\<rparr> else st)"
    define st2 where "st2 = (if has_stats p then st1\<lparr>rs_retries := rs_retries st1 + 1\<rparr> else st1)"
    have unfold1: "retry_from ret srv dl p op a ds st =
        retry_from ret srv dl p op (a + 1) (ds @ [dl (a + 1)]) st2"
      using e by (subst retry_from.simps) (simp add: Let_def st1_def st2_def)
    from IH [OF e(1) refl _ refl, folded st1_def st2_def] e
    obtain k where k: "a + 1 < k" "k \<le> max (a + 2) (max_attempts p)" "retry_stops ret p op k"
      "\<forall>i. a + 1 < i \<and> i < k \<longrightarrow> \<not> retry_stops ret p op i"
      "retry_from ret srv dl p op (a + 1) (ds @ [dl (a + 1)]) st2 =
         \<lparr>rr_result = op k, rr_attempts = k,
          rr_delays = (ds @ [dl (a + 1)]) @ map dl [a + 1 + 1..<k],
          rr_stats = (if has_stats p
            then \<lparr>rs_retries = rs_retries st2 + of_nat (k - 1 - (a + 1)),
                  rs_server_errors = rs_server_errors st2
                    + of_nat (length (filter srv (attempt_errors op (a + 1) k))),
                  \<dots> = retry_stats.more st2\<rparr>
            else st2)\<rparr>"
      by (auto simp: not_le)
    have stop: "\<forall>i. a < i \<and> i < k \<longrightarrow> \<not> retry_stops ret p op i"
      using k(4) False by (metis Suc_eq_plus1 Suc_lessI)
    have delays: "ds @ map dl [a + 1..<k] = (ds @ [dl (a + 1)]) @ map dl [a + 1 + 1..<k]"
      using k(1) by (simp add: upt_conv_Cons del: upt_Suc)
    have "attempt_errors op a k = e # attempt_errors op (a + 1) k"
      using k(1) e(1) by (simp add: attempt_errors_step)
    moreover obtain j where j: "k = a + 2 + j"
      using k(1) by (metis Suc_leI Suc_eq_plus1 add_2_eq_Suc' le_Suc_ex)
    ultimately have stats: "rr_stats (retry_from ret srv dl p op a ds st) =
        (if has_stats p
         then \<lparr>rs_retries = rs_retries st + of_nat (k - 1 - a),
               rs_server_errors = rs_server_errors st
                 + of_nat (length (filter srv (attempt_errors op a k))),
               \<dots> = retry_stats.more st\<rparr>
         else st)"
      unfolding unfold1 k(5) by (simp add: st1_def st2_def)
    have "k \<le> max (a + 1) (max_attempts p)" "a < k" using k(1,2) e(2) by auto
    then show ?thesis
      using k(3) stop delays stats unfold1 k(5) by (intro exI [of _ k]) (auto simp: st2_def st1_def)
  qed
qed

text \<open>
  C20: the retry loop makes at least one and at most \<open>max 1 max_attempts\<close> attempts, stops at
  the first attempt that succeeds, fails with an error not worth retrying or exhausts the
  budget, returns that attempt's outcome, sleeps once before every further attempt, and its
  shared counters record exactly one retry per further attempt and one server error per
  failed attempt the server answered.
\<close>

theorem retry_spec:
  "\<exists>k. 1 \<le> k \<and> k \<le> max 1 (max_attempts p)
     \<and> retry_stops is_retryable p op k
     \<and> (\<forall>i. 0 < i \<and> i < k \<longrightarrow> \<not> retry_stops is_retryable p op i)
     \<and> retry is_retryable is_server_error delay p op st =
         \<lparr>rr_result = op k, rr_attempts = k, rr_delays = map delay [1..<k],
          rr_stats = (if has_stats p
            then st\<lparr>rs_retries := rs_retries st + of_nat (k - 1),
                    rs_server_errors := rs_server_errors st
                      + of_nat (length (filter is_server_error (attempt_errors op 0 k)))\<rparr>
            else st)\<rparr>"
proof -
  from retry_from_spec [of 0 p is_retryable op is_server_error delay "[]" st]
  obtain k where "0 < k" "k \<le> max (0 + 1) (max_attempts p)" "retry_stops is_retryable p op k"
    "\<forall>i. 0 < i \<and> i < k \<longrightarrow> \<not> retry_stops is_retryable p op i"
    and r: "retry_from is_retryable is_server_error delay p op 0 [] st =
      \<lparr>rr_result = op k, rr_attempts = k, rr_delays = [] @ map delay [0 + 1..<k],
       rr_stats = (if has_stats p
         then \<lparr>rs_retries = rs_retries st + of_nat (k - 1 - 0),
               rs_server_errors = rs_server_errors st
                 + of_nat (length (filter is_server_error (attempt_errors op 0 k))),
               \<dots> = retry_stats.more st\<rparr>
         else st)\<rparr>"
    by blast
  then show ?thesis
    by (intro exI [of _ k] conjI) (simp_all add: retry_def)
qed

lemma retry_spec_witness:
  "\<exists>k. 1 \<le> k \<and> k \<le> 5
     \<and> rr_attempts (retry is_retryable is_server_error (\<lambda>_. 0) retry_policy_default
          (\<lambda>i. if i < 3 then Inl (Connection ''reset'') else Inr i) stats_new) = k"
proof -
  let ?op = "\<lambda>i. if i < 3 then Inl (Connection ''reset'') else Inr i"
  have "max 1 (max_attempts retry_policy_default) = 5" by (simp add: retry_policy_default_def)
  with retry_spec [of retry_policy_default ?op "\<lambda>_. 0" stats_new]
  obtain k where "1 \<le> k" "k \<le> 5" and
    "rr_attempts (retry is_retryable is_server_error (\<lambda>_. 0) retry_policy_default ?op stats_new) = k"
    by (elim exE conjE) simp
  then show ?thesis by blast
qed

text \<open>
  Whatever the multiplier, the attempt number, the clock and the rounding of the machine,
  no backoff interval is longer than the configured maximum.
\<close>

theorem backoff_bounded: "backoff fpow fmul p seed attempt \<le> max_delay p"
  by (rule backoff_le_max_delay)

text \<open>With exact arithmetic and no jitter the interval is the exponential, capped.\<close>

definition exact_pow :: "real \<Rightarrow> nat \<Rightarrow> real option" where
  "exact_pow b n = Some (b ^ n)"

definition exact_mul :: "real \<Rightarrow> real \<Rightarrow> real option" where
  "exact_mul x y = Some (x * y)"

lemma uncapped_backoff_nat:
  assumes "Option.bind (fpow (max (multiplier p) 1) (backoff_exponent attempt))
             (fmul (real (base_delay p))) = Some (real m)"
  shows "uncapped_backoff fpow fmul p attempt = (if 2^64 \<le> m then max_delay p else m)"
proof -
  have "(2^64 \<le> real m) = (2^64 \<le> m)"
    by (metis of_nat_le_iff of_nat_numeral of_nat_power)
  then show ?thesis by (simp add: uncapped_backoff_def assms)
qed

lemma backoff_doubling:
  assumes "\<not> jitter p" "multiplier p = 2" "attempt \<le> 2^31" "max_delay p < 2^64"
  shows "backoff exact_pow exact_mul p seed attempt = min (base_delay p * 2 ^ (attempt - 1)) (max_delay p)"
proof -
  have e: "backoff_exponent attempt = attempt - 1"
    using assms(3) by (simp add: backoff_exponent_def)
  let ?n = "base_delay p * 2 ^ (attempt - 1)"
  have raw: "real (base_delay p) * 2 ^ (attempt - 1) = real ?n" by simp
  have unc: "uncapped_backoff exact_pow exact_mul p attempt = (if 2^64 \<le> ?n then max_delay p else ?n)"
    by (rule uncapped_backoff_nat) (simp add: exact_pow_def exact_mul_def e assms(2))
  show ?thesis
  proof (cases "2^64 \<le> ?n")
    case True
    then have "max_delay p < ?n" using assms(4) by linarith
    then show ?thesis using assms(1) True by (simp add: backoff_def unc Let_def del: of_nat_power)
  next
    case False
    then show ?thesis using assms(1) by (simp add: backoff_def unc Let_def del: of_nat_power)
  qed
qed

end
