(* ===== verification/BTree.thy ===== *)
theory BTree
  imports Prelude
begin

text \<open>
  The ordered maps of the Rust standard library (\<open>BTreeMap\<close>, and \<open>serde_json::Map\<close>, which
  is one): an association list kept strictly sorted by key, with the operations the code
  uses.  The interface a client relies on is the locale \<open>ordered_map\<close>; it is interpreted on
  the list operations at the end.
\<close>

type_synonym ('k, 'v) btree = "('k \<times> 'v) list"

definition bt_wf :: "('k :: linorder, 'v) btree \<Rightarrow> bool" where
  "bt_wf m = sorted_wrt (<) (map fst m)"

definition bt_get :: "('k :: linorder, 'v) btree \<Rightarrow> 'k \<Rightarrow> 'v option" where
  "bt_get m k = map_of m k"

fun bt_insert :: "'k :: linorder \<Rightarrow> 'v \<Rightarrow> ('k, 'v) btree \<Rightarrow> ('k, 'v) btree" where
  "bt_insert k v [] = [(k, v)]"
| "bt_insert k v ((l, w) # m) =
     (if k < l then (k, v) # (l, w) # m
      else if k = l then (k, v) # m
      else (l, w) # bt_insert k v m)"

fun bt_remove :: "'k :: linorder \<Rightarrow> ('k, 'v) btree \<Rightarrow> ('k, 'v) btree" where
  "bt_remove k [] = []"
| "bt_remove k ((l, w) # m) = (if k = l then m else (l, w) # bt_remove k m)"

text \<open>\<open>entry(k).or_insert_with(v)\<close>: an existing entry is left alone.\<close>

definition bt_or_insert :: "'k :: linorder \<Rightarrow> 'v \<Rightarrow> ('k, 'v) btree \<Rightarrow> ('k, 'v) btree" where
  "bt_or_insert k v m = (case bt_get m k of Some _ \<Rightarrow> m | None \<Rightarrow> bt_insert k v m)"

lemma bt_wf_Nil [simp]: "bt_wf []"
  by (simp add: bt_wf_def)

lemma bt_get_Nil [simp]: "bt_get [] k = None"
  by (simp add: bt_get_def)

lemma bt_keys_insert: "fst ` set (bt_insert k v m) = insert k (fst ` set m)"
  by (induction k v m rule: bt_insert.induct) auto

lemma bt_wf_insert [simp]: "bt_wf m \<Longrightarrow> bt_wf (bt_insert k v m)"
proof (induction k v m rule: bt_insert.induct)
  case (1 k v)
  then show ?case by (simp add: bt_wf_def)
next
  case (2 k v l w m)
  have keys: "set (map fst (bt_insert k v m)) = insert k (set (map fst m))"
    using bt_keys_insert [of k v m] by simp
  consider "k < l" | "k = l" | "l < k" using less_linear by blast
  then show ?case
  proof cases
    case 3
    then have "bt_insert k v ((l, w) # m) = (l, w) # bt_insert k v m" by auto
    moreover have "bt_wf (bt_insert k v m)"
      using 2 3 by (auto simp: bt_wf_def)
    moreover have "\<forall>x \<in> set (map fst (bt_insert k v m)). l < x"
      using 2(2) 3 keys by (auto simp: bt_wf_def)
    ultimately show ?thesis by (simp add: bt_wf_def)
  qed (use 2(2) in \<open>auto simp: bt_wf_def\<close>)
qed

lemma bt_get_insert [simp]:
  "bt_wf m \<Longrightarrow> bt_get (bt_insert k v m) j = (if j = k then Some v else bt_get m j)"
  by (induction k v m rule: bt_insert.induct) (auto simp: bt_get_def bt_wf_def)

lemma bt_keys_remove: "fst ` set (bt_remove k m) \<subseteq> fst ` set m"
  by (induction k m rule: bt_remove.induct) auto

lemma bt_wf_remove [simp]: "bt_wf m \<Longrightarrow> bt_wf (bt_remove k m)"
proof (induction k m rule: bt_remove.induct)
  case (2 k l w m)
  then show ?case using bt_keys_remove [of k m] by (fastforce simp: bt_wf_def)
qed simp

lemma bt_get_remove [simp]:
  "bt_wf m \<Longrightarrow> bt_get (bt_remove k m) j = (if j = k then None else bt_get m j)"
proof (induction k m rule: bt_remove.induct)
  case (2 k l w m)
  have "k = l \<Longrightarrow> map_of m k = None"
    using 2(2) by (auto simp: bt_wf_def map_of_eq_None_iff)
  then show ?case using 2 by (auto simp: bt_get_def bt_wf_def)
qed simp

lemma bt_wf_or_insert [simp]: "bt_wf m \<Longrightarrow> bt_wf (bt_or_insert k v m)"
  by (simp add: bt_or_insert_def split: option.splits)

lemma bt_get_or_insert [simp]:
  "bt_wf m \<Longrightarrow> bt_get (bt_or_insert k v m) j =
     (if j = k then (case bt_get m k of Some w \<Rightarrow> Some w | None \<Rightarrow> Some v) else bt_get m j)"
  by (simp add: bt_or_insert_def split: option.splits)

lemma bt_wf_distinct: "bt_wf m \<Longrightarrow> distinct (map fst m)"
  by (simp add: bt_wf_def strict_sorted_iff)

lemma bt_get_in_set: "bt_wf m \<Longrightarrow> bt_get m k = Some v \<longleftrightarrow> (k, v) \<in> set m"
  by (simp add: bt_get_def bt_wf_distinct)

text \<open>Two well-formed maps with the same lookups are the same list: iteration order is fixed.\<close>

lemma bt_ext: "bt_wf m \<Longrightarrow> bt_wf n \<Longrightarrow> (\<And>k. bt_get m k = bt_get n k) \<Longrightarrow> m = n"
proof -
  assume wf: "bt_wf m" "bt_wf n" and eq: "\<And>k. bt_get m k = bt_get n k"
  have set_eq: "set m = set n"
    using wf eq by (auto simp: bt_get_in_set [symmetric])
  have "inj_on fst (set m \<union> set n)"
    using bt_wf_distinct [OF wf(1)] by (simp add: set_eq [symmetric] distinct_map)
  then show ?thesis
    using wf set_eq by (auto simp: bt_wf_def strict_sorted_iff intro: map_sorted_distinct_set_unique)
qed

section \<open>The interface\<close>

locale ordered_map =
  fixes get :: "'m \<Rightarrow> 'k :: linorder \<Rightarrow> 'v option"
    and ins :: "'k \<Rightarrow> 'v \<Rightarrow> 'm \<Rightarrow> 'm"
    and del :: "'k \<Rightarrow> 'm \<Rightarrow> 'm"
    and wf :: "'m \<Rightarrow> bool"
  assumes get_ins: "wf m \<Longrightarrow> get (ins k v m) j = (if j = k then Some v else get m j)"
    and get_del: "wf m \<Longrightarrow> get (del k m) j = (if j = k then None else get m j)"
    and wf_ins: "wf m \<Longrightarrow> wf (ins k v m)"
    and wf_del: "wf m \<Longrightarrow> wf (del k m)"
    and ext: "wf m \<Longrightarrow> wf n \<Longrightarrow> (\<And>k. get m k = get n k) \<Longrightarrow> m = n"
begin

lemma ins_ins_same: "wf m \<Longrightarrow> ins k v (ins k w m) = ins k v m"
  by (rule ext) (auto simp: get_ins wf_ins)

lemma ins_commute: "wf m \<Longrightarrow> k \<noteq> j \<Longrightarrow> ins k v (ins j w m) = ins j w (ins k v m)"
  by (rule ext) (auto simp: get_ins wf_ins)

lemma del_ins: "wf m \<Longrightarrow> get m k = None \<Longrightarrow> del k (ins k v m) = m"
  by (rule ext) (auto simp: get_ins get_del wf_ins wf_del)

lemma ins_present: "wf m \<Longrightarrow> get m k = Some v \<Longrightarrow> ins k v m = m"
  by (rule ext) (auto simp: get_ins wf_ins)

lemma del_absent: "wf m \<Longrightarrow> get m k = None \<Longrightarrow> del k m = m"
  by (rule ext) (auto simp: get_del wf_del)

lemma wf_fold_ins: "wf m \<Longrightarrow> wf (fold (\<lambda>(k, v). ins k v) kvs m)"
  by (induction kvs arbitrary: m) (auto simp: wf_ins)

lemma get_fold_ins:
  "wf m \<Longrightarrow> get (fold (\<lambda>(k, v). ins k v) kvs m) j =
     (case map_of (rev kvs) j of Some v \<Rightarrow> Some v | None \<Rightarrow> get m j)"
proof (induction kvs rule: rev_induct)
  case Nil
  then show ?case by simp
next
  case (snoc x kvs)
  then show ?case by (cases x) (auto simp: get_ins wf_fold_ins)
qed

end

interpretation bt: ordered_map bt_get bt_insert bt_remove bt_wf
  by unfold_locales (auto intro: bt_ext)

end
