(* ===== verification/Json.thy ===== *)
theory Json
  imports BTree Errors Complex_Main
begin

text \<open>
  JSON values as \<open>serde_json::Value\<close> has them.  An object is an ordered map (\<open>serde_json\<close>
  is built without \<open>preserve_order\<close>, so \<open>Map\<close> is a \<open>BTreeMap\<close>).  An integer number is an
  integer, a float is the real number it stands for.  Serialisation (\<open>to_vec\<close>,
  \<open>to_string\<close>) and parsing (\<open>from_slice\<close>) are \<open>serde_json\<close>'s and are parameters of the
  definitions that use them.
\<close>

datatype json =
    JNull
  | JBool bool
  | JInt int
  | JFloat real
  | JString string
  | JArray "json list"
  | JObject "(string \<times> json) list"

fun as_object :: "json \<Rightarrow> (string \<times> json) list option" where
  "as_object (JObject kvs) = Some kvs"
| "as_object _ = None"

fun as_array :: "json \<Rightarrow> json list option" where
  "as_array (JArray vs) = Some vs"
| "as_array _ = None"

fun as_str :: "json \<Rightarrow> string option" where
  "as_str (JString s) = Some s"
| "as_str _ = None"

fun as_bool :: "json \<Rightarrow> bool option" where
  "as_bool (JBool b) = Some b"
| "as_bool _ = None"

text \<open>\<open>as_u64\<close>: only a non-negative integer that fits.\<close>

fun as_u64 :: "json \<Rightarrow> nat option" where
  "as_u64 (JInt i) = (if 0 \<le> i \<and> i < 2^64 then Some (nat i) else None)"
| "as_u64 _ = None"

fun is_null :: "json \<Rightarrow> bool" where
  "is_null JNull = True"
| "is_null _ = False"

text \<open>\<open>Value::get\<close> with a string key.\<close>

fun jget :: "json \<Rightarrow> string \<Rightarrow> json option" where
  "jget (JObject kvs) k = bt_get kvs k"
| "jget _ k = None"

text \<open>The \<open>json!\<close> macro on an object literal: the pairs are inserted in order.\<close>

definition json_object :: "(string \<times> json) list \<Rightarrow> json" where
  "json_object kvs = JObject (fold (\<lambda>(k, v). bt_insert k v) kvs [])"

definition opt_json :: "('a \<Rightarrow> json) \<Rightarrow> 'a option \<Rightarrow> json" where
  "opt_json f v = (case v of None \<Rightarrow> JNull | Some x \<Rightarrow> f x)"

lemma jget_json_object: "jget (json_object kvs) k = map_of (rev kvs) k"
  using bt.get_fold_ins [of "[]" kvs k] by (simp add: json_object_def split: option.splits)

lemma json_object_wf: "json_object kvs = JObject m \<Longrightarrow> bt_wf m"
  using bt.wf_fold_ins [of "[]" kvs] by (auto simp: json_object_def)

end
