(* ===== verification/Manifest.thy ===== *)
theory Manifest
  imports Json
begin

text \<open>
  The manifest model of \<open>arangodb-tools-core/src/manifest.rs\<close>: artifacts, checksums, the two
  checkpoints, and their JSON documents.  Each structure has its encoding \<open>\<dots>_to_value\<close> and its
  decoding \<open>\<dots>_of_value\<close> at the level of JSON values, as \<open>serde\<close> derives them (renamed
  variants, skipped and defaulted fields); the JSON text of a value is \<open>serde_json\<close>'s.
\<close>

section \<open>Reading and writing fields\<close>

definition opt_field :: "string \<Rightarrow> ('a \<Rightarrow> json) \<Rightarrow> 'a option \<Rightarrow> (string \<times> json) list" where
  "opt_field k f v = (case v of None \<Rightarrow> [] | Some x \<Rightarrow> [(k, f x)])"

definition req_field :: "(json \<Rightarrow> 'a option) \<Rightarrow> json \<Rightarrow> string \<Rightarrow> 'a option" where
  "req_field f j k = Option.bind (jget j k) f"

text \<open>An optional field may be missing or null.\<close>

definition opt_read :: "(json \<Rightarrow> 'a option) \<Rightarrow> json \<Rightarrow> string \<Rightarrow> 'a option option" where
  "opt_read f j k =
     (case jget j k of
        None \<Rightarrow> Some None
      | Some v \<Rightarrow> if is_null v then Some None else map_option Some (f v))"

definition default_field :: "'a \<Rightarrow> (json \<Rightarrow> 'a option) \<Rightarrow> json \<Rightarrow> string \<Rightarrow> 'a option" where
  "default_field d f j k = (case jget j k of None \<Rightarrow> Some d | Some v \<Rightarrow> f v)"

definition jnat :: "nat \<Rightarrow> json" where
  "jnat n = JInt (int n)"

definition as_u32 :: "json \<Rightarrow> nat option" where
  "as_u32 j = Option.bind (as_u64 j) (\<lambda>n. if n < 2^32 then Some n else None)"

lemma opt_field_lookup [simp]:
  "map_of (opt_field k f v) j = (if j = k then map_option f v else None)"
  "rev (opt_field k f v) = opt_field k f v"
  by (auto simp: opt_field_def split: option.splits)

lemma as_u64_jnat [simp]: "n < 2^64 \<Longrightarrow> as_u64 (jnat n) = Some n"
  by (simp add: jnat_def)

lemma as_u32_code [code]:
  "as_u32 j = (case j of JInt i \<Rightarrow> if 0 \<le> i \<and> i < 2^32 then Some (nat i) else None | _ \<Rightarrow> None)"
  by (cases j) (auto simp: as_u32_def nat_less_iff)

lemma as_u32_jnat [simp]: "n < 2^32 \<Longrightarrow> as_u32 (jnat n) = Some n"
  by (simp add: jnat_def as_u32_def)

lemma is_null_jnat [simp]: "\<not> is_null (jnat n)"
  by (simp add: jnat_def)

section \<open>Enumerations\<close>

datatype artifact_kind = Meta | Structure | View | Data

datatype data_format = Jsonl | Json | Csv | Vpack | Xgmml

datatype compression = Uncompressed | Gzip | Zstd

fun kind_name :: "artifact_kind \<Rightarrow> string" where
  "kind_name Meta = ''meta''"
| "kind_name Structure = ''structure''"
| "kind_name View = ''view''"
| "kind_name Data = ''data''"

fun data_format_name :: "data_format \<Rightarrow> string" where
  "data_format_name Jsonl = ''jsonl''"
| "data_format_name Json = ''json''"
| "data_format_name Csv = ''csv''"
| "data_format_name Vpack = ''vpack''"
| "data_format_name Xgmml = ''xgmml''"

fun compression_name :: "compression \<Rightarrow> string" where
  "compression_name Uncompressed = ''none''"
| "compression_name Gzip = ''gzip''"
| "compression_name Zstd = ''zstd''"

text \<open>Reading a unit variant by its name.\<close>

definition variant :: "('a \<times> string) list \<Rightarrow> json \<Rightarrow> 'a option" where
  "variant table j =
     Option.bind (as_str j) (\<lambda>s. map_option fst (find (\<lambda>(v, n). n = s) table))"

definition kind_of :: "json \<Rightarrow> artifact_kind option" where
  "kind_of = variant (map (\<lambda>k. (k, kind_name k)) [Meta, Structure, View, Data])"

definition data_format_of :: "json \<Rightarrow> data_format option" where
  "data_format_of = variant (map (\<lambda>k. (k, data_format_name k)) [Jsonl, Json, Csv, Vpack, Xgmml])"

definition compression_of :: "json \<Rightarrow> compression option" where
  "compression_of = variant (map (\<lambda>k. (k, compression_name k)) [Uncompressed, Gzip, Zstd])"

lemma kind_of_name [simp]: "kind_of (JString (kind_name k)) = Some k"
  by (cases k) (simp_all add: kind_of_def variant_def)

lemma data_format_of_name [simp]: "data_format_of (JString (data_format_name k)) = Some k"
  by (cases k) (simp_all add: data_format_of_def variant_def)

lemma compression_of_name [simp]: "compression_of (JString (compression_name k)) = Some k"
  by (cases k) (simp_all add: compression_of_def variant_def)

section \<open>Checkpoints\<close>

record import_checkpoint =
  committed_batches :: nat
  documents_committed :: nat
  bytes_committed :: nat

definition import_checkpoint_default :: import_checkpoint where
  "import_checkpoint_default =
     \<lparr>committed_batches = 0, documents_committed = 0, bytes_committed = 0\<rparr>"

definition import_checkpoint_to_value :: "import_checkpoint \<Rightarrow> json" where
  "import_checkpoint_to_value c = json_object
     [(''committed_batches'', jnat (committed_batches c)),
      (''documents_committed'', jnat (documents_committed c)),
      (''bytes_committed'', jnat (bytes_committed c))]"

definition import_checkpoint_of_value :: "json \<Rightarrow> import_checkpoint option" where
  "import_checkpoint_of_value j =
     Option.bind (req_field as_u64 j ''committed_batches'') (\<lambda>b.
     Option.bind (req_field as_u64 j ''documents_committed'') (\<lambda>d.
     Option.bind (req_field as_u64 j ''bytes_committed'') (\<lambda>n.
       Some \<lparr>committed_batches = b, documents_committed = d, bytes_committed = n\<rparr>)))"

record restore_checkpoint =
  rc_manifest :: string
  rc_completed :: "string list"

definition restore_checkpoint_new :: "string \<Rightarrow> restore_checkpoint" where
  "restore_checkpoint_new fp = \<lparr>rc_manifest = fp, rc_completed = []\<rparr>"

definition checkpoint_contains :: "restore_checkpoint \<Rightarrow> string \<Rightarrow> bool" where
  "checkpoint_contains c i = list_ex (\<lambda>x. x = i) (rc_completed c)"

definition strings_of :: "json \<Rightarrow> string list option" where
  "strings_of j =
     Option.bind (as_array j) (\<lambda>vs.
       if list_all (\<lambda>v. as_str v \<noteq> None) vs then Some (map (\<lambda>v. the (as_str v)) vs) else None)"

definition restore_checkpoint_to_value :: "restore_checkpoint \<Rightarrow> json" where
  "restore_checkpoint_to_value c = json_object
     [(''manifest'', JString (rc_manifest c)),
      (''completed'', JArray (map JString (rc_completed c)))]"

definition restore_checkpoint_of_value :: "json \<Rightarrow> restore_checkpoint option" where
  "restore_checkpoint_of_value j =
     Option.bind (req_field as_str j ''manifest'') (\<lambda>m.
     Option.bind (req_field strings_of j ''completed'') (\<lambda>c.
       Some \<lparr>rc_manifest = m, rc_completed = c\<rparr>))"

lemma checkpoint_contains_iff [simp]: "checkpoint_contains c i \<longleftrightarrow> i \<in> set (rc_completed c)"
  by (auto simp: checkpoint_contains_def list_ex_iff)

lemma strings_of_map [simp]: "strings_of (JArray (map JString ss)) = Some ss"
  by (simp add: strings_of_def list_all_iff comp_def)

lemma restore_checkpoint_roundtrip:
  "restore_checkpoint_of_value (restore_checkpoint_to_value c) = Some c"
  by (simp add: restore_checkpoint_of_value_def restore_checkpoint_to_value_def req_field_def
      jget_json_object)

lemma import_checkpoint_roundtrip:
  assumes "committed_batches c < 2^64" "documents_committed c < 2^64" "bytes_committed c < 2^64"
  shows "import_checkpoint_of_value (import_checkpoint_to_value c) = Some c"
  using assms
  by (simp add: import_checkpoint_of_value_def import_checkpoint_to_value_def req_field_def
      jget_json_object)

section \<open>Artifacts and the manifest\<close>

record checksum =
  cs_algorithm :: string
  cs_value :: string

record encryption_info =
  enc_algorithm :: string

definition encryption_default :: encryption_info where
  "encryption_default = \<lparr>enc_algorithm = ''none''\<rparr>"

definition is_encrypted :: "encryption_info \<Rightarrow> bool" where
  "is_encrypted e = (enc_algorithm e \<noteq> ''none'')"

record artifact =
  a_path :: string
  a_kind :: artifact_kind
  a_format :: data_format
  a_compression :: compression
  a_byte_size :: nat
  a_checksum :: "checksum option"
  a_collection :: "string option"
  a_view :: "string option"
  a_database :: "string option"
  a_part :: "nat option"

record manifest =
  m_version :: nat
  m_tool_version :: string
  m_created_at :: string
  m_database :: string
  m_source :: "string option"
  m_encryption :: encryption_info
  m_artifacts :: "artifact list"

definition manifest_version :: nat where
  "manifest_version = 1"

definition manifest_new :: "string \<Rightarrow> string \<Rightarrow> string \<Rightarrow> manifest" where
  "manifest_new db tool created =
     \<lparr>m_version = manifest_version, m_tool_version = tool, m_created_at = created,
      m_database = db, m_source = None, m_encryption = encryption_default, m_artifacts = []\<rparr>"

definition manifest_push :: "artifact \<Rightarrow> manifest \<Rightarrow> manifest" where
  "manifest_push a m = m\<lparr>m_artifacts := m_artifacts m @ [a]\<rparr>"

definition fingerprint :: "manifest \<Rightarrow> string" where
  "fingerprint m =
     m_database m @ ''|'' @ m_created_at m @ ''|''
     @ concat (map (\<lambda>a. a_path a @ '','') (m_artifacts m))"

subsection \<open>JSON documents\<close>

definition checksum_to_value :: "checksum \<Rightarrow> json" where
  "checksum_to_value c = json_object
     [(''algorithm'', JString (cs_algorithm c)), (''value'', JString (cs_value c))]"

definition checksum_of_value :: "json \<Rightarrow> checksum option" where
  "checksum_of_value j =
     Option.bind (req_field as_str j ''algorithm'') (\<lambda>a.
     Option.bind (req_field as_str j ''value'') (\<lambda>v.
       Some \<lparr>cs_algorithm = a, cs_value = v\<rparr>))"

definition encryption_to_value :: "encryption_info \<Rightarrow> json" where
  "encryption_to_value e = json_object [(''algorithm'', JString (enc_algorithm e))]"

definition encryption_of_value :: "json \<Rightarrow> encryption_info option" where
  "encryption_of_value j =
     map_option (\<lambda>a. \<lparr>enc_algorithm = a\<rparr>) (req_field as_str j ''algorithm'')"

definition artifact_to_value :: "artifact \<Rightarrow> json" where
  "artifact_to_value a = json_object
     ([(''path'', JString (a_path a)),
       (''kind'', JString (kind_name (a_kind a))),
       (''format'', JString (data_format_name (a_format a))),
       (''compression'', JString (compression_name (a_compression a))),
       (''byte_size'', jnat (a_byte_size a))]
      @ opt_field ''checksum'' checksum_to_value (a_checksum a)
      @ opt_field ''collection'' JString (a_collection a)
      @ opt_field ''view'' JString (a_view a)
      @ opt_field ''database'' JString (a_database a)
      @ opt_field ''part'' jnat (a_part a))"

definition artifact_of_value :: "json \<Rightarrow> artifact option" where
  "artifact_of_value j =
     Option.bind (req_field as_str j ''path'') (\<lambda>p.
     Option.bind (req_field kind_of j ''kind'') (\<lambda>k.
     Option.bind (req_field data_format_of j ''format'') (\<lambda>f.
     Option.bind (default_field Uncompressed compression_of j ''compression'') (\<lambda>c.
     Option.bind (req_field as_u64 j ''byte_size'') (\<lambda>n.
     Option.bind (opt_read checksum_of_value j ''checksum'') (\<lambda>s.
     Option.bind (opt_read as_str j ''collection'') (\<lambda>coll.
     Option.bind (opt_read as_str j ''view'') (\<lambda>v.
     Option.bind (opt_read as_str j ''database'') (\<lambda>d.
     Option.bind (opt_read as_u32 j ''part'') (\<lambda>part.
       Some \<lparr>a_path = p, a_kind = k, a_format = f, a_compression = c, a_byte_size = n,
         a_checksum = s, a_collection = coll, a_view = v, a_database = d, a_part = part\<rparr>))))))))))"

text \<open>Decoding an array: every element must decode.\<close>

fun all_some :: "('a \<Rightarrow> 'b option) \<Rightarrow> 'a list \<Rightarrow> 'b list option" where
  "all_some f [] = Some []"
| "all_some f (x # xs) = Option.bind (f x) (\<lambda>y. map_option ((#) y) (all_some f xs))"

definition manifest_to_value :: "manifest \<Rightarrow> json" where
  "manifest_to_value m = json_object
     ([(''manifest_version'', jnat (m_version m)),
       (''tool_version'', JString (m_tool_version m)),
       (''created_at'', JString (m_created_at m)),
       (''database'', JString (m_database m))]
      @ opt_field ''source'' JString (m_source m)
      @ [(''encryption'', encryption_to_value (m_encryption m)),
         (''artifacts'', JArray (map artifact_to_value (m_artifacts m)))])"

definition manifest_of_value :: "json \<Rightarrow> manifest option" where
  "manifest_of_value j =
     Option.bind (req_field as_u32 j ''manifest_version'') (\<lambda>v.
     Option.bind (req_field as_str j ''tool_version'') (\<lambda>t.
     Option.bind (req_field as_str j ''created_at'') (\<lambda>c.
     Option.bind (req_field as_str j ''database'') (\<lambda>d.
     Option.bind (opt_read as_str j ''source'') (\<lambda>s.
     Option.bind (default_field encryption_default encryption_of_value j ''encryption'') (\<lambda>e.
     Option.bind (req_field (\<lambda>x. Option.bind (as_array x) (all_some artifact_of_value)) j
                    ''artifacts'') (\<lambda>a.
       Some \<lparr>m_version = v, m_tool_version = t, m_created_at = c, m_database = d,
         m_source = s, m_encryption = e, m_artifacts = a\<rparr>)))))))"

text \<open>
  \<open>to_json\<close> and \<open>from_json\<close>: the value's text is \<open>serde_json\<close>'s.  A value of the wrong shape
  is a serialization error, whose message is \<open>serde_json\<close>'s too and not modelled.
\<close>

definition from_json :: "(bytes \<Rightarrow> json res) \<Rightarrow> (json \<Rightarrow> 'a option) \<Rightarrow> bytes \<Rightarrow> 'a res" where
  "from_json parse decode b =
     try_res (parse b) (\<lambda>j. ok_or (Serialization ''invalid document'') (decode j))"

text \<open>The sizes that the Rust types allow.\<close>

definition artifact_fits :: "artifact \<Rightarrow> bool" where
  "artifact_fits a \<longleftrightarrow> a_byte_size a < 2^64 \<and> (case a_part a of None \<Rightarrow> True | Some n \<Rightarrow> n < 2^32)"

definition manifest_fits :: "manifest \<Rightarrow> bool" where
  "manifest_fits m \<longleftrightarrow> m_version m < 2^32 \<and> list_all artifact_fits (m_artifacts m)"

lemma is_null_to_value [simp]:
  "\<not> is_null (json_object kvs)"
  by (simp add: json_object_def)

lemma checksum_roundtrip [simp]: "checksum_of_value (checksum_to_value c) = Some c"
  by (simp add: checksum_of_value_def checksum_to_value_def req_field_def jget_json_object)

lemma encryption_roundtrip [simp]: "encryption_of_value (encryption_to_value e) = Some e"
  by (simp add: encryption_of_value_def encryption_to_value_def req_field_def jget_json_object)

lemma opt_read_lookup:
  assumes "jget j k = map_option f v" "\<And>x. v = Some x \<Longrightarrow> g (f x) = Some x \<and> \<not> is_null (f x)"
  shows "opt_read g j k = Some v"
  using assms by (cases v) (auto simp: opt_read_def)

lemma artifact_roundtrip:
  assumes "artifact_fits a"
  shows "artifact_of_value (artifact_to_value a) = Some a"
proof -
  define j where "j = artifact_to_value a"
  have req: "jget j ''path'' = Some (JString (a_path a))"
    "jget j ''kind'' = Some (JString (kind_name (a_kind a)))"
    "jget j ''format'' = Some (JString (data_format_name (a_format a)))"
    "jget j ''compression'' = Some (JString (compression_name (a_compression a)))"
    "jget j ''byte_size'' = Some (jnat (a_byte_size a))"
    unfolding j_def artifact_to_value_def jget_json_object
    by (simp_all add: map_add_def split: option.splits)
  have opt: "jget j ''checksum'' = map_option checksum_to_value (a_checksum a)"
    "jget j ''collection'' = map_option JString (a_collection a)"
    "jget j ''view'' = map_option JString (a_view a)"
    "jget j ''database'' = map_option JString (a_database a)"
    "jget j ''part'' = map_option jnat (a_part a)"
    unfolding j_def artifact_to_value_def jget_json_object
    by (simp_all add: map_add_def split: option.splits)
  have reads: "opt_read checksum_of_value j ''checksum'' = Some (a_checksum a)"
    "opt_read as_str j ''collection'' = Some (a_collection a)"
    "opt_read as_str j ''view'' = Some (a_view a)"
    "opt_read as_str j ''database'' = Some (a_database a)"
    "opt_read as_u32 j ''part'' = Some (a_part a)"
    using assms opt
    by (auto intro!: opt_read_lookup simp: artifact_fits_def checksum_to_value_def
        checksum_roundtrip [unfolded checksum_to_value_def])
  show ?thesis
    using req reads assms unfolding j_def [symmetric]
    by (simp add: artifact_of_value_def req_field_def default_field_def artifact_fits_def)
qed

lemma all_some_map: "(\<And>x. x \<in> set xs \<Longrightarrow> f (g x) = Some x) \<Longrightarrow> all_some f (map g xs) = Some xs"
  by (induction xs) auto

text \<open>
  C19: the JSON document of a manifest describes it completely: decoding it gives back every
  field of the manifest and of each of its artifacts, optional and defaulted ones included.
\<close>

theorem manifest_roundtrip:
  assumes "manifest_fits m"
  shows "manifest_of_value (manifest_to_value m) = Some m"
proof -
  define j where "j = manifest_to_value m"
  have req: "jget j ''manifest_version'' = Some (jnat (m_version m))"
    "jget j ''tool_version'' = Some (JString (m_tool_version m))"
    "jget j ''created_at'' = Some (JString (m_created_at m))"
    "jget j ''database'' = Some (JString (m_database m))"
    "jget j ''encryption'' = Some (encryption_to_value (m_encryption m))"
    "jget j ''artifacts'' = Some (JArray (map artifact_to_value (m_artifacts m)))"
    "jget j ''source'' = map_option JString (m_source m)"
    unfolding j_def manifest_to_value_def jget_json_object
    by (simp_all add: map_add_def split: option.splits)
  have arts: "all_some artifact_of_value (map artifact_to_value (m_artifacts m)) = Some (m_artifacts m)"
    using assms by (intro all_some_map artifact_roundtrip) (auto simp: manifest_fits_def list_all_iff)
  have src: "opt_read as_str j ''source'' = Some (m_source m)"
    using req(7) by (auto intro!: opt_read_lookup)
  show ?thesis
    using req arts src assms unfolding j_def [symmetric]
    by (simp add: manifest_of_value_def req_field_def default_field_def manifest_fits_def)
qed

definition sample_manifest :: manifest where
  "sample_manifest = manifest_push
     \<lparr>a_path = ''data/users.jsonl.gz'', a_kind = Data, a_format = Jsonl, a_compression = Gzip,
      a_byte_size = 512, a_checksum = Some \<lparr>cs_algorithm = ''sha256'', cs_value = ''ab''\<rparr>,
      a_collection = Some ''users'', a_view = None, a_database = None, a_part = Some 0\<rparr>
     (manifest_new ''shop'' ''1.0'' ''2024-01-01T00:00:00Z'')"

lemma manifest_roundtrip_witness:
  "manifest_of_value (manifest_to_value sample_manifest) = Some sample_manifest"
  by (rule manifest_roundtrip)
     (simp add: manifest_fits_def artifact_fits_def sample_manifest_def manifest_push_def
        manifest_new_def manifest_version_def)

lemma split_once_unique:
  fixes a b :: string
  assumes "a @ c # b = a' @ c # b'" "c \<notin> set a" "c \<notin> set a'"
  shows "a = a' \<and> b = b'"
proof -
  have "split_once c (a @ c # b) = Some (a, b)" "split_once c (a' @ c # b') = Some (a', b')"
    using assms(2,3) by (simp_all only: split_once_Some simp_thms)
  with assms(1) have "Some (a, b) = Some (a', b')" by metis
  then show ?thesis by simp
qed

lemma concat_terminated_inj:
  fixes xs ys :: "string list"
  assumes "concat (map (\<lambda>x. x @ [c]) xs) = concat (map (\<lambda>x. x @ [c]) ys)"
    and "\<forall>x \<in> set xs. c \<notin> set x" "\<forall>y \<in> set ys. c \<notin> set y"
  shows "xs = ys"
  using assms
proof (induction xs arbitrary: ys)
  case Nil
  then show ?case by (cases ys) auto
next
  case (Cons x xs)
  then obtain y zs where y: "ys = y # zs" by (cases ys) auto
  have "x = y \<and> concat (map (\<lambda>x. x @ [c]) xs) = concat (map (\<lambda>x. x @ [c]) zs)"
    using Cons.prems y by (intro split_once_unique [where c = c]) simp_all
  then show ?case using Cons y by auto
qed

text \<open>
  The dump fingerprint identifies the dump that a restore checkpoint belongs to: two
  manifests with the same fingerprint have the same database, creation time and artifact
  paths in the same order, when no database or time holds the bar and no path the comma that
  the fingerprint separates them with.
\<close>

theorem fingerprint_identifies:
  assumes "fingerprint m = fingerprint n"
    and "\<forall>x \<in> {m, n}. CHR ''|'' \<notin> set (m_database x) \<and> CHR ''|'' \<notin> set (m_created_at x)
           \<and> (\<forall>a \<in> set (m_artifacts x). CHR '','' \<notin> set (a_path a))"
  shows "m_database m = m_database n \<and> m_created_at m = m_created_at n
    \<and> map a_path (m_artifacts m) = map a_path (m_artifacts n)"
proof -
  let ?ps = "\<lambda>x. concat (map (\<lambda>p. p @ '','') (map a_path (m_artifacts x)))"
  have f: "fingerprint x = m_database x @ CHR ''|'' # (m_created_at x @ CHR ''|'' # ?ps x)" for x
    by (simp add: fingerprint_def comp_def)
  have db: "m_database m = m_database n
      \<and> m_created_at m @ CHR ''|'' # ?ps m = m_created_at n @ CHR ''|'' # ?ps n"
    using assms unfolding f by (intro split_once_unique [where c = "CHR ''|''"]) simp_all
  then have cr: "m_created_at m = m_created_at n \<and> ?ps m = ?ps n"
    using assms(2) by (intro split_once_unique [where c = "CHR ''|''"]) simp_all
  then have "map a_path (m_artifacts m) = map a_path (m_artifacts n)"
    using assms(2) by (intro concat_terminated_inj [of "CHR '',''"]) simp_all
  then show ?thesis using db cr by blast
qed

lemma fingerprint_identifies_witness:
  "m_database (sample_manifest\<lparr>m_source := Some ''FOR d IN users''\<rparr>) = ''shop''"
proof -
  let ?n = "sample_manifest\<lparr>m_source := Some ''FOR d IN users''\<rparr>"
  have "m_database ?n = m_database sample_manifest"
    by (rule fingerprint_identifies [THEN conjunct1])
       (auto simp: sample_manifest_def manifest_push_def manifest_new_def fingerprint_def)
  then show ?thesis
    by (simp add: sample_manifest_def manifest_push_def manifest_new_def)
qed

end
