(* ===== verification/Store.thy ===== *)
theory Store
  imports Errors
begin

text \<open>
  The storage interface of \<open>arangodb-storage/src/store.rs\<close>: object paths, byte ranges,
  object metadata, byte streams, and the trait \<open>ObjectStore\<close> as the locale
  \<open>object_store\<close>.  A byte stream is the list of the items it yields, each a chunk or an
  error.  The locale's laws say what a client may rely on; they are all conditional on what
  the operation reports, so a backend may fail at any call.
\<close>

section \<open>Paths, ranges, metadata, streams\<close>

datatype object_path = ObjectPath (path_str: string)

definition path_new :: "string \<Rightarrow> object_path" where
  "path_new s = ObjectPath s"

text \<open>Listings are ordered by path text; the type inherits the order of its text.\<close>

instantiation object_path :: linorder
begin

definition less_eq_object_path :: "object_path \<Rightarrow> object_path \<Rightarrow> bool" where
  "less_eq_object_path p q \<longleftrightarrow> path_str p \<le> path_str q"

definition less_object_path :: "object_path \<Rightarrow> object_path \<Rightarrow> bool" where
  "less_object_path p q \<longleftrightarrow> path_str p < path_str q"

instance
proof
  fix x y :: object_path
  show "x < y \<longleftrightarrow> x \<le> y \<and> \<not> y \<le> x"
    by (auto simp: less_object_path_def less_eq_object_path_def)
  show "x \<le> y \<Longrightarrow> y \<le> x \<Longrightarrow> x = y"
    by (simp add: less_eq_object_path_def object_path.expand)
  show "x \<le> y \<or> y \<le> x"
    unfolding less_eq_object_path_def by (rule linear)
qed (auto simp: less_eq_object_path_def)

end

record byte_range =
  br_start :: nat
  br_end :: "nat option"

definition range_starting_at :: "nat \<Rightarrow> byte_range" where
  "range_starting_at a = \<lparr>br_start = a, br_end = None\<rparr>"

definition range_bounded :: "nat \<Rightarrow> nat \<Rightarrow> byte_range" where
  "range_bounded a b = \<lparr>br_start = a, br_end = Some b\<rparr>"

record object_metadata =
  om_path :: object_path
  om_size :: nat

type_synonym byte_stream = "bytes res list"

text \<open>Draining a stream into one buffer (\<open>read_all\<close>, \<open>collect\<close>): the first error wins.\<close>

fun read_all :: "byte_stream \<Rightarrow> bytes res" where
  "read_all [] = Inr []"
| "read_all (c # cs) = try_res c (\<lambda>b. try_res (read_all cs) (\<lambda>bs. Inr (b @ bs)))"

text \<open>What a stream delivers before it ends or fails.\<close>

fun ok_bytes :: "byte_stream \<Rightarrow> bytes" where
  "ok_bytes [] = []"
| "ok_bytes (Inl e # cs) = []"
| "ok_bytes (Inr c # cs) = c @ ok_bytes cs"

definition once :: "bytes \<Rightarrow> byte_stream" where
  "once b = [Inr b]"

lemma read_all_once [simp]: "read_all (once b) = Inr b" "ok_bytes (once b) = b"
  by (simp_all add: once_def)

lemma read_all_map_Inr [simp]: "read_all (map Inr bs) = Inr (concat bs)"
  by (induction bs) auto

lemma read_all_append:
  "read_all (xs @ ys) = try_res (read_all xs) (\<lambda>b. try_res (read_all ys) (\<lambda>c. Inr (b @ c)))"
  by (induction xs) (auto simp: try_res_def split: sum.splits)

text \<open>The part of a resource that a range selects.\<close>

definition range_slice :: "byte_range option \<Rightarrow> bytes \<Rightarrow> bytes" where
  "range_slice r b =
     (case r of None \<Rightarrow> b
      | Some x \<Rightarrow> (case br_end x of
            None \<Rightarrow> drop (br_start x) b
          | Some e \<Rightarrow> take (e - br_start x) (drop (br_start x) b)))"

section \<open>The interface\<close>

locale object_store =
  fixes put :: "object_path \<Rightarrow> byte_stream \<Rightarrow> 's \<Rightarrow> object_metadata res \<times> 's"
    and put_absent :: "object_path \<Rightarrow> byte_stream \<Rightarrow> 's \<Rightarrow> object_metadata res \<times> 's"
    and get :: "object_path \<Rightarrow> byte_range option \<Rightarrow> 's \<Rightarrow> byte_stream res"
    and head :: "object_path \<Rightarrow> 's \<Rightarrow> object_metadata option res"
    and delete :: "object_path \<Rightarrow> 's \<Rightarrow> unit res \<times> 's"
    and key :: "object_path \<Rightarrow> 'k"
    and obj :: "'s \<Rightarrow> 'k \<Rightarrow> bytes option"
    and wf :: "'s \<Rightarrow> bool"
  assumes put_ok: "wf s \<Longrightarrow> put p bs s = (Inr m, s') \<Longrightarrow>
        \<exists>b. read_all bs = Inr b \<and> obj s' (key p) = Some b \<and> m = \<lparr>om_path = p, om_size = length b\<rparr>"
    and put_frame: "wf s \<Longrightarrow> put p bs s = (r, s') \<Longrightarrow> k \<noteq> key p \<Longrightarrow> obj s' k = obj s k"
    and put_fail: "wf s \<Longrightarrow> put p bs s = (Inl e, s') \<Longrightarrow>
        obj s' (key p) = obj s (key p) \<or> obj s' (key p) = None
        \<or> (\<exists>b. obj s' (key p) = Some b \<and> Sublist.prefix b (ok_bytes bs))"
    and put_wf: "wf s \<Longrightarrow> put p bs s = (r, s') \<Longrightarrow> wf s'"
    and put_absent_ok: "wf s \<Longrightarrow> put_absent p bs s = (Inr m, s') \<Longrightarrow>
        obj s (key p) = None \<and> (\<exists>b. read_all bs = Inr b \<and> obj s' (key p) = Some b)"
    and put_absent_frame: "wf s \<Longrightarrow> put_absent p bs s = (r, s') \<Longrightarrow> k \<noteq> key p \<Longrightarrow> obj s' k = obj s k"
    and put_absent_keeps: "wf s \<Longrightarrow> put_absent p bs s = (r, s') \<Longrightarrow> obj s (key p) = Some b \<Longrightarrow>
        obj s' (key p) = Some b"
    and put_absent_wf: "wf s \<Longrightarrow> put_absent p bs s = (r, s') \<Longrightarrow> wf s'"
    and get_ok: "wf s \<Longrightarrow> get p None s = Inr bs \<Longrightarrow> read_all bs = Inr c \<Longrightarrow>
        obj s (key p) = Some c"
    and head_some: "wf s \<Longrightarrow> head p s = Inr (Some m) \<Longrightarrow>
        \<exists>b. obj s (key p) = Some b \<and> m = \<lparr>om_path = p, om_size = length b\<rparr>"
    and head_none: "wf s \<Longrightarrow> head p s = Inr None \<Longrightarrow> obj s (key p) = None"
    and delete_ok: "wf s \<Longrightarrow> delete p s = (Inr (), s') \<Longrightarrow> obj s' (key p) = None"
    and delete_frame: "wf s \<Longrightarrow> delete p s = (u, s') \<Longrightarrow> k \<noteq> key p \<Longrightarrow> obj s' k = obj s k"
    and delete_wf: "wf s \<Longrightarrow> delete p s = (u, s') \<Longrightarrow> wf s'"
begin

lemma put_get:
  assumes "wf s" "put p bs s = (Inr m, s')" "get p None s' = Inr cs" "read_all cs = Inr c"
  shows "read_all bs = Inr c"
  using put_ok [OF assms(1,2)] get_ok [OF put_wf [OF assms(1,2)] assms(3,4)] by auto

lemma put_absent_exclusive:
  assumes "wf s" "obj s (key p) = Some b"
  shows "\<exists>e. fst (put_absent p bs s) = Inl e"
proof (cases "put_absent p bs s")
  case (Pair r s')
  then show ?thesis
    using put_absent_ok [OF assms(1), of p bs] assms(2) by (cases r) auto
qed

end

text \<open>\<open>ObjectStore::exists\<close>, provided through \<open>head\<close>.\<close>

definition store_exists ::
  "(object_path \<Rightarrow> 's \<Rightarrow> object_metadata option res) \<Rightarrow> object_path \<Rightarrow> 's \<Rightarrow> bool res" where
  "store_exists head p s = try_res (head p s) (\<lambda>m. Inr (m \<noteq> None))"

end
