(* ===== verification/LocalFs.thy ===== *)
theory LocalFs
  imports Store BTree
begin

text \<open>
  The local file system backend, \<open>arangodb-storage/src/local.rs\<close>, over a model of the
  directory tree below its root.  A node is addressed by the list of its path components;
  the operating system's rules that the backend can observe (a missing or non-directory
  component, a directory where a file is wanted, a trailing slash or dot) are written out.
  Device faults are not modelled: an operation fails only for these reasons or because its
  input stream does.  The interpretation at the end proves the storage contract for it.
\<close>

datatype node = Dir | File bytes

type_synonym fs = "(string list, node) btree"

section \<open>Resolving object paths\<close>

text \<open>How a path text ends: a name, a trailing slash, or a trailing dot component.\<close>

datatype path_tail = Plain | Slash | Dot

definition path_segments :: "string \<Rightarrow> string list" where
  "path_segments s = split_on (CHR ''/'') s"

definition path_components :: "string \<Rightarrow> string list" where
  "path_components s = filter (\<lambda>c. c \<noteq> [] \<and> c \<noteq> ''.'') (path_segments s)"

definition path_tail_of :: "string \<Rightarrow> path_tail" where
  "path_tail_of s =
     (case dropWhile (\<lambda>c. c = []) (rev (path_segments s)) of
        [] \<Rightarrow> Slash
      | c # _ \<Rightarrow> if c = ''.'' then Dot
                 else if last (path_segments s) = [] then Slash else Plain)"

text \<open>\<open>resolve\<close>: an absolute path or a \<open>..\<close> component is refused.\<close>

definition resolve :: "object_path \<Rightarrow> (string list \<times> path_tail) res" where
  "resolve p =
     (let s = path_str p in
      if (case s of [] \<Rightarrow> False | c # _ \<Rightarrow> c = CHR ''/'') \<or> ''..'' \<in> set (path_segments s)
      then Inl (Storage (''object path escapes storage root: '' @ s))
      else Inr (path_components s, path_tail_of s))"

section \<open>The directory tree\<close>

definition fs_node :: "fs \<Rightarrow> string list \<Rightarrow> node option" where
  "fs_node fs p = (if p = [] then Some Dir else bt_get fs p)"

text \<open>Walking a path: every component but the last must be a directory.\<close>

fun fs_walk :: "fs \<Rightarrow> string list \<Rightarrow> string list \<Rightarrow> io_kind + node" where
  "fs_walk fs pre [] = (case fs_node fs pre of None \<Rightarrow> Inl NotFound | Some n \<Rightarrow> Inr n)"
| "fs_walk fs pre (c # cs) =
     (case fs_node fs pre of
        None \<Rightarrow> Inl NotFound
      | Some (File _) \<Rightarrow> Inl NotADirectory
      | Some Dir \<Rightarrow> fs_walk fs (pre @ [c]) cs)"

definition fs_stat :: "fs \<Rightarrow> string list \<Rightarrow> path_tail \<Rightarrow> io_kind + node" where
  "fs_stat fs p tail =
     try_res (fs_walk fs [] p)
       (\<lambda>n. case n of File _ \<Rightarrow> if tail = Plain then Inr n else Inl NotADirectory | Dir \<Rightarrow> Inr n)"

text \<open>\<open>create_dir_all\<close>.\<close>

fun mkdirs :: "fs \<Rightarrow> string list \<Rightarrow> string list \<Rightarrow> io_kind + fs" where
  "mkdirs fs pre [] = Inr fs"
| "mkdirs fs pre (c # cs) =
     (let q = pre @ [c] in
      case bt_get fs q of
        Some Dir \<Rightarrow> mkdirs fs q cs
      | Some (File _) \<Rightarrow> Inl (if cs = [] then FileExists else NotADirectory)
      | None \<Rightarrow> mkdirs (bt_insert q Dir fs) q cs)"

text \<open>\<open>File::create\<close> and \<open>OpenOptions::create_new\<close>: the tree with the new, empty file.\<close>

definition open_target :: "fs \<Rightarrow> string list \<Rightarrow> path_tail \<Rightarrow> io_kind + unit" where
  "open_target fs p tail =
     (case tail of
        Slash \<Rightarrow> Inl IsADirectory
      | Dot \<Rightarrow> try_res (fs_stat fs p tail) (\<lambda>_. Inl IsADirectory)
      | Plain \<Rightarrow> Inr ())"

definition file_create :: "fs \<Rightarrow> string list \<Rightarrow> path_tail \<Rightarrow> io_kind + fs" where
  "file_create fs p tail =
     try_res (open_target fs p tail)
       (\<lambda>_. if fs_node fs p = Some Dir then Inl IsADirectory else Inr (bt_insert p (File []) fs))"

definition file_create_new :: "fs \<Rightarrow> string list \<Rightarrow> path_tail \<Rightarrow> io_kind + fs" where
  "file_create_new fs p tail =
     try_res (open_target fs p tail)
       (\<lambda>_. if fs_node fs p \<noteq> None then Inl FileExists else Inr (bt_insert p (File []) fs))"

text \<open>\<open>write_all\<close>: chunks are appended until the stream ends or fails; what was written stays.\<close>

fun write_all :: "bytes \<Rightarrow> byte_stream \<Rightarrow> nat res \<times> bytes" where
  "write_all file [] = (Inr 0, file)"
| "write_all file (Inl e # cs) = (Inl e, file)"
| "write_all file (Inr chunk # cs) =
     (case write_all (file @ chunk) cs of
        (Inr n, f) \<Rightarrow> (Inr (length chunk + n), f)
      | (Inl e, f) \<Rightarrow> (Inl e, f))"

definition io_err :: "io_kind + 'a \<Rightarrow> 'a res" where
  "io_err r = (case r of Inl k \<Rightarrow> Inl (Io k) | Inr x \<Rightarrow> Inr x)"

section \<open>The backend's operations\<close>

definition write_stream ::
  "object_path \<Rightarrow> string list \<Rightarrow> byte_stream \<Rightarrow> fs \<Rightarrow> object_metadata res \<times> fs" where
  "write_stream p k input fs =
     (case write_all [] input of
        (Inr n, f) \<Rightarrow> (Inr \<lparr>om_path = p, om_size = n\<rparr>, bt_insert k (File f) fs)
      | (Inl e, f) \<Rightarrow> (Inl e, bt_insert k (File f) fs))"

definition local_put_stream :: "object_path \<Rightarrow> byte_stream \<Rightarrow> fs \<Rightarrow> object_metadata res \<times> fs" where
  "local_put_stream p input fs =
     (case resolve p of
        Inl e \<Rightarrow> (Inl e, fs)
      | Inr (k, tail) \<Rightarrow>
          (case mkdirs fs [] (butlast k) of
             Inl e \<Rightarrow> (Inl (Io e), fs)
           | Inr fs1 \<Rightarrow>
               (case file_create fs1 k tail of
                  Inl e \<Rightarrow> (Inl (Io e), fs1)
                | Inr fs2 \<Rightarrow> write_stream p k input fs2)))"

definition local_put_if_absent :: "object_path \<Rightarrow> byte_stream \<Rightarrow> fs \<Rightarrow> object_metadata res \<times> fs" where
  "local_put_if_absent p input fs =
     (case resolve p of
        Inl e \<Rightarrow> (Inl e, fs)
      | Inr (k, tail) \<Rightarrow>
          (case mkdirs fs [] (butlast k) of
             Inl e \<Rightarrow> (Inl (Io e), fs)
           | Inr fs1 \<Rightarrow>
               (case file_create_new fs1 k tail of
                  Inl FileExists \<Rightarrow> (Inl (AlreadyExists (path_str p)), fs1)
                | Inl e \<Rightarrow> (Inl (Io e), fs1)
                | Inr fs2 \<Rightarrow> write_stream p k input fs2)))"

text \<open>\<open>ReaderStream\<close> yields chunks of at most 4 KiB.\<close>

definition reader_chunk :: nat where
  "reader_chunk = 4096"

function chunks :: "bytes \<Rightarrow> bytes list" where
  "chunks b = (if b = [] then [] else take reader_chunk b # chunks (drop reader_chunk b))"
  by pat_completeness auto
termination
  by (relation "measure length") (auto simp: reader_chunk_def)

declare chunks.simps [simp del]

definition local_get_stream :: "object_path \<Rightarrow> byte_range option \<Rightarrow> fs \<Rightarrow> byte_stream res" where
  "local_get_stream p r fs =
     try_res (resolve p) (\<lambda>(k, tail).
       try_res (io_err (fs_stat fs k tail)) (\<lambda>n.
         case n of
           File b \<Rightarrow> Inr (map Inr (chunks (range_slice r b)))
         | Dir \<Rightarrow> (case r of
               Some x \<Rightarrow> if (case br_end x of None \<Rightarrow> False | Some e \<Rightarrow> e - br_start x = 0)
                         then Inr [] else Inr [Inl (Io IsADirectory)]
             | None \<Rightarrow> Inr [Inl (Io IsADirectory)])))"

definition local_head :: "object_path \<Rightarrow> fs \<Rightarrow> object_metadata option res" where
  "local_head p fs =
     try_res (resolve p) (\<lambda>(k, tail).
       case fs_stat fs k tail of
         Inr (File b) \<Rightarrow> Inr (Some \<lparr>om_path = p, om_size = length b\<rparr>)
       | Inr Dir \<Rightarrow> Inr None
       | Inl NotFound \<Rightarrow> Inr None
       | Inl e \<Rightarrow> Inl (Io e))"

definition local_delete :: "object_path \<Rightarrow> fs \<Rightarrow> unit res \<times> fs" where
  "local_delete p fs =
     (case resolve p of
        Inl e \<Rightarrow> (Inl e, fs)
      | Inr (k, tail) \<Rightarrow>
          (case fs_stat fs k tail of
             Inr (File _) \<Rightarrow> (Inr (), bt_remove k fs)
           | Inr Dir \<Rightarrow> (Inl (Io IsADirectory), fs)
           | Inl NotFound \<Rightarrow> (Inr (), fs)
           | Inl e \<Rightarrow> (Inl (Io e), fs)))"

text \<open>
  \<open>list\<close>: the files at or below the prefix, each path made relative to the root
  (\<open>relativize\<close> drops leading empty and dot components, the rest of the prefix's text is
  kept), in the order of their path texts.
\<close>

definition join_raw :: "string \<Rightarrow> string list \<Rightarrow> string" where
  "join_raw base names =
     (if names = [] then base
      else if base = [] \<or> last base = CHR ''/'' then base @ join ''/'' names
      else base @ ''/'' @ join ''/'' names)"

definition relativize :: "string \<Rightarrow> object_path" where
  "relativize raw =
     ObjectPath (join ''/'' (dropWhile (\<lambda>c. c = [] \<or> c = ''.'') (path_segments raw)))"

definition local_list :: "object_path \<Rightarrow> fs \<Rightarrow> object_metadata res list" where
  "local_list p fs =
     (case resolve p of
        Inl e \<Rightarrow> [Inl e]
      | Inr (k, tail) \<Rightarrow>
          (case fs_stat fs k tail of
             Inl NotFound \<Rightarrow> []
           | Inl e \<Rightarrow> [Inl (Io e)]
           | Inr _ \<Rightarrow>
               map Inr (sort_key om_path
                 (concat (map (\<lambda>(q, n). case n of
                      File b \<Rightarrow> (case Sublist.prefix k q of
                          True \<Rightarrow> [\<lparr>om_path = relativize (join_raw (path_str p) (drop (length k) q)),
                                    om_size = length b\<rparr>]
                        | False \<Rightarrow> [])
                    | Dir \<Rightarrow> []) fs)))))"

section \<open>Well-formed trees\<close>

text \<open>Every entry has a name, and its parent is a directory.\<close>

definition fs_wf :: "fs \<Rightarrow> bool" where
  "fs_wf fs \<longleftrightarrow> bt_wf fs \<and>
     (\<forall>k n. bt_get fs k = Some n \<longrightarrow> k \<noteq> [] \<and> fs_node fs (butlast k) = Some Dir)"

definition fs_obj :: "fs \<Rightarrow> string list \<Rightarrow> bytes option" where
  "fs_obj fs k = (case fs_node fs k of Some (File b) \<Rightarrow> Some b | _ \<Rightarrow> None)"

definition fs_key :: "object_path \<Rightarrow> string list" where
  "fs_key p = path_components (path_str p)"

lemma fs_wf_empty [simp]: "fs_wf []"
  by (simp add: fs_wf_def)

lemma fs_wf_bt: "fs_wf fs \<Longrightarrow> bt_wf fs"
  by (simp add: fs_wf_def)

lemma fs_obj_Nil [simp]: "fs_obj fs [] = None"
  by (simp add: fs_obj_def fs_node_def)

lemma fs_wf_parent: "fs_wf fs \<Longrightarrow> fs_node fs (p @ [c]) = Some n \<Longrightarrow> fs_node fs p = Some Dir"
  by (auto simp: fs_wf_def fs_node_def)

lemma fs_wf_ancestor:
  "fs_wf fs \<Longrightarrow> fs_node fs (p @ q) = Some n \<Longrightarrow> q \<noteq> [] \<Longrightarrow> fs_node fs p = Some Dir"
proof (induction q arbitrary: n rule: rev_induct)
  case Nil
  then show ?case by simp
next
  case (snoc c q)
  have "fs_node fs (p @ q) = Some Dir"
    using fs_wf_parent [OF snoc.prems(1), of "p @ q" c n] snoc.prems(2) by simp
  then show ?case using snoc by (cases "q = []") auto
qed

lemma fs_walk_iff:
  "fs_wf fs \<Longrightarrow> fs_walk fs pre cs = Inr n \<longleftrightarrow> fs_node fs (pre @ cs) = Some n"
proof (induction cs arbitrary: pre)
  case Nil
  then show ?case by (auto split: option.splits)
next
  case (Cons c cs)
  have anc: "fs_node fs (pre @ c # cs) = Some n \<Longrightarrow> fs_node fs pre = Some Dir"
    using fs_wf_ancestor [OF Cons.prems, of pre "c # cs"] by simp
  show ?case
    using Cons.IH [OF Cons.prems, of "pre @ [c]"] anc
    by (auto split: option.splits node.splits)
qed

lemma fs_stat_node: "fs_wf fs \<Longrightarrow> fs_stat fs p tail = Inr n \<Longrightarrow> fs_node fs p = Some n"
proof -
  assume wf: "fs_wf fs" and st: "fs_stat fs p tail = Inr n"
  then obtain m where "fs_walk fs [] p = Inr m"
    and m: "(case m of File _ \<Rightarrow> if tail = Plain then Inr m else Inl NotADirectory | Dir \<Rightarrow> Inr m) = Inr n"
    by (auto simp: fs_stat_def res_simps)
  moreover have "m = n" using m by (cases m) (auto split: if_splits)
  ultimately show ?thesis using fs_walk_iff [OF wf, of "[]" p] by simp
qed

lemma fs_stat_File:
  "fs_wf fs \<Longrightarrow> fs_stat fs p tail = Inr (File b) \<Longrightarrow> fs_obj fs p = Some b"
  by (simp add: fs_obj_def fs_stat_node)

lemma fs_stat_Dir: "fs_wf fs \<Longrightarrow> fs_stat fs p tail = Inr Dir \<Longrightarrow> fs_obj fs p = None"
  by (simp add: fs_obj_def fs_stat_node)

lemma fs_stat_NotFound: "fs_wf fs \<Longrightarrow> fs_stat fs p tail = Inl NotFound \<Longrightarrow> fs_obj fs p = None"
proof -
  assume wf: "fs_wf fs" and st: "fs_stat fs p tail = Inl NotFound"
  have "\<not> (\<exists>n. fs_walk fs [] p = Inr n)"
    using st by (auto simp: fs_stat_def split: node.splits if_splits)
  then have "fs_node fs p = None"
    using fs_walk_iff [OF wf, of "[]" p] by (cases "fs_node fs p") auto
  then show ?thesis by (simp add: fs_obj_def)
qed

lemma fs_node_insert:
  "fs_wf fs \<Longrightarrow> k \<noteq> [] \<Longrightarrow> fs_node (bt_insert k n fs) j = (if j = k then Some n else fs_node fs j)"
  by (simp add: fs_node_def fs_wf_bt)

lemma fs_wf_insert:
  assumes "fs_wf fs" "k \<noteq> []" "fs_node fs (butlast k) = Some Dir"
    and "fs_node fs k = Some Dir \<Longrightarrow> n = Dir"
  shows "fs_wf (bt_insert k n fs)"
  unfolding fs_wf_def
proof (intro conjI allI impI)
  show "bt_wf (bt_insert k n fs)" using assms(1) by (simp add: fs_wf_bt)
  fix j m assume j: "bt_get (bt_insert k n fs) j = Some m"
  then show "j \<noteq> []"
    using assms(1,2) by (auto simp: fs_wf_def split: if_splits)
  have parent: "fs_node fs (butlast j) = Some Dir"
    using j assms(1,3) by (auto simp: fs_wf_def split: if_splits)
  show "fs_node (bt_insert k n fs) (butlast j) = Some Dir"
    using parent assms(4) by (cases "butlast j = k") (auto simp: fs_node_insert [OF assms(1,2)])
qed

lemma fs_obj_insert_Dir:
  "fs_wf fs \<Longrightarrow> k \<noteq> [] \<Longrightarrow> fs_node fs k = None \<Longrightarrow> fs_obj (bt_insert k Dir fs) j = fs_obj fs j"
  by (simp add: fs_obj_def fs_node_insert)

lemma mkdirs_spec:
  assumes "fs_wf fs" "fs_node fs pre = Some Dir" "mkdirs fs pre cs = Inr fs'"
  shows "fs_wf fs' \<and> fs_node fs' (pre @ cs) = Some Dir \<and> fs_obj fs' = fs_obj fs"
  using assms
proof (induction cs arbitrary: fs pre)
  case Nil
  then show ?case by simp
next
  case (Cons c cs)
  let ?q = "pre @ [c]"
  have node: "bt_get fs ?q = fs_node fs ?q" by (simp add: fs_node_def)
  show ?case
  proof (cases "fs_node fs ?q")
    case None
    let ?fs1 = "bt_insert ?q Dir fs"
    have wf1: "fs_wf ?fs1"
      using Cons.prems(1,2) by (intro fs_wf_insert) auto
    have obj1: "fs_obj ?fs1 = fs_obj fs"
      using fs_obj_insert_Dir [OF Cons.prems(1) _ None] by auto
    have "fs_node ?fs1 ?q = Some Dir" by (simp add: fs_node_insert [OF Cons.prems(1)])
    from Cons.IH [OF wf1 this] Cons.prems(3) None node obj1
    show ?thesis
      by (auto simp: Let_def fs_node_insert [OF Cons.prems(1)])
  next
    case (Some n)
    then show ?thesis
      using Cons.IH [OF Cons.prems(1), of ?q] Cons.prems(3) node
      by (cases n) (auto simp: Let_def)
  qed
qed

lemma fs_obj_insert_File:
  "fs_wf fs \<Longrightarrow> k \<noteq> [] \<Longrightarrow>
     fs_obj (bt_insert k (File b) fs) j = (if j = k then Some b else fs_obj fs j)"
  by (simp add: fs_obj_def fs_node_insert)

lemma fs_wf_insert_File:
  assumes "fs_wf fs" "k \<noteq> []" "fs_node fs (butlast k) = Some Dir" "fs_node fs k \<noteq> Some Dir"
  shows "fs_wf (bt_insert k (File b) fs)"
  using assms by (intro fs_wf_insert) auto

lemma fs_remove_File:
  assumes "fs_wf fs" "fs_obj fs k = Some b"
  shows "fs_wf (bt_remove k fs)" "fs_obj (bt_remove k fs) j = (if j = k then None else fs_obj fs j)"
proof -
  have k: "k \<noteq> []" and f: "fs_node fs k = Some (File b)"
    using assms(2) by (auto simp: fs_obj_def fs_node_def split: if_splits option.splits node.splits)
  have node: "fs_node (bt_remove k fs) j = (if j = k then None else fs_node fs j)" for j
    using k assms(1) by (simp add: fs_node_def fs_wf_bt)
  show "fs_obj (bt_remove k fs) j = (if j = k then None else fs_obj fs j)"
    by (simp add: fs_obj_def node)
  show "fs_wf (bt_remove k fs)"
    unfolding fs_wf_def
  proof (intro conjI allI impI)
    show "bt_wf (bt_remove k fs)" using assms(1) by (simp add: fs_wf_bt)
    fix j n assume j: "bt_get (bt_remove k fs) j = Some n"
    then have j': "bt_get fs j = Some n"
      using assms(1) by (auto simp: fs_wf_bt split: if_splits)
    then show "j \<noteq> []" using assms(1) by (auto simp: fs_wf_def)
    have p: "fs_node fs (butlast j) = Some Dir" using j' assms(1) by (auto simp: fs_wf_def)
    then have "butlast j \<noteq> k" using f by auto
    then show "fs_node (bt_remove k fs) (butlast j) = Some Dir" using p by (simp add: node)
  qed
qed

section \<open>What the operations do to the objects\<close>

lemma write_all_ok: "write_all f cs = (Inr n, g) \<Longrightarrow> \<exists>b. read_all cs = Inr b \<and> g = f @ b \<and> n = length b"
proof (induction f cs arbitrary: n g rule: write_all.induct)
  case (3 f chunk cs)
  then show ?case by (fastforce split: prod.splits sum.splits)
qed auto

lemma write_all_fail: "write_all f cs = (Inl e, g) \<Longrightarrow> g = f @ ok_bytes cs"
  by (induction f cs arbitrary: g rule: write_all.induct) (auto split: prod.splits sum.splits)

lemma open_target_not_root: "open_target fs k tail = Inr u \<Longrightarrow> tail = Plain"
  by (cases tail) (auto simp: open_target_def res_simps)

lemma resolve_key: "resolve p = Inr (k, tail) \<Longrightarrow> k = fs_key p"
  by (auto simp: resolve_def fs_key_def Let_def split: if_splits)

lemma path_tail_Plain: "path_tail_of s = Plain \<Longrightarrow> path_components s \<noteq> []"
proof
  assume t: "path_tail_of s = Plain" and n: "path_components s = []"
  obtain c cs where c: "dropWhile (\<lambda>c. c = []) (rev (path_segments s)) = c # cs" "c \<noteq> ''.''"
    using t by (auto simp: path_tail_of_def split: list.splits if_splits)
  then have "c \<in> set (path_segments s)"
    by (metis list.set_intros(1) set_dropWhileD set_rev)
  moreover have "c \<noteq> []"
    using hd_dropWhile [of "\<lambda>c. c = []" "rev (path_segments s)"] c(1) by simp
  ultimately show False using n c(2) by (auto simp: path_components_def filter_empty_conv)
qed

lemma resolve_Plain: "resolve p = Inr (k, Plain) \<Longrightarrow> k \<noteq> []"
  by (auto simp: resolve_def Let_def path_tail_Plain split: if_splits)

text \<open>
  Both writes go the same way: the parent directories, the (new or truncated) file, then the
  stream.  \<open>fs1\<close> is the tree before the file is opened, \<open>k\<close> the file.
\<close>

lemma write_stream_spec:
  assumes "fs_wf fs1" "k \<noteq> []" "fs_node fs1 (butlast k) = Some Dir" "fs_node fs1 k \<noteq> Some Dir"
    and w: "write_stream p k input (bt_insert k (File []) fs1) = (r, fs')"
  shows "fs_wf fs' \<and> (\<forall>j. j \<noteq> k \<longrightarrow> fs_obj fs' j = fs_obj fs1 j)
    \<and> (\<forall>m. r = Inr m \<longrightarrow> (\<exists>b. read_all input = Inr b \<and> fs_obj fs' k = Some b
           \<and> m = \<lparr>om_path = p, om_size = length b\<rparr>))
    \<and> (\<forall>e. r = Inl e \<longrightarrow> fs_obj fs' k = Some (ok_bytes input))"
proof -
  obtain x f where x: "write_all [] input = (x, f)" by (cases "write_all [] input")
  have fs': "fs' = bt_insert k (File f) (bt_insert k (File []) fs1)"
    using w x by (auto simp: write_stream_def split: sum.splits)
  have same: "fs' = bt_insert k (File f) fs1"
    using assms(1) by (simp add: fs' bt.ins_ins_same fs_wf_bt)
  have "\<exists>b. read_all input = Inr b \<and> f = b \<and> m = \<lparr>om_path = p, om_size = length b\<rparr>"
    if "r = Inr m" for m
    using w x that write_all_ok [of "[]" input] by (auto simp: write_stream_def split: sum.splits)
  moreover have "f = ok_bytes input" if "r = Inl e" for e
    using w x that write_all_fail [of "[]" input] by (auto simp: write_stream_def split: sum.splits)
  ultimately show ?thesis
    using assms(1-4) unfolding same
    by (auto simp: fs_obj_insert_File fs_wf_insert_File)
qed

lemma local_put_cases:
  assumes "fs_wf fs" "local_put_stream p bs fs = (r, fs')"
  shows "fs_wf fs' \<and> (\<forall>j. j \<noteq> fs_key p \<longrightarrow> fs_obj fs' j = fs_obj fs j)
    \<and> (\<forall>m. r = Inr m \<longrightarrow> (\<exists>b. read_all bs = Inr b \<and> fs_obj fs' (fs_key p) = Some b
           \<and> m = \<lparr>om_path = p, om_size = length b\<rparr>))
    \<and> (\<forall>e. r = Inl e \<longrightarrow> fs_obj fs' (fs_key p) = fs_obj fs (fs_key p)
           \<or> fs_obj fs' (fs_key p) = Some (ok_bytes bs))"
proof (cases "resolve p")
  case (Inl e)
  then show ?thesis using assms by (auto simp: local_put_stream_def)
next
  case (Inr kt)
  then obtain k tail where kt: "resolve p = Inr (k, tail)" by (cases kt) auto
  have key: "k = fs_key p" using resolve_key [OF kt] .
  show ?thesis
  proof (cases "mkdirs fs [] (butlast k)")
    case (Inl e)
    then show ?thesis using assms kt by (auto simp: local_put_stream_def)
  next
    case (Inr fs1)
    have m: "fs_wf fs1" "fs_node fs1 (butlast k) = Some Dir" "fs_obj fs1 = fs_obj fs"
      using mkdirs_spec [OF assms(1) _ Inr] by (simp_all add: fs_node_def)
    show ?thesis
    proof (cases "file_create fs1 k tail")
      case (Inl e)
      then show ?thesis using assms(2) kt Inr m by (auto simp: local_put_stream_def)
    next
      case (Inr fs2)
      then have t: "tail = Plain" "fs_node fs1 k \<noteq> Some Dir" "fs2 = bt_insert k (File []) fs1"
        by (auto simp: file_create_def res_simps dest: open_target_not_root split: if_splits)
      have w: "write_stream p k bs fs2 = (r, fs')"
        using assms(2) kt \<open>mkdirs fs [] (butlast k) = Inr fs1\<close> Inr by (simp add: local_put_stream_def)
      have "k \<noteq> []" using resolve_Plain kt t(1) by simp
      from write_stream_spec [OF m(1) this m(2) t(2)] w t(3) m(3) key
      show ?thesis by simp
    qed
  qed
qed

lemma local_put_absent_cases:
  assumes "fs_wf fs" "local_put_if_absent p bs fs = (r, fs')"
  shows "fs_wf fs' \<and> (\<forall>j. j \<noteq> fs_key p \<longrightarrow> fs_obj fs' j = fs_obj fs j)
    \<and> (\<forall>b. fs_obj fs (fs_key p) = Some b \<longrightarrow> fs_obj fs' (fs_key p) = Some b \<and> (\<exists>e. r = Inl e))
    \<and> (\<forall>m. r = Inr m \<longrightarrow> fs_obj fs (fs_key p) = None
           \<and> (\<exists>b. read_all bs = Inr b \<and> fs_obj fs' (fs_key p) = Some b))"
proof (cases "resolve p")
  case (Inl e)
  then show ?thesis using assms by (auto simp: local_put_if_absent_def)
next
  case (Inr kt)
  then obtain k tail where kt: "resolve p = Inr (k, tail)" by (cases kt) auto
  have key: "k = fs_key p" using resolve_key [OF kt] .
  show ?thesis
  proof (cases "mkdirs fs [] (butlast k)")
    case (Inl e)
    then show ?thesis using assms kt by (auto simp: local_put_if_absent_def)
  next
    case (Inr fs1)
    have m: "fs_wf fs1" "fs_node fs1 (butlast k) = Some Dir" "fs_obj fs1 = fs_obj fs"
      using mkdirs_spec [OF assms(1) _ Inr] by (simp_all add: fs_node_def)
    show ?thesis
    proof (cases "file_create_new fs1 k tail")
      case (Inl e)
      then show ?thesis
        using assms(2) kt Inr m by (auto simp: local_put_if_absent_def split: io_kind.splits)
    next
      case (Inr fs2)
      then have t: "tail = Plain" "fs_node fs1 k = None" "fs2 = bt_insert k (File []) fs1"
        by (auto simp: file_create_new_def res_simps dest: open_target_not_root split: if_splits)
      have w: "write_stream p k bs fs2 = (r, fs')"
        using assms(2) kt \<open>mkdirs fs [] (butlast k) = Inr fs1\<close> Inr
        by (simp add: local_put_if_absent_def)
      have "k \<noteq> []" using resolve_Plain kt t(1) by simp
      moreover have "fs_obj fs k = None" using t(2) m(3) by (metis fs_obj_def option.case(1))
      ultimately show ?thesis
        using write_stream_spec [OF m(1) _ m(2)] w t(2,3) m(3) key by fastforce
    qed
  qed
qed

lemma concat_chunks: "concat (chunks b) = b"
  by (induction b rule: chunks.induct) (subst chunks.simps, auto)

lemma local_get_ok:
  assumes "fs_wf fs" "local_get_stream p r fs = Inr bs" "read_all bs = Inr c"
    and "r = None \<or> (\<exists>x. r = Some x \<and> br_end x = None)"
  shows "\<exists>b. fs_obj fs (fs_key p) = Some b \<and> c = range_slice r b"
proof -
  obtain k tail where kt: "resolve p = Inr (k, tail)"
    using assms(2) by (auto simp: local_get_stream_def res_simps)
  obtain n where n: "fs_stat fs k tail = Inr n"
    using assms(2) kt by (auto simp: local_get_stream_def io_err_def res_simps split: sum.splits)
  show ?thesis
  proof (cases n)
    case Dir
    then show ?thesis
      using assms(2-4) kt n
      by (auto simp: local_get_stream_def io_err_def split: option.splits)
  next
    case (File b)
    then have "c = range_slice r b"
      using assms(2,3) kt n by (auto simp: local_get_stream_def io_err_def concat_chunks)
    then show ?thesis
      using fs_stat_File [OF assms(1)] n File resolve_key [OF kt] by auto
  qed
qed

lemma local_head_cases:
  assumes "fs_wf fs" "local_head p fs = Inr m"
  shows "m = map_option (\<lambda>b. \<lparr>om_path = p, om_size = length b\<rparr>) (fs_obj fs (fs_key p))"
proof -
  obtain k tail where kt: "resolve p = Inr (k, tail)"
    using assms(2) by (auto simp: local_head_def res_simps)
  then show ?thesis
    using assms resolve_key [OF kt]
    by (auto simp: local_head_def fs_stat_Dir fs_stat_File fs_stat_NotFound
        split: sum.splits io_kind.splits node.splits)
qed

lemma local_delete_cases:
  assumes "fs_wf fs" "local_delete p fs = (r, fs')"
  shows "fs_wf fs' \<and> (\<forall>j. j \<noteq> fs_key p \<longrightarrow> fs_obj fs' j = fs_obj fs j)
    \<and> (r = Inr () \<longrightarrow> fs_obj fs' (fs_key p) = None)"
proof (cases "resolve p")
  case (Inl e)
  then show ?thesis using assms by (auto simp: local_delete_def)
next
  case (Inr kt)
  then obtain k tail where kt: "resolve p = Inr (k, tail)" by (cases kt) auto
  have key: "k = fs_key p" using resolve_key [OF kt] .
  show ?thesis
  proof (cases "fs_stat fs k tail")
    case (Inl e)
    then show ?thesis
      using assms kt fs_stat_NotFound [OF assms(1)] key
      by (auto simp: local_delete_def split: io_kind.splits)
  next
    case (Inr n)
    then show ?thesis
      using assms kt key fs_remove_File [OF assms(1) fs_stat_File [OF assms(1)]]
      by (cases n) (auto simp: local_delete_def)
  qed
qed

interpretation lfs: object_store local_put_stream local_put_if_absent local_get_stream
    local_head local_delete fs_key fs_obj fs_wf
proof (unfold_locales, goal_cases)
  case (1 s p bs m s') then show ?case using local_put_cases [of s p bs "Inr m" s'] by simp
next
  case (2 s p bs r s' k) then show ?case using local_put_cases [of s p bs r s'] by simp
next
  case (3 s p bs e s') then show ?case using local_put_cases [of s p bs "Inl e" s'] by auto
next
  case (4 s p bs r s') then show ?case using local_put_cases [of s p bs r s'] by simp
next
  case (5 s p bs m s') then show ?case using local_put_absent_cases [of s p bs "Inr m" s'] by simp
next
  case (6 s p bs r s' k) then show ?case using local_put_absent_cases [of s p bs r s'] by simp
next
  case (7 s p bs r s' b) then show ?case using local_put_absent_cases [of s p bs r s'] by simp
next
  case (8 s p bs r s') then show ?case using local_put_absent_cases [of s p bs r s'] by simp
next
  case (9 s p bs c) then show ?case
    using local_get_ok [of s p None bs c] by (auto simp: range_slice_def)
next
  case (10 s p m) then show ?case using local_head_cases [of s p "Some m"]
    by (auto simp del: map_option_eq_Some split: option.splits simp: map_option_case)
next
  case (11 s p) then show ?case using local_head_cases [of s p None] by auto
next
  case (12 s p s') then show ?case using local_delete_cases [of s p "Inr ()" s'] by simp
next
  case (13 s p r s' k) then show ?case using local_delete_cases [of s p r s'] by simp
next
  case (14 s p r s') then show ?case using local_delete_cases [of s p r s'] by simp
qed

section \<open>Properties of the backend\<close>

lemma local_put_Plain:
  "local_put_stream p bs fs = (Inr m, fs') \<Longrightarrow> \<exists>k. resolve p = Inr (k, Plain)"
  by (auto simp: local_put_stream_def file_create_def res_simps
      dest: open_target_not_root split: sum.splits prod.splits if_splits)

lemma local_get_Plain:
  assumes "fs_wf fs" "resolve p = Inr (k, Plain)" "fs_obj fs k = Some b"
  shows "\<exists>cs. local_get_stream p r fs = Inr cs \<and> read_all cs = Inr (range_slice r b)"
proof -
  have "fs_node fs k = Some (File b)"
    using assms(3) by (auto simp: fs_obj_def split: option.splits node.splits)
  then have "fs_stat fs k Plain = Inr (File b)"
    using fs_walk_iff [OF assms(1), of "[]" k "File b"] by (simp add: fs_stat_def)
  then show ?thesis
    using assms(2) by (simp add: local_get_stream_def io_err_def concat_chunks)
qed

text \<open>
  C17: a path the local backend accepts stays inside its root: it resolves to a list of plain
  names below the root, none of them empty, a dot, a double dot, or holding a separator; a
  path with a double-dot component or a leading separator is refused.
\<close>

theorem resolve_inside_root:
  "(\<forall>k tail. resolve p = Inr (k, tail) \<longrightarrow>
      (\<forall>c \<in> set k. c \<notin> {'''', ''.'', ''..''} \<and> CHR ''/'' \<notin> set c))
   \<and> (''..'' \<in> set (split_on (CHR ''/'') (path_str p)) \<or> take 1 (path_str p) = ''/''
      \<longrightarrow> (\<exists>e. resolve p = Inl e))"
proof (intro conjI allI impI ballI)
  fix k tail c assume r: "resolve p = Inr (k, tail)" and c: "c \<in> set k"
  then have "c \<in> set (path_segments (path_str p))" "c \<noteq> ''''" "c \<noteq> ''.''"
    and nd: "''..'' \<notin> set (path_segments (path_str p))"
    by (auto simp: resolve_def Let_def path_components_def split: if_splits)
  moreover from this have "CHR ''/'' \<notin> set c"
    by (auto simp: path_segments_def dest: split_on_segments)
  ultimately show "c \<notin> {'''', ''.'', ''..''}" "CHR ''/'' \<notin> set c" by auto
next
  assume "''..'' \<in> set (split_on (CHR ''/'') (path_str p)) \<or> take 1 (path_str p) = ''/''"
  then show "\<exists>e. resolve p = Inl e"
    by (cases "path_str p") (auto simp: resolve_def Let_def path_segments_def)
qed

lemma resolve_inside_root_witness:
  "resolve (ObjectPath ''dump/./data//f.json'') = Inr ([''dump'', ''data'', ''f.json''], Plain)
   \<and> CHR ''/'' \<notin> set ''data'' \<and> (\<exists>e. resolve (ObjectPath ''a/../../etc'') = Inl e)"
proof -
  have r: "resolve (ObjectPath ''dump/./data//f.json'') = Inr ([''dump'', ''data'', ''f.json''], Plain)"
    by code_simp
  have d: "''data'' \<in> set [''dump'', ''data'', ''f.json'']" by simp
  have e: "''..'' \<in> set (split_on (CHR ''/'') (path_str (ObjectPath ''a/../../etc'')))" by code_simp
  show ?thesis
    using r resolve_inside_root [THEN conjunct1, rule_format, OF r d]
      resolve_inside_root [THEN conjunct2, rule_format, OF disjI1, OF e] by blast
qed

text \<open>
  After a successful upload to the local backend, the object holds exactly the bytes of
  the input stream and the reported size is their number; every later download of it, whole
  or by range, succeeds and yields exactly the requested slice; no other object changes.
\<close>

theorem local_put_then_get:
  assumes "fs_wf fs" "local_put_stream p bs fs = (Inr m, fs')"
  shows "fs_wf fs' \<and> (\<exists>b. read_all bs = Inr b \<and> om_size m = length b
      \<and> (\<forall>r. \<exists>cs. local_get_stream p r fs' = Inr cs \<and> read_all cs = Inr (range_slice r b)))
    \<and> (\<forall>j. j \<noteq> fs_key p \<longrightarrow> fs_obj fs' j = fs_obj fs j)"
proof -
  obtain b where b: "read_all bs = Inr b" "fs_obj fs' (fs_key p) = Some b" "om_size m = length b"
    using lfs.put_ok [OF assms] by auto
  have wf: "fs_wf fs'" by (rule lfs.put_wf [OF assms])
  obtain k where k: "resolve p = Inr (k, Plain)" using local_put_Plain [OF assms(2)] by auto
  have "fs_obj fs' k = Some b" using b(2) resolve_key [OF k] by simp
  from local_get_Plain [OF wf k this] b wf show ?thesis
    using lfs.put_frame [OF assms] by auto
qed

lemma local_put_then_get_witness:
  "\<exists>fs' b. read_all [Inr ''he'', Inr ''llo''] = Inr b
     \<and> (\<exists>cs. local_get_stream (ObjectPath ''d/x'') (Some (range_bounded 1 3)) fs' = Inr cs
            \<and> read_all cs = Inr (take 2 (drop 1 b)))"
proof -
  have p: "local_put_stream (ObjectPath ''d/x'') [Inr ''he'', Inr ''llo''] [] =
      (Inr \<lparr>om_path = ObjectPath ''d/x'', om_size = 5\<rparr>,
       [([''d''], Dir), ([''d'', ''x''], File ''hello'')])"
    by code_simp
  obtain b where "read_all [Inr ''he'', Inr ''llo''] = Inr b" and
    "\<forall>r. \<exists>cs. local_get_stream (ObjectPath ''d/x'') r
           [([''d''], Dir), ([''d'', ''x''], File ''hello'')] = Inr cs
        \<and> read_all cs = Inr (range_slice r b)"
    using local_put_then_get [OF fs_wf_empty p] by blast
  moreover have "range_slice (Some (range_bounded 1 3)) b = take 2 (drop 1 b)"
    by (simp add: range_slice_def range_bounded_def)
  ultimately show ?thesis by metis
qed

text \<open>
  C18: the create-if-absent upload is exclusive: on an existing object it fails and leaves the
  object's bytes as they were; it succeeds only where there was no object, and then the
  object holds the stream's bytes; whatever it does, no other object changes.
\<close>

theorem local_put_if_absent_exclusive:
  assumes "fs_wf fs" "local_put_if_absent p bs fs = (r, fs')"
  shows "(case fs_obj fs (fs_key p) of
            Some b \<Rightarrow> is_ok r = False \<and> fs_obj fs' (fs_key p) = Some b
          | None \<Rightarrow> is_ok r \<longrightarrow> (\<exists>b. read_all bs = Inr b \<and> fs_obj fs' (fs_key p) = Some b))
    \<and> (\<forall>j. j \<noteq> fs_key p \<longrightarrow> fs_obj fs' j = fs_obj fs j) \<and> fs_wf fs'"
proof (cases "fs_obj fs (fs_key p)")
  case None
  then show ?thesis
    using lfs.put_absent_ok [OF assms(1), of p bs] assms lfs.put_absent_frame [OF assms]
      lfs.put_absent_wf [OF assms] by (auto simp: is_ok_iff)
next
  case (Some b)
  then show ?thesis
    using lfs.put_absent_exclusive [OF assms(1) Some, of bs] lfs.put_absent_keeps [OF assms Some]
      lfs.put_absent_frame [OF assms] lfs.put_absent_wf [OF assms] assms(2) by auto
qed

lemma local_put_if_absent_exclusive_witness:
  "fs_obj (snd (local_put_if_absent (ObjectPath ''l'') (once ''new'') [([''l''], File ''old'')])) [''l'']
     = Some ''old''"
proof -
  have wf: "fs_wf [([''l''], File ''old'')]"
    by (auto simp: fs_wf_def bt_wf_def bt_get_def fs_node_def split: if_splits)
  have k: "fs_key (ObjectPath ''l'') = [''l'']" by code_simp
  have o: "fs_obj [([''l''], File ''old'')] [''l''] = Some ''old''"
    by (simp add: fs_obj_def fs_node_def bt_get_def)
  show ?thesis
    using local_put_if_absent_exclusive [OF wf surjective_pairing, of "ObjectPath ''l''" "once ''new''"]
    by (simp add: k o)
qed

end
