(* ===== verification/Uri.thy ===== *)
theory Uri
  imports Store
begin

text \<open>
  Where artifacts live: storage URIs (\<open>arangodb-storage/src/uri.rs\<close>), the compression that a
  file name announces (\<open>compression.rs\<close>), and the cloud backend
  (\<open>object_store_backend.rs\<close>).  The \<open>object_store\<close> crate underneath that backend is a set of
  parameters: its path normalisation, its buffered writer and its operations.
\<close>

section \<open>Storage URIs\<close>

datatype storage_scheme = SFile | S3 | Gcs | Azure | SeaweedS3

record storage_uri =
  u_scheme :: storage_scheme
  u_bucket :: "string option"
  u_path :: string

definition scheme_of :: "string \<Rightarrow> storage_scheme option" where
  "scheme_of s =
     (if s = ''file'' then Some SFile
      else if s = ''s3'' then Some S3
      else if s = ''gs'' then Some Gcs
      else if s = ''az'' then Some Azure
      else if s = ''seaweed+s3'' then Some SeaweedS3
      else None)"

definition storage_uri_parse :: "string \<Rightarrow> storage_uri res" where
  "storage_uri_parse input =
     (case split_once_str ''://'' input of
        None \<Rightarrow> Inl (Config (''invalid storage URI: '' @ input))
      | Some (scheme_str, rest) \<Rightarrow>
          (case scheme_of scheme_str of
             None \<Rightarrow> Inl (Config (''unsupported storage scheme '' @ [CHR 0x27] @ scheme_str @ [CHR 0x27]
                                  @ '' in URI: '' @ input))
           | Some scheme \<Rightarrow>
               if scheme = SFile
               then (let path = (case str_find (CHR ''/'') rest of
                                   Some idx \<Rightarrow> drop idx rest
                                 | None \<Rightarrow> rest)
                     in if path = [] then Inl (Config (''file URI missing path: '' @ input))
                        else Inr \<lparr>u_scheme = scheme, u_bucket = None, u_path = path\<rparr>)
               else (let (bucket, path) = (case split_once (CHR ''/'') rest of
                                             Some (b, p) \<Rightarrow> (b, p)
                                           | None \<Rightarrow> (rest, []))
                     in if bucket = [] then Inl (Config (''storage URI missing bucket: '' @ input))
                        else Inr \<lparr>u_scheme = scheme, u_bucket = Some bucket, u_path = path\<rparr>)))"

text \<open>The URIs that denote a place: the shape every parsed URI has, and its text.\<close>

fun scheme_text :: "storage_scheme \<Rightarrow> string" where
  "scheme_text SFile = ''file''"
| "scheme_text S3 = ''s3''"
| "scheme_text Gcs = ''gs''"
| "scheme_text Azure = ''az''"
| "scheme_text SeaweedS3 = ''seaweed+s3''"

definition uri_wf :: "storage_uri \<Rightarrow> bool" where
  "uri_wf u \<longleftrightarrow>
     (if u_scheme u = SFile
      then u_bucket u = None \<and> u_path u \<noteq> [] \<and> (hd (u_path u) = CHR ''/'' \<or> CHR ''/'' \<notin> set (u_path u))
      else (case u_bucket u of None \<Rightarrow> False | Some b \<Rightarrow> b \<noteq> [] \<and> CHR ''/'' \<notin> set b))"

definition uri_text :: "storage_uri \<Rightarrow> string" where
  "uri_text u = scheme_text (u_scheme u) @ ''://'' @
     (case u_bucket u of None \<Rightarrow> u_path u | Some b \<Rightarrow> b @ ''/'' @ u_path u)"

lemma scheme_of_text [simp]: "scheme_of (scheme_text s) = Some s"
  by (cases s) (simp_all add: scheme_of_def)

lemma split_scheme: "split_once_str ''://'' (scheme_text s @ CHR '':'' # ''//'' @ rest) = Some (scheme_text s, rest)"
  by (cases s) (simp_all add: split_once_str.simps)

lemma str_find_drop: "str_find c s = Some i \<Longrightarrow> drop i s \<noteq> [] \<and> hd (drop i s) = c"
  by (induction s arbitrary: i) (auto split: if_splits)

lemma str_find_None: "str_find c s = None \<longleftrightarrow> c \<notin> set s"
  by (induction s) auto

lemma str_find_hd: "s \<noteq> [] \<Longrightarrow> hd s = c \<Longrightarrow> str_find c s = Some 0"
  by (cases s) auto

text \<open>
  Parsing accepts exactly the well-formed storage URIs: whatever it accepts names a
  non-empty path for a local URI and a non-empty bucket without separators otherwise, and the
  text of every such URI parses back to it.
\<close>

theorem storage_uri_parse_complete:
  "(\<forall>s u. storage_uri_parse s = Inr u \<longrightarrow> uri_wf u)
   \<and> (\<forall>u. uri_wf u \<longrightarrow> storage_uri_parse (uri_text u) = Inr u)"
proof (intro conjI allI impI)
  fix s u assume p: "storage_uri_parse s = Inr u"
  then obtain sch rest where u: "split_once_str ''://'' s = Some (sch, rest)"
    by (auto simp: storage_uri_parse_def split: option.splits)
  obtain scheme where sc: "scheme_of sch = Some scheme"
    using p u by (auto simp: storage_uri_parse_def split: option.splits)
  show "uri_wf u"
  proof (cases "scheme = SFile")
    case True
    then show ?thesis using p u sc
      by (auto simp: storage_uri_parse_def uri_wf_def Let_def str_find_None
          dest: str_find_drop split: option.splits if_splits)
  next
    case False
    then show ?thesis using p u sc
      by (auto simp: storage_uri_parse_def uri_wf_def Let_def split_once_None split_once_Some
          split: option.splits if_splits)
  qed
next
  fix u assume wf: "uri_wf u"
  show "storage_uri_parse (uri_text u) = Inr u"
  proof (cases "u_scheme u = SFile")
    case True
    then have b: "u_bucket u = None" "u_path u \<noteq> []"
      and h: "hd (u_path u) = CHR ''/'' \<or> CHR ''/'' \<notin> set (u_path u)"
      using wf by (auto simp: uri_wf_def)
    have "(case str_find (CHR ''/'') (u_path u) of Some i \<Rightarrow> drop i (u_path u) | None \<Rightarrow> u_path u) = u_path u"
      using h b(2) str_find_None [of "CHR ''/''" "u_path u"]
      by (auto simp: str_find_hd split: option.splits)
    moreover have "split_once_str ''://'' (uri_text u) = Some (scheme_text SFile, u_path u)"
      using split_scheme [of SFile "u_path u"] True b by (simp add: uri_text_def)
    moreover have "u = \<lparr>u_scheme = SFile, u_bucket = None, u_path = u_path u\<rparr>"
      using b(1) True by (cases u) simp
    ultimately show ?thesis
      using b(2) by (simp add: storage_uri_parse_def scheme_of_def Let_def)
  next
    case False
    then obtain b where b: "u_bucket u = Some b" "b \<noteq> []" "CHR ''/'' \<notin> set b"
      using wf by (auto simp: uri_wf_def split: option.splits)
    have "split_once_str ''://'' (uri_text u) = Some (scheme_text (u_scheme u), b @ CHR ''/'' # u_path u)"
      using split_scheme [of "u_scheme u" "b @ CHR ''/'' # u_path u"] b by (simp add: uri_text_def)
    moreover have "split_once (CHR ''/'') (b @ CHR ''/'' # u_path u) = Some (b, u_path u)"
      using b by (simp add: split_once_Some)
    ultimately show ?thesis
      using b False by (cases u) (simp add: storage_uri_parse_def)
  qed
qed

lemma storage_uri_parse_complete_witness:
  "storage_uri_parse ''s3://backups/2024/db'' =
     Inr \<lparr>u_scheme = S3, u_bucket = Some ''backups'', u_path = ''2024/db''\<rparr>"
proof -
  let ?u = "\<lparr>u_scheme = S3, u_bucket = Some ''backups'', u_path = ''2024/db''\<rparr>"
  have "uri_wf ?u" by (simp add: uri_wf_def)
  then have "storage_uri_parse (uri_text ?u) = Inr ?u"
    using storage_uri_parse_complete by blast
  then show ?thesis by (simp add: uri_text_def)
qed

section \<open>Compression from a file name\<close>

datatype codec = CodecNone | CodecGzip | CodecZstd

definition codec_from_extension :: "string \<Rightarrow> codec option" where
  "codec_from_extension ext =
     (if ext = ''gz'' \<or> ext = ''gzip'' then Some CodecGzip
      else if ext = ''zst'' \<or> ext = ''zstd'' then Some CodecZstd
      else None)"

text \<open>\<open>Path::file_name\<close>, \<open>Path::extension\<close> and \<open>Path::file_stem\<close>.\<close>

definition file_name :: "string \<Rightarrow> string option" where
  "file_name path =
     (case rev (filter (\<lambda>c. c \<noteq> [] \<and> c \<noteq> ''.'') (split_on (CHR ''/'') path)) of
        [] \<Rightarrow> None
      | n # _ \<Rightarrow> if n = ''..'' then None else Some n)"

definition rsplit_dot :: "string \<Rightarrow> (string \<times> string) option" where
  "rsplit_dot name =
     (let ss = split_on (CHR ''.'') name; before = join ''.'' (butlast ss) in
      if length ss = 1 \<or> before = [] then None else Some (before, last ss))"

definition path_extension :: "string \<Rightarrow> string option" where
  "path_extension path = Option.bind (file_name path) (\<lambda>n. map_option snd (rsplit_dot n))"

definition infer_codec :: "string \<Rightarrow> codec" where
  "infer_codec path =
     (case Option.bind (map_option to_ascii_lowercase (path_extension path)) codec_from_extension of
        None \<Rightarrow> CodecNone
      | Some c \<Rightarrow> c)"

fun codec_extension :: "codec \<Rightarrow> string option" where
  "codec_extension CodecNone = None"
| "codec_extension CodecGzip = Some ''gz''"
| "codec_extension CodecZstd = Some ''zst''"

text \<open>The encoders themselves are \<open>async_compression\<close>'s; without one the stream is unchanged.\<close>

definition compress_stream ::
  "(byte_stream \<Rightarrow> byte_stream) \<Rightarrow> (byte_stream \<Rightarrow> byte_stream) \<Rightarrow> codec \<Rightarrow> byte_stream \<Rightarrow> byte_stream"
where
  "compress_stream gz zstd c input =
     (case c of CodecNone \<Rightarrow> input | CodecGzip \<Rightarrow> gz input | CodecZstd \<Rightarrow> zstd input)"

section \<open>The cloud backend\<close>

text \<open>\<open>trim_matches('/')\<close> on the prefix; an empty one is no prefix.\<close>

definition trim_slashes :: "string \<Rightarrow> string" where
  "trim_slashes s = trim_end_ch (CHR ''/'') (trim_start_ch (CHR ''/'') s)"

definition os_prefix_new :: "string option \<Rightarrow> string option" where
  "os_prefix_new p =
     (case map_option trim_slashes p of None \<Rightarrow> None | Some q \<Rightarrow> if q = [] then None else Some q)"

definition os_for_bucket :: "storage_uri \<Rightarrow> string option" where
  "os_for_bucket u = None"

definition os_for_prefix :: "storage_uri \<Rightarrow> string option" where
  "os_for_prefix u = (if u_path u = [] then None else Some (u_path u))"

text \<open>\<open>build\<close>: the client for a bucket is the crate's builder's, one per provider.\<close>

definition os_build ::
  "(string \<Rightarrow> 'c res) \<Rightarrow> (string \<Rightarrow> 'c res) \<Rightarrow> (string \<Rightarrow> 'c res) \<Rightarrow> storage_uri \<Rightarrow> string option \<Rightarrow>
   ('c \<times> string option) res"
where
  "os_build s3 gcs azure u pfx =
     (case u_bucket u of
        None \<Rightarrow> Inl (Config ''object-storage URI is missing a bucket/container'')
      | Some bucket \<Rightarrow>
          (let new = (\<lambda>c. Inr (c, os_prefix_new pfx)) in
           case u_scheme u of
             S3 \<Rightarrow> try_res (s3 bucket) new
           | SeaweedS3 \<Rightarrow> try_res (s3 bucket) new
           | Gcs \<Rightarrow> try_res (gcs bucket) new
           | Azure \<Rightarrow> try_res (azure bucket) new
           | SFile \<Rightarrow> Inl (Config ''file:// is a local path, not an object store'')))"

text \<open>\<open>location\<close>, before the crate's own normalisation \<open>norm\<close> (\<open>OsPath::from\<close>).\<close>

definition os_key :: "string option \<Rightarrow> object_path \<Rightarrow> string" where
  "os_key pfx p =
     (case pfx of
        Some q \<Rightarrow> q @ ''/'' @ trim_start_ch (CHR ''/'') (path_str p)
      | None \<Rightarrow> path_str p)"

definition os_location :: "(string \<Rightarrow> 'k) \<Rightarrow> string option \<Rightarrow> object_path \<Rightarrow> 'k res" where
  "os_location norm pfx p =
     (if list_ex (\<lambda>seg. seg = ''..'' \<or> seg = ''.'') (split_on (CHR ''/'') (path_str p))
      then Inl (Storage (''object path escapes storage prefix: '' @ path_str p))
      else Inr (norm (os_key pfx p)))"

datatype os_error = OsAlreadyExists string | OsNotFound string | OsOther string

fun map_os_error :: "os_error \<Rightarrow> error" where
  "map_os_error (OsAlreadyExists m) = AlreadyExists m"
| "map_os_error (OsNotFound m) = Storage m"
| "map_os_error (OsOther m) = Storage m"

text \<open>\<open>put_stream\<close>: chunks go to the crate's buffered writer, which publishes at shutdown.\<close>

fun os_write_loop ::
  "('w \<Rightarrow> bytes \<Rightarrow> 's \<Rightarrow> (io_kind + 'w) \<times> 's) \<Rightarrow> 'w \<Rightarrow> byte_stream \<Rightarrow> nat \<Rightarrow> 's \<Rightarrow> ('w \<times> nat) res \<times> 's"
where
  "os_write_loop wr w [] n s = (Inr (w, n), s)"
| "os_write_loop wr w (Inl e # cs) n s = (Inl e, s)"
| "os_write_loop wr w (Inr c # cs) n s =
     (case wr w c s of
        (Inl k, s1) \<Rightarrow> (Inl (Io k), s1)
      | (Inr w1, s1) \<Rightarrow> os_write_loop wr w1 cs (n + length c) s1)"

definition os_put_stream ::
  "(string \<Rightarrow> 'k) \<Rightarrow> ('k \<Rightarrow> 'w) \<Rightarrow> ('w \<Rightarrow> bytes \<Rightarrow> 's \<Rightarrow> (io_kind + 'w) \<times> 's)
   \<Rightarrow> ('w \<Rightarrow> 's \<Rightarrow> (io_kind + unit) \<times> 's) \<Rightarrow> string option
   \<Rightarrow> object_path \<Rightarrow> byte_stream \<Rightarrow> 's \<Rightarrow> object_metadata res \<times> 's"
where
  "os_put_stream norm writer wr shut pfx p input s =
     (case os_location norm pfx p of
        Inl e \<Rightarrow> (Inl e, s)
      | Inr k \<Rightarrow>
          (case os_write_loop wr (writer k) input 0 s of
             (Inl e, s1) \<Rightarrow> (Inl e, s1)
           | (Inr (w, n), s1) \<Rightarrow>
               (case shut w s1 of
                  (Inl e, s2) \<Rightarrow> (Inl (Io e), s2)
                | (Inr _, s2) \<Rightarrow> (Inr \<lparr>om_path = p, om_size = n\<rparr>, s2))))"

definition os_put_if_absent ::
  "(string \<Rightarrow> 'k) \<Rightarrow> ('k \<Rightarrow> bytes \<Rightarrow> 's \<Rightarrow> (os_error + unit) \<times> 's) \<Rightarrow> string option
   \<Rightarrow> object_path \<Rightarrow> byte_stream \<Rightarrow> 's \<Rightarrow> object_metadata res \<times> 's"
where
  "os_put_if_absent norm create pfx p input s =
     (case os_location norm pfx p of
        Inl e \<Rightarrow> (Inl e, s)
      | Inr k \<Rightarrow>
          (case read_all input of
             Inl e \<Rightarrow> (Inl e, s)
           | Inr b \<Rightarrow>
               (case create k b s of
                  (Inr _, s1) \<Rightarrow> (Inr \<lparr>om_path = p, om_size = length b\<rparr>, s1)
                | (Inl (OsAlreadyExists _), s1) \<Rightarrow> (Inl (AlreadyExists (path_str p)), s1)
                | (Inl e, s1) \<Rightarrow> (Inl (map_os_error e), s1))))"

definition os_head ::
  "(string \<Rightarrow> 'k) \<Rightarrow> ('k \<Rightarrow> 's \<Rightarrow> os_error + nat) \<Rightarrow> string option \<Rightarrow> object_path \<Rightarrow> 's
   \<Rightarrow> object_metadata option res"
where
  "os_head norm hdop pfx p s =
     try_res (os_location norm pfx p) (\<lambda>k.
       case hdop k s of
         Inr n \<Rightarrow> Inr (Some \<lparr>om_path = p, om_size = n\<rparr>)
       | Inl (OsNotFound _) \<Rightarrow> Inr None
       | Inl e \<Rightarrow> Inl (map_os_error e))"

definition os_get_stream ::
  "(string \<Rightarrow> 'k) \<Rightarrow> ('k \<Rightarrow> byte_range option \<Rightarrow> 's \<Rightarrow> os_error + (os_error + bytes) list)
   \<Rightarrow> string option \<Rightarrow> object_path \<Rightarrow> byte_range option \<Rightarrow> 's \<Rightarrow> byte_stream res"
where
  "os_get_stream norm gt pfx p r s =
     try_res (os_location norm pfx p) (\<lambda>k.
       case gt k r s of
         Inl e \<Rightarrow> Inl (map_os_error e)
       | Inr cs \<Rightarrow> Inr (map (\<lambda>c. case c of Inl e \<Rightarrow> Inl (map_os_error e) | Inr b \<Rightarrow> Inr b) cs))"

definition os_delete ::
  "(string \<Rightarrow> 'k) \<Rightarrow> ('k \<Rightarrow> 's \<Rightarrow> (os_error + unit) \<times> 's) \<Rightarrow> string option \<Rightarrow> object_path \<Rightarrow> 's
   \<Rightarrow> unit res \<times> 's"
where
  "os_delete norm del pfx p s =
     (case os_location norm pfx p of
        Inl e \<Rightarrow> (Inl e, s)
      | Inr k \<Rightarrow>
          (case del k s of
             (Inr u, s1) \<Rightarrow> (Inr (), s1)
           | (Inl (OsNotFound _), s1) \<Rightarrow> (Inr (), s1)
           | (Inl e, s1) \<Rightarrow> (Inl (map_os_error e), s1)))"

text \<open>\<open>list\<close>: the prefix is stripped off every listed key again.\<close>

definition os_strip :: "string option \<Rightarrow> string \<Rightarrow> string" where
  "os_strip pfx key =
     (case pfx of
        Some q \<Rightarrow> (case strip_prefix q key of
                     Some rest \<Rightarrow> trim_start_ch (CHR ''/'') rest
                   | None \<Rightarrow> key)
      | None \<Rightarrow> key)"

definition os_list ::
  "(string \<Rightarrow> 'k) \<Rightarrow> ('k \<Rightarrow> 's \<Rightarrow> (os_error + string \<times> nat) list) \<Rightarrow> string option \<Rightarrow> object_path \<Rightarrow> 's
   \<Rightarrow> object_metadata res list"
where
  "os_list norm ls pfx p s =
     (case os_location norm pfx p of
        Inl e \<Rightarrow> [Inl e]
      | Inr k \<Rightarrow>
          map (\<lambda>r. case r of
                 Inl e \<Rightarrow> Inl (map_os_error e)
               | Inr (key, n) \<Rightarrow> Inr \<lparr>om_path = ObjectPath (os_strip pfx key), om_size = n\<rparr>)
              (ls k s))"

text \<open>
  The cloud backend never addresses an object outside its prefix: an accepted path has no
  dot segment, its key starts with the prefix and a separator, and a key listed back under
  the same prefix is reported as the relative path it was written with.
\<close>

theorem os_location_under_prefix:
  assumes "os_location norm (Some q) p = Inr k"
  shows "\<exists>rest. k = norm (q @ ''/'' @ rest)
      \<and> ''..'' \<notin> set (split_on (CHR ''/'') rest) \<and> ''.'' \<notin> set (split_on (CHR ''/'') rest)
      \<and> os_strip (Some q) (q @ ''/'' @ rest) = rest"
proof -
  let ?rest = "trim_start_ch (CHR ''/'') (path_str p)"
  have sub: "set (split_on (CHR ''/'') (trim_start_ch (CHR ''/'') s)) \<subseteq> set (split_on (CHR ''/'') s)" for s
    by (induction s) (auto simp: trim_start_ch_def)
  have k: "k = norm (q @ ''/'' @ ?rest)"
    and seg: "''..'' \<notin> set (split_on (CHR ''/'') (path_str p))"
      "''.'' \<notin> set (split_on (CHR ''/'') (path_str p))"
    using assms by (auto simp: os_location_def os_key_def list_ex_iff split: if_splits)
  have "os_strip (Some q) (q @ ''/'' @ ?rest) = ?rest"
    by (simp add: os_strip_def trim_start_ch_def)
  then show ?thesis using k seg sub [of "path_str p"] by blast
qed

lemma os_location_under_prefix_witness:
  "os_location id (Some ''dumps'') (ObjectPath ''/nightly/db'') = Inr ''dumps/nightly/db''
   \<and> (\<exists>rest. ''dumps/nightly/db'' = ''dumps'' @ ''/'' @ rest)"
proof -
  have l: "os_location id (Some ''dumps'') (ObjectPath ''/nightly/db'') = Inr ''dumps/nightly/db''"
    by (simp add: os_location_def os_key_def trim_start_ch_def)
  show ?thesis using os_location_under_prefix [OF l] l by auto
qed

end
