(* ===== verification/Resumable.thy ===== *)
theory Resumable
  imports LocalFs Manifest
begin

text \<open>
  Restart-resumable uploads, \<open>arangodb-storage/src/resumable.rs\<close>.  A seekable source is its
  length and a function that reads a window (\<open>PartSource\<close>, the locale \<open>part_source\<close>); the
  store is the interface \<open>object_store\<close>.  The client's facts are proved in a locale that
  joins the two and are read off at the end for the local backend.
\<close>

section \<open>Part sources\<close>

locale part_source =
  fixes src_len :: "'p \<Rightarrow> nat"
    and read_part :: "'p \<Rightarrow> nat \<Rightarrow> nat \<Rightarrow> bytes res"
    and content :: "'p \<Rightarrow> bytes"
    and intact :: "'p \<Rightarrow> bool"
  assumes len: "intact p \<Longrightarrow> src_len p = length (content p)"
    and window: "intact p \<Longrightarrow> read_part p off n = Inr b \<Longrightarrow> b = take n (drop off (content p))"

definition usize_max :: nat where
  "usize_max = 2^64 - 1"

text \<open>\<open>BytesPartSource\<close>: a buffer.\<close>

definition bytes_len :: "bytes \<Rightarrow> nat" where
  "bytes_len data = length data"

definition bytes_read_part :: "bytes \<Rightarrow> nat \<Rightarrow> nat \<Rightarrow> bytes res" where
  "bytes_read_part data off n =
     (let start = min (if off \<le> usize_max then off else usize_max) (length data);
          stop = min (min (start + n) usize_max) (length data)
      in Inr (take (stop - start) (drop start data)))"

text \<open>\<open>FilePartSource\<close>: the length is read when the source is opened, the bytes at each call.\<close>

record file_source =
  fs_bytes :: bytes
  fs_len :: nat

definition file_source_open :: "bytes option \<Rightarrow> file_source res" where
  "file_source_open f =
     (case f of None \<Rightarrow> Inl (Io NotFound) | Some b \<Rightarrow> Inr \<lparr>fs_bytes = b, fs_len = length b\<rparr>)"

definition file_read_part :: "file_source \<Rightarrow> nat \<Rightarrow> nat \<Rightarrow> bytes res" where
  "file_read_part p off n =
     (let want = min (fs_len p - off) n; b = take want (drop off (fs_bytes p)) in
      if length b < want then Inl (Io UnexpectedEof) else Inr b)"

lemma bytes_read_part_window:
  "length p < 2^64 \<Longrightarrow> bytes_read_part p off n = Inr (take n (drop off p))"
  by (auto simp: bytes_read_part_def Let_def usize_max_def min_def intro!: arg_cong2 [where f = take])

interpretation buffer: part_source bytes_len bytes_read_part id "\<lambda>p. length p < 2^64"
  by unfold_locales (auto simp: bytes_len_def bytes_read_part_window)

interpretation disk_file: part_source fs_len file_read_part fs_bytes "\<lambda>p. fs_len p = length (fs_bytes p)"
proof
  fix p :: file_source and off n :: nat and b
  assume "fs_len p = length (fs_bytes p)" "file_read_part p off n = Inr b"
  then show "b = take n (drop off (fs_bytes p))"
    by (auto simp: file_read_part_def Let_def min_def split: if_splits)
qed simp

section \<open>The upload\<close>

record upload_state =
  us_part_size :: nat
  us_total_size :: nat
  us_parts :: nat
  us_complete :: bool

record resumable_upload =
  ru_part_size :: nat
  ru_total_size :: nat
  ru_parts :: nat

definition upload_state_to_value :: "upload_state \<Rightarrow> json" where
  "upload_state_to_value u = json_object
     [(''part_size'', jnat (us_part_size u)), (''total_size'', jnat (us_total_size u)),
      (''parts'', jnat (us_parts u)), (''complete'', JBool (us_complete u))]"

definition upload_state_of_value :: "json \<Rightarrow> upload_state option" where
  "upload_state_of_value j =
     Option.bind (req_field as_u64 j ''part_size'') (\<lambda>p.
     Option.bind (req_field as_u64 j ''total_size'') (\<lambda>t.
     Option.bind (req_field as_u64 j ''parts'') (\<lambda>n.
     Option.bind (req_field as_bool j ''complete'') (\<lambda>c.
       Some \<lparr>us_part_size = p, us_total_size = t, us_parts = n, us_complete = c\<rparr>))))"

definition state_object :: "object_path \<Rightarrow> object_path" where
  "state_object base = path_new (path_str base @ ''.upload/state.json'')"

definition part_object :: "object_path \<Rightarrow> nat \<Rightarrow> object_path" where
  "part_object base index = path_new (path_str base @ ''.upload/'' @ dec_pad 8 index @ ''.part'')"

definition part_length :: "nat \<Rightarrow> nat \<Rightarrow> nat \<Rightarrow> nat" where
  "part_length tot part_size index = min (tot - index * part_size) part_size"

fun upload_parts ::
  "(object_path \<Rightarrow> byte_stream \<Rightarrow> 's \<Rightarrow> object_metadata res \<times> 's) \<Rightarrow>
   (object_path \<Rightarrow> 's \<Rightarrow> object_metadata option res) \<Rightarrow> (nat \<Rightarrow> nat \<Rightarrow> bytes res) \<Rightarrow>
   object_path \<Rightarrow> nat \<Rightarrow> nat \<Rightarrow> nat list \<Rightarrow> 's \<Rightarrow> unit res \<times> 's"
where
  "upload_parts put head read base tot part_size [] s = (Inr (), s)"
| "upload_parts put head read base tot part_size (index # rest) s =
     (let this_len = part_length tot part_size index; path = part_object base index in
      case head path s of
        Inl e \<Rightarrow> (Inl e, s)
      | Inr meta \<Rightarrow>
          if (case meta of Some m \<Rightarrow> om_size m = this_len | None \<Rightarrow> False)
          then upload_parts put head read base tot part_size rest s
          else (case read (index * part_size) this_len of
                  Inl e \<Rightarrow> (Inl e, s)
                | Inr b \<Rightarrow>
                    if length b \<noteq> this_len
                    then (Inl (Storage (''part source returned '' @ dec (length b) @ '' bytes for part ''
                            @ dec index @ '', expected '' @ dec this_len)), s)
                    else (case put path (once b) s of
                            (Inl e, s1) \<Rightarrow> (Inl e, s1)
                          | (Inr _, s1) \<Rightarrow>
                              upload_parts put head read base tot part_size rest s1)))"

definition div_ceil :: "nat \<Rightarrow> nat \<Rightarrow> nat" where
  "div_ceil a b = (a + b - 1) div b"

definition upload_resumable ::
  "(json \<Rightarrow> bytes) \<Rightarrow> (object_path \<Rightarrow> byte_stream \<Rightarrow> 's \<Rightarrow> object_metadata res \<times> 's) \<Rightarrow>
   (object_path \<Rightarrow> 's \<Rightarrow> object_metadata option res) \<Rightarrow> nat \<Rightarrow> (nat \<Rightarrow> nat \<Rightarrow> bytes res) \<Rightarrow>
   object_path \<Rightarrow> nat \<Rightarrow> 's \<Rightarrow> resumable_upload res \<times> 's"
where
  "upload_resumable ser put head tot read base part_size s =
     (let part_size = max part_size 1; parts = div_ceil tot part_size in
      case upload_parts put head read base tot part_size [0..<parts] s of
        (Inl e, s1) \<Rightarrow> (Inl e, s1)
      | (Inr _, s1) \<Rightarrow>
          (let json = ser (upload_state_to_value \<lparr>us_part_size = part_size, us_total_size = tot,
                            us_parts = parts, us_complete = True\<rparr>) in
           case put (state_object base) (once json) s1 of
             (Inl e, s2) \<Rightarrow> (Inl e, s2)
           | (Inr _, s2) \<Rightarrow>
               (Inr \<lparr>ru_part_size = part_size, ru_total_size = tot, ru_parts = parts\<rparr>, s2)))"

definition open_resumable ::
  "(bytes \<Rightarrow> json res) \<Rightarrow> (object_path \<Rightarrow> byte_range option \<Rightarrow> 's \<Rightarrow> byte_stream res) \<Rightarrow>
   (object_path \<Rightarrow> 's \<Rightarrow> object_metadata option res) \<Rightarrow> object_path \<Rightarrow> 's \<Rightarrow> resumable_upload res"
where
  "open_resumable parse get head base s =
     (let marker = state_object base in
      try_res (head marker s) (\<lambda>m.
        if m = None then Inl (Storage (''no resumable upload at '' @ path_str base))
        else try_res (get marker None s) (\<lambda>cs. try_res (read_all cs) (\<lambda>b.
          case from_json parse upload_state_of_value b of
            Inl err \<Rightarrow> Inl (Storage ''invalid resumable upload state'')
          | Inr st \<Rightarrow>
              if us_complete st
              then Inr \<lparr>ru_part_size = us_part_size st, ru_total_size = us_total_size st,
                        ru_parts = us_parts st\<rparr>
              else Inl (Storage (''resumable upload at '' @ path_str base @ '' is incomplete''))))))"

text \<open>\<open>read_resumable\<close>: the parts in order; the stream ends at the first error.\<close>

fun until_error :: "byte_stream \<Rightarrow> byte_stream" where
  "until_error [] = []"
| "until_error (Inl e # cs) = [Inl e]"
| "until_error (Inr c # cs) = Inr c # until_error cs"

fun read_parts ::
  "(object_path \<Rightarrow> byte_range option \<Rightarrow> 's \<Rightarrow> byte_stream res) \<Rightarrow> object_path \<Rightarrow> nat list \<Rightarrow> 's
   \<Rightarrow> byte_stream"
where
  "read_parts get base [] s = []"
| "read_parts get base (i # rest) s =
     (case get (part_object base i) None s of
        Inl e \<Rightarrow> [Inl e]
      | Inr cs \<Rightarrow> until_error (cs @ read_parts get base rest s))"

definition read_resumable ::
  "(object_path \<Rightarrow> byte_range option \<Rightarrow> 's \<Rightarrow> byte_stream res) \<Rightarrow> object_path \<Rightarrow> resumable_upload
   \<Rightarrow> 's \<Rightarrow> byte_stream"
where
  "read_resumable get base u s = read_parts get base [0..<ru_parts u] s"

fun delete_all ::
  "(object_path \<Rightarrow> 's \<Rightarrow> unit res \<times> 's) \<Rightarrow> object_path list \<Rightarrow> 's \<Rightarrow> unit res \<times> 's"
where
  "delete_all del [] s = (Inr (), s)"
| "delete_all del (p # ps) s =
     (case del p s of (Inl e, s1) \<Rightarrow> (Inl e, s1) | (Inr _, s1) \<Rightarrow> delete_all del ps s1)"

definition delete_resumable ::
  "(object_path \<Rightarrow> 's \<Rightarrow> object_metadata res list) \<Rightarrow> (object_path \<Rightarrow> 's \<Rightarrow> unit res \<times> 's)
   \<Rightarrow> object_path \<Rightarrow> 's \<Rightarrow> unit res \<times> 's"
where
  "delete_resumable list_op del base s =
     (case map_res id (list_op (path_new (path_str base @ ''.upload/'')) s) of
        Inl e \<Rightarrow> (Inl e, s)
      | Inr metas \<Rightarrow> delete_all del (map om_path metas) s)"

section \<open>Correctness over any store\<close>

text \<open>Part \<open>i\<close> of the data, and the trust a resuming upload places in the parts it finds.\<close>

definition slice :: "bytes \<Rightarrow> nat \<Rightarrow> nat \<Rightarrow> bytes" where
  "slice data ps i = take ps (drop (i * ps) data)"

definition parts_trusted :: "(nat \<Rightarrow> bytes option) \<Rightarrow> bytes \<Rightarrow> nat \<Rightarrow> bool" where
  "parts_trusted part data ps \<longleftrightarrow>
     (\<forall>i b. part i = Some b \<longrightarrow> length b = length (slice data ps i) \<longrightarrow> b = slice data ps i)"

definition reads_windows :: "(nat \<Rightarrow> nat \<Rightarrow> bytes res) \<Rightarrow> bytes \<Rightarrow> bool" where
  "reads_windows read data \<longleftrightarrow> (\<forall>off n b. read off n = Inr b \<longrightarrow> b = take n (drop off data))"

lemma length_slice: "length (slice data ps i) = part_length (length data) ps i"
  by (simp add: slice_def part_length_def min_def)

lemma take_part_length: "take (part_length (length data) ps i) (drop (i * ps) data) = slice data ps i"
  by (simp add: slice_def part_length_def min_def)

lemma concat_slices: "concat (map (slice data ps) [0..<n]) = take (n * ps) data"
proof (induction n)
  case (Suc n)
  then show ?case by (simp add: slice_def take_add [symmetric] add.commute)
qed simp

lemma div_ceil_covers: "0 < b \<Longrightarrow> a \<le> div_ceil a b * b"
  using div_mult_mod_eq [of "a + b - 1" b] mod_less_divisor [of b "a + b - 1"]
  unfolding div_ceil_def by linarith

lemma concat_all_slices: "0 < ps \<Longrightarrow> concat (map (slice data ps) [0..<div_ceil (length data) ps]) = data"
  using div_ceil_covers [of ps "length data"] by (simp add: concat_slices)

lemma upload_state_roundtrip:
  assumes "us_part_size u < 2^64" "us_total_size u < 2^64" "us_parts u < 2^64"
  shows "upload_state_of_value (upload_state_to_value u) = Some u"
  using assms
  by (simp add: upload_state_of_value_def upload_state_to_value_def req_field_def jget_json_object)

lemma read_all_until_error [simp]: "read_all (until_error cs) = read_all cs"
  by (induction cs rule: until_error.induct) auto

locale part_store = object_store put put_absent get head delete key obj wf
  for put :: "object_path \<Rightarrow> byte_stream \<Rightarrow> 's \<Rightarrow> object_metadata res \<times> 's"
    and put_absent get head delete and key :: "object_path \<Rightarrow> 'k" and obj wf +
  fixes base :: object_path
  assumes part_inj: "key (part_object base i) = key (part_object base j) \<Longrightarrow> i = j"
    and marker_key: "key (state_object base) \<noteq> key (part_object base i)"
begin

lemma put_slice:
  assumes "wf s" and tr: "parts_trusted (\<lambda>i. obj s (key (part_object base i))) data ps"
    and p: "put (part_object base i) (once (slice data ps i)) s = (r, s1)"
  shows "wf s1 \<and> parts_trusted (\<lambda>i. obj s1 (key (part_object base i))) data ps
     \<and> (\<forall>k. k \<noteq> key (part_object base i) \<longrightarrow> obj s1 k = obj s k)
     \<and> (is_ok r \<longrightarrow> obj s1 (key (part_object base i)) = Some (slice data ps i))"
proof -
  let ?k = "key (part_object base i)"
  have fr: "obj s1 k = obj s k" if "k \<noteq> ?k" for k using put_frame [OF assms(1) p that] .
  have ok: "obj s1 ?k = Some (slice data ps i)" if "is_ok r"
    using that p by (auto simp: is_ok_iff dest!: put_ok [OF assms(1)])
  have own: "b = slice data ps i"
    if "obj s1 ?k = Some b" "length b = length (slice data ps i)" for b
  proof (cases r)
    case (Inl e)
    then show ?thesis
      using put_fail [OF assms(1), of "part_object base i" "once (slice data ps i)" e s1] p that tr
      by (auto simp: parts_trusted_def prefix_def)
  next
    case (Inr m)
    then show ?thesis using ok that by simp
  qed
  have "parts_trusted (\<lambda>i. obj s1 (key (part_object base i))) data ps"
    unfolding parts_trusted_def
  proof (intro allI impI)
    fix j b assume b: "obj s1 (key (part_object base j)) = Some b" "length b = length (slice data ps j)"
    show "b = slice data ps j"
    proof (cases "j = i")
      case False
      then have "key (part_object base j) \<noteq> ?k" using part_inj by blast
      then show ?thesis using fr b tr by (auto simp: parts_trusted_def)
    qed (use b own in simp)
  qed
  then show ?thesis using put_wf [OF assms(1) p] fr ok by blast
qed

lemma upload_parts_spec:
  assumes "wf s" "parts_trusted (\<lambda>i. obj s (key (part_object base i))) data ps"
    and "reads_windows read data"
    and "upload_parts put head read base (length data) ps is s = (r, s')"
  shows "wf s' \<and> parts_trusted (\<lambda>i. obj s' (key (part_object base i))) data ps
     \<and> (\<forall>k. (\<forall>i \<in> set is. k \<noteq> key (part_object base i)) \<longrightarrow> obj s' k = obj s k)
     \<and> (\<forall>i. obj s (key (part_object base i)) = Some (slice data ps i)
            \<longrightarrow> obj s' (key (part_object base i)) = Some (slice data ps i))
     \<and> (r = Inr () \<longrightarrow> (\<forall>i \<in> set is. obj s' (key (part_object base i)) = Some (slice data ps i)))"
  using assms
proof (induction "is" arbitrary: s)
  case Nil
  then show ?case by simp
next
  case (Cons i rest)
  let ?len = "part_length (length data) ps i" and ?p = "part_object base i"
  show ?case
  proof (cases "head ?p s")
    case (Inl e)
    then show ?thesis using Cons.prems by (auto simp: Let_def)
  next
    case (Inr meta)
    show ?thesis
    proof (cases "case meta of Some m \<Rightarrow> om_size m = ?len | None \<Rightarrow> False")
      case True
      then obtain m where m: "meta = Some m" "om_size m = ?len" by (auto split: option.splits)
      have "obj s (key ?p) = Some (slice data ps i)"
        using head_some [OF Cons.prems(1), of ?p m] Inr m Cons.prems(2) length_slice [of data ps i]
        by (fastforce simp: parts_trusted_def)
      moreover have "upload_parts put head read base (length data) ps rest s = (r, s')"
        using Cons.prems(4) Inr True by (simp add: Let_def)
      ultimately show ?thesis using Cons.IH [OF Cons.prems(1-3)] by auto
    next
      case False
      have fresh: "obj s (key ?p) \<noteq> Some (slice data ps i)"
        using head_some [OF Cons.prems(1), of ?p "the meta"] head_none [OF Cons.prems(1), of ?p] Inr False
        by (cases meta) (auto simp: length_slice)
      show ?thesis
      proof (cases "\<exists>b. read (i * ps) ?len = Inr b \<and> length b = ?len")
        case False
        then have "s' = s \<and> r \<noteq> Inr ()"
          using Cons.prems(4) Inr \<open>\<not> (case meta of Some m \<Rightarrow> om_size m = ?len | None \<Rightarrow> False)\<close>
          by (auto simp: Let_def split: sum.splits if_splits)
        then show ?thesis using Cons.prems by auto
      next
        case True
        then obtain b where b: "read (i * ps) ?len = Inr b" "length b = ?len" by blast
        then have "b = slice data ps i"
          using Cons.prems(3) take_part_length [of data ps i] by (auto simp: reads_windows_def)
        then obtain r1 s1 where p: "put ?p (once (slice data ps i)) s = (r1, s1)" by fastforce
        note step = put_slice [OF Cons.prems(1,2) p]
        have keep: "obj s1 (key (part_object base j)) = Some (slice data ps j)"
          if "obj s (key (part_object base j)) = Some (slice data ps j)" for j
          using that step fresh part_inj by (cases "j = i") metis+
        show ?thesis
        proof (cases r1)
          case (Inl e)
          then have "r = Inl e" "s' = s1"
            using Cons.prems(4) Inr False b \<open>b = slice data ps i\<close> p by (auto simp: Let_def)
          then show ?thesis using step keep by auto
        next
          case (Inr m1)
          then have u: "upload_parts put head read base (length data) ps rest s1 = (r, s')"
            using Cons.prems(4) \<open>head ?p s = Inr meta\<close> False b \<open>b = slice data ps i\<close> p
            by (auto simp: Let_def)
          have "obj s1 (key ?p) = Some (slice data ps i)" using step Inr by simp
          then show ?thesis
            using Cons.IH [OF _ _ Cons.prems(3) u] step keep by auto
        qed
      qed
    qed
  qed
qed

end

context part_store
begin

lemma upload_spec:
  assumes "wf s" "parts_trusted (\<lambda>i. obj s (key (part_object base i))) data (max ps 1)"
    and "reads_windows read data"
    and "upload_resumable ser put head (length data) read base ps s = (r, s')"
  defines "n \<equiv> div_ceil (length data) (max ps 1)"
  shows "wf s' \<and> parts_trusted (\<lambda>i. obj s' (key (part_object base i))) data (max ps 1)
     \<and> (\<forall>i. obj s (key (part_object base i)) = Some (slice data (max ps 1) i)
            \<longrightarrow> obj s' (key (part_object base i)) = Some (slice data (max ps 1) i))
     \<and> (\<forall>u. r = Inr u \<longrightarrow>
          u = \<lparr>ru_part_size = max ps 1, ru_total_size = length data, ru_parts = n\<rparr>
          \<and> (\<forall>i < n. obj s' (key (part_object base i)) = Some (slice data (max ps 1) i))
          \<and> obj s' (key (state_object base)) =
              Some (ser (upload_state_to_value \<lparr>us_part_size = max ps 1, us_total_size = length data,
                           us_parts = n, us_complete = True\<rparr>)))
     \<and> (obj s' (key (state_object base)) \<noteq> obj s (key (state_object base)) \<longrightarrow>
          (\<forall>i < n. obj s' (key (part_object base i)) = Some (slice data (max ps 1) i)))"
proof -
  let ?p = "\<lambda>i. key (part_object base i)" and ?m = "key (state_object base)"
  obtain r1 s1 where up: "upload_parts put head read base (length data) (max ps 1) [0..<n] s = (r1, s1)"
    by fastforce
  note parts = upload_parts_spec [OF assms(1-3) up]
  have mk: "obj s1 ?m = obj s ?m" using parts marker_key by auto
  show ?thesis
  proof (cases r1)
    case (Inl e)
    then have "r = Inl e" "s' = s1"
      using assms(4) up by (auto simp: upload_resumable_def Let_def n_def)
    then show ?thesis using parts mk by simp
  next
    case (Inr uu)
    let ?st = "\<lparr>us_part_size = max ps 1, us_total_size = length data, us_parts = n, us_complete = True\<rparr>"
    let ?json = "ser (upload_state_to_value ?st)"
    obtain r2 where pm: "put (state_object base) (once ?json) s1 = (r2, s')"
      using assms(4) up Inr by (auto simp: upload_resumable_def Let_def n_def split: prod.splits sum.splits)
    have same: "obj s' (?p i) = obj s1 (?p i)" for i
      using put_frame [OF _ pm] parts marker_key by metis
    have done_parts: "\<forall>i < n. obj s' (?p i) = Some (slice data (max ps 1) i)"
      using parts Inr same by simp
    moreover have "wf s'" using put_wf [OF _ pm] parts by blast
    moreover have "obj s' ?m = Some ?json" if "is_ok r2"
      using that parts pm by (auto simp: is_ok_iff dest!: put_ok [rotated])
    moreover have "r = Inr u \<Longrightarrow> is_ok r2 \<and> u = \<lparr>ru_part_size = max ps 1,
        ru_total_size = length data, ru_parts = n\<rparr>" for u
      using assms(4) up Inr pm by (cases r2) (auto simp: upload_resumable_def Let_def n_def)
    moreover have "parts_trusted (\<lambda>i. obj s' (?p i)) data (max ps 1)"
      using parts same by simp
    ultimately show ?thesis using parts same by auto
  qed
qed

end

section \<open>On the local file system\<close>

lemma split_on_append_gen: "split_on c (a @ c # b) = split_on c a @ split_on c b"
  by (induction a) (auto split: list.splits)

lemma resolve_child:
  assumes "a \<noteq> []" "name \<notin> {[], ''.'', ''..''}" "CHR ''/'' \<notin> set name"
  shows "resolve (ObjectPath (a @ CHR ''/'' # name)) =
     (if hd a = CHR ''/'' \<or> ''..'' \<in> set (path_segments a)
      then Inl (Storage (''object path escapes storage root: '' @ a @ CHR ''/'' # name))
      else Inr (path_components a @ [name], Plain))"
proof -
  have segs: "path_segments (a @ CHR ''/'' # name) = path_segments a @ [name]"
    using assms(3) by (simp add: path_segments_def split_on_append_gen split_on_free)
  obtain c cs where a: "a = c # cs" using assms(1) by (cases a) auto
  have "path_tail_of (a @ CHR ''/'' # name) = Plain"
    using assms(2) by (simp add: path_tail_of_def segs)
  moreover have "path_components (a @ CHR ''/'' # name) = path_components a @ [name]"
    using assms(2) by (simp add: path_components_def segs)
  ultimately show ?thesis
    using assms(2) segs by (auto simp: resolve_def Let_def a)
qed

definition upload_dir :: "object_path \<Rightarrow> string" where
  "upload_dir base = path_str base @ ''.upload''"

lemma part_name_ok: "dec_pad 8 i @ ''.part'' \<notin> {[], ''.'', ''..''}" "CHR ''/'' \<notin> set (dec_pad 8 i @ ''.part'')"
  by (auto simp: is_digit_def dest: dec_pad_digits simp: append_eq_Cons_conv)

lemma resolve_part:
  "resolve (part_object base i) =
     (if hd (upload_dir base) = CHR ''/'' \<or> ''..'' \<in> set (path_segments (upload_dir base))
      then Inl (Storage (''object path escapes storage root: '' @ path_str (part_object base i)))
      else Inr (path_components (upload_dir base) @ [dec_pad 8 i @ ''.part''], Plain))"
  using resolve_child [of "upload_dir base" "dec_pad 8 i @ ''.part''"] part_name_ok [of i]
  by (simp add: part_object_def path_new_def upload_dir_def)

lemma resolve_marker:
  "resolve (state_object base) =
     (if hd (upload_dir base) = CHR ''/'' \<or> ''..'' \<in> set (path_segments (upload_dir base))
      then Inl (Storage (''object path escapes storage root: '' @ path_str (state_object base)))
      else Inr (path_components (upload_dir base) @ [''state.json''], Plain))"
  using resolve_child [of "upload_dir base" "''state.json''"]
  by (simp add: state_object_def path_new_def upload_dir_def)

lemma fs_key_child:
  assumes "name \<notin> {[], ''.''}" "CHR ''/'' \<notin> set name"
  shows "fs_key (ObjectPath (a @ CHR ''/'' # name)) = path_components a @ [name]"
  using assms by (simp add: fs_key_def path_components_def path_segments_def split_on_append_gen split_on_free)

lemma fs_key_part: "fs_key (part_object base i) = path_components (upload_dir base) @ [dec_pad 8 i @ ''.part'']"
  using fs_key_child [of "dec_pad 8 i @ ''.part''" "upload_dir base"] part_name_ok [of i]
  by (simp add: part_object_def path_new_def upload_dir_def)

lemma fs_key_marker: "fs_key (state_object base) = path_components (upload_dir base) @ [''state.json'']"
  using fs_key_child [of "''state.json''" "upload_dir base"]
  by (simp add: state_object_def path_new_def upload_dir_def)

interpretation lfs_parts: part_store local_put_stream local_put_if_absent local_get_stream
    local_head local_delete fs_key fs_obj fs_wf base for base
proof unfold_locales
  fix i j assume "fs_key (part_object base i) = fs_key (part_object base j)"
  then show "i = j" by (simp add: fs_key_part)
next
  fix i
  have "''state.json'' \<noteq> dec_pad 8 i @ ''.part''"
  proof
    assume "''state.json'' = dec_pad 8 i @ ''.part''"
    then have "last ''state.json'' = last (dec_pad 8 i @ ''.part'')" by simp
    then show False by simp
  qed
  then show "fs_key (state_object base) \<noteq> fs_key (part_object base i)"
    by (simp add: fs_key_part fs_key_marker)
qed

lemma local_head_Plain:
  assumes "fs_wf fs" "resolve p = Inr (k, Plain)" "fs_obj fs k = Some b"
  shows "local_head p fs = Inr (Some \<lparr>om_path = p, om_size = length b\<rparr>)"
proof -
  have "fs_node fs k = Some (File b)"
    using assms(3) by (auto simp: fs_obj_def split: option.splits node.splits)
  then have "fs_stat fs k Plain = Inr (File b)"
    using fs_walk_iff [OF assms(1), of "[]" k "File b"] by (simp add: fs_stat_def)
  then show ?thesis using assms(2) by (simp add: local_head_def)
qed

lemma read_parts_local:
  assumes "fs_wf s" "\<forall>i \<in> set is. fs_obj s (fs_key (part_object base i)) = Some (f i)"
    and "\<forall>i. \<exists>k. resolve (part_object base i) = Inr (k, Plain)"
  shows "read_all (read_parts local_get_stream base is s) = Inr (concat (map f is))"
  using assms(2)
proof (induction "is")
  case (Cons i rest)
  obtain k where k: "resolve (part_object base i) = Inr (k, Plain)" using assms(3) by blast
  then have "fs_obj s k = Some (f i)" using Cons.prems resolve_key [OF k] by simp
  then obtain cs where "local_get_stream (part_object base i) None s = Inr cs" "read_all cs = Inr (f i)"
    using local_get_Plain [OF assms(1) k, of "f i" None] by (auto simp: range_slice_def)
  then show ?case using Cons by (simp add: read_all_append)
qed simp

lemma div_ceil_le: "0 < b \<Longrightarrow> div_ceil a b \<le> a"
proof -
  assume b: "0 < b"
  then have "a + b - 1 < Suc a * b" by (cases b) auto
  then have "div_ceil a b < Suc a"
    unfolding div_ceil_def using b by (simp add: less_mult_imp_div_less)
  then show ?thesis by simp
qed

lemma uploaded_safe:
  assumes "upload_resumable ser local_put_stream local_head n read base ps s = (Inr u, s')"
  shows "\<not> (hd (upload_dir base) = CHR ''/'' \<or> ''..'' \<in> set (path_segments (upload_dir base)))"
proof -
  have "\<exists>m j s0. local_put_stream (state_object base) (once j) s0 = (Inr m, s')"
    using assms by (auto simp: upload_resumable_def Let_def split: prod.splits sum.splits)
  then have "\<exists>k. resolve (state_object base) = Inr (k, Plain)"
    using local_put_Plain by blast
  then show ?thesis by (auto simp: resolve_marker split: if_splits)
qed

text \<open>A completed upload reads back as the data.\<close>

lemma uploaded_reads:
  assumes "fs_wf s" "reads_windows read data"
    and "parts_trusted (\<lambda>i. fs_obj s (fs_key (part_object base i))) data (max ps 1)"
    and "upload_resumable ser local_put_stream local_head (length data) read base ps s = (Inr u, s')"
  shows "read_all (read_resumable local_get_stream base u s') = Inr data"
proof -
  let ?n = "div_ceil (length data) (max ps 1)"
  note spec = lfs_parts.upload_spec [OF assms(1,3,2,4)]
  then have u: "ru_parts u = ?n" and wf: "fs_wf s'"
    and parts: "\<forall>i < ?n. fs_obj s' (fs_key (part_object base i)) = Some (slice data (max ps 1) i)"
    by auto
  show ?thesis
    using read_parts_local [OF wf, of "[0..<?n]" base "slice data (max ps 1)"] parts uploaded_safe [OF assms(4)]
    by (simp add: read_resumable_def u resolve_part concat_all_slices)
qed

section \<open>A process that dies\<close>

text \<open>
  The local backend in a process that is killed: the put with the given number is the last
  one, and either does not begin or stops after some bytes of the stream are in the file.  The
  code returns at the first put that fails, so the state of a run over this backend is the one
  the dead process leaves behind.
\<close>

fun dying_put :: "nat \<Rightarrow> nat option \<Rightarrow> object_path \<Rightarrow> byte_stream \<Rightarrow> nat \<times> fs \<Rightarrow> object_metadata res \<times> nat \<times> fs" where
  "dying_put last_put torn p bs (n, s) =
     (if n < last_put then (case local_put_stream p bs s of (r, s1) \<Rightarrow> (r, Suc n, s1))
      else (Inl (Io OtherIo), n,
        case torn of
          None \<Rightarrow> s
        | Some m \<Rightarrow> snd (local_put_stream p [Inr (take m (ok_bytes bs)), Inl (Io OtherIo)] s)))"

definition dying_head :: "object_path \<Rightarrow> nat \<times> fs \<Rightarrow> object_metadata option res" where
  "dying_head p st = local_head p (snd st)"

lemma dying_put_cases:
  assumes "fs_wf (snd st)" "dying_put last_put torn p bs st = (r, st')"
  shows "fs_wf (snd st') \<and> (\<forall>j. j \<noteq> fs_key p \<longrightarrow> fs_obj (snd st') j = fs_obj (snd st) j)
    \<and> (\<forall>m. r = Inr m \<longrightarrow> (\<exists>b. read_all bs = Inr b \<and> fs_obj (snd st') (fs_key p) = Some b
           \<and> m = \<lparr>om_path = p, om_size = length b\<rparr>))
    \<and> (\<forall>e. r = Inl e \<longrightarrow> fs_obj (snd st') (fs_key p) = fs_obj (snd st) (fs_key p)
           \<or> (\<exists>b. fs_obj (snd st') (fs_key p) = Some b \<and> Sublist.prefix b (ok_bytes bs)))"
proof -
  obtain n s where st: "st = (n, s)" by (cases st)
  have wf: "fs_wf s" using assms(1) st by simp
  show ?thesis
  proof (cases "n < last_put")
    case True
    obtain s1 where "local_put_stream p bs s = (r, s1)" "st' = (Suc n, s1)"
      using assms(2) st True by (auto split: prod.splits)
    then show ?thesis using local_put_cases [OF wf, of p bs r s1] st by auto
  next
    case False
    show ?thesis
    proof (cases torn)
      case None
      then show ?thesis using assms(2) st False wf by auto
    next
      case (Some m)
      let ?torn = "[Inr (take m (ok_bytes bs)), Inl (Io OtherIo)] :: byte_stream"
      obtain r1 s1 where p: "local_put_stream p ?torn s = (r1, s1)" by fastforce
      then have st': "r = Inl (Io OtherIo)" "st' = (n, s1)" using assms(2) st False Some by auto
      have "\<exists>e. r1 = Inl e" using local_put_cases [OF wf p] by (cases r1) auto
      moreover have "Sublist.prefix (ok_bytes ?torn) (ok_bytes bs)" by (simp add: take_is_prefix)
      ultimately show ?thesis using local_put_cases [OF wf p] st st' by auto
    qed
  qed
qed

interpretation dying: part_store "dying_put last_put torn" "\<lambda>p bs st. (Inl (Io OtherIo), st)"
    "\<lambda>p rng st. local_get_stream p rng (snd st)" dying_head "\<lambda>p st. (Inl (Io OtherIo), st)" fs_key
    "\<lambda>st. fs_obj (snd st)" "\<lambda>st. fs_wf (snd st)" base
  for last_put torn base
proof (unfold_locales, goal_cases)
  case (1 st p bs m st') then show ?case using dying_put_cases [of st last_put torn p bs "Inr m" st'] by auto
next
  case (2 st p bs r st' k) then show ?case using dying_put_cases [of st last_put torn p bs r st'] by simp
next
  case (3 st p bs e st') then show ?case using dying_put_cases [of st last_put torn p bs "Inl e" st'] by auto
next
  case (4 st p bs r st') then show ?case using dying_put_cases [of st last_put torn p bs r st'] by simp
next
  case (9 st p bs c) then show ?case using lfs.get_ok [of "snd st" p bs c] by simp
next
  case (10 st p m) then show ?case using lfs.head_some [of "snd st" p m] by (simp add: dying_head_def)
next
  case (11 st p) then show ?case using lfs.head_none [of "snd st" p] by (simp add: dying_head_def)
qed (auto intro: lfs_parts.part_inj lfs_parts.marker_key simp: lfs_parts.marker_key dest: lfs_parts.part_inj)

text \<open>
  The states a sequence of attempts at one upload can leave: runs that end with any result,
  and runs that are killed.
\<close>

inductive attempted :: "(json \<Rightarrow> bytes) \<Rightarrow> bytes \<Rightarrow> object_path \<Rightarrow> nat \<Rightarrow> fs \<Rightarrow> fs \<Rightarrow> bool"
  for ser data base ps s
where
  nothing: "attempted ser data base ps s s"
| ended: "attempted ser data base ps s s1 \<Longrightarrow> reads_windows read data
    \<Longrightarrow> upload_resumable ser local_put_stream local_head (length data) read base ps s1 = (r, s2)
    \<Longrightarrow> attempted ser data base ps s s2"
| killed: "attempted ser data base ps s s1 \<Longrightarrow> reads_windows read data
    \<Longrightarrow> upload_resumable ser (dying_put last_put torn) dying_head (length data) read base ps (0, s1) = (r, n, s2)
    \<Longrightarrow> attempted ser data base ps s s2"

definition parts_kept :: "bytes \<Rightarrow> object_path \<Rightarrow> nat \<Rightarrow> fs \<Rightarrow> fs \<Rightarrow> bool" where
  "parts_kept data base ps s s' \<longleftrightarrow>
     fs_wf s' \<and> parts_trusted (\<lambda>i. fs_obj s' (fs_key (part_object base i))) data ps
     \<and> (\<forall>i. fs_obj s (fs_key (part_object base i)) = Some (slice data ps i)
          \<longrightarrow> fs_obj s' (fs_key (part_object base i)) = Some (slice data ps i))
     \<and> (fs_obj s' (fs_key (state_object base)) \<noteq> fs_obj s (fs_key (state_object base))
          \<longrightarrow> (\<forall>i < div_ceil (length data) ps. fs_obj s' (fs_key (part_object base i)) = Some (slice data ps i)))"

lemma parts_kept_trans: "parts_kept data base ps s s1 \<Longrightarrow> parts_kept data base ps s1 s2 \<Longrightarrow> parts_kept data base ps s s2"
  unfolding parts_kept_def by (intro conjI; metis)

lemma attempted_keeps:
  assumes "attempted ser data base ps s s'" "fs_wf s"
    and "parts_trusted (\<lambda>i. fs_obj s (fs_key (part_object base i))) data (max ps 1)"
  shows "parts_kept data base (max ps 1) s s'"
  using assms(1)
proof (induction rule: attempted.induct)
  case nothing
  then show ?case using assms(2,3) by (simp add: parts_kept_def)
next
  case (ended s1 read r s2)
  then have "fs_wf s1" "parts_trusted (\<lambda>i. fs_obj s1 (fs_key (part_object base i))) data (max ps 1)"
    by (auto simp: parts_kept_def)
  from lfs_parts.upload_spec [OF this ended.hyps(2,3)] have "parts_kept data base (max ps 1) s1 s2"
    unfolding parts_kept_def by blast
  then show ?case using ended.IH parts_kept_trans by blast
next
  case (killed s1 read last_put torn r n s2)
  then have "fs_wf (snd (0 :: nat, s1))"
    "parts_trusted (\<lambda>i. fs_obj (snd (0 :: nat, s1)) (fs_key (part_object base i))) data (max ps 1)"
    by (auto simp: parts_kept_def)
  from dying.upload_spec [OF this killed.hyps(2,3)] have "parts_kept data base (max ps 1) s1 s2"
    unfolding parts_kept_def by simp
  then show ?case using killed.IH parts_kept_trans by blast
qed

section \<open>Properties\<close>

text \<open>
  C9: a completed resumable upload is the data: when the upload reports success, opening it
  yields the same description of it and reading it back yields every byte of the source in
  order, whatever part size was chosen and whichever parts an earlier, interrupted run had
  left behind, provided a left-over part of the right length has the right bytes.
\<close>

theorem upload_then_read:
  assumes "fs_wf s" "reads_windows read data" "length data < 2^64" "ps < 2^64"
    and "parts_trusted (\<lambda>i. fs_obj s (fs_key (part_object base i))) data (max ps 1)"
    and "upload_resumable ser local_put_stream local_head (length data) read base ps s = (Inr u, s')"
    and "let st = upload_state_to_value \<lparr>us_part_size = max ps 1, us_total_size = length data,
           us_parts = div_ceil (length data) (max ps 1), us_complete = True\<rparr>
         in parse (ser st) = Inr st"
  shows "read_all (read_resumable local_get_stream base u s') = Inr data
    \<and> open_resumable parse local_get_stream local_head base s' = Inr u"
proof -
  let ?n = "div_ceil (length data) (max ps 1)"
  let ?st = "\<lparr>us_part_size = max ps 1, us_total_size = length data, us_parts = ?n, us_complete = True\<rparr>"
  note spec = lfs_parts.upload_spec [OF assms(1,5,2,6)]
  then have u: "u = \<lparr>ru_part_size = max ps 1, ru_total_size = length data, ru_parts = ?n\<rparr>"
    and parts: "\<forall>i < ?n. fs_obj s' (fs_key (part_object base i)) = Some (slice data (max ps 1) i)"
    and marker: "fs_obj s' (fs_key (state_object base)) = Some (ser (upload_state_to_value ?st))"
    and wf: "fs_wf s'"
    by blast+
  have safe: "\<not> (hd (upload_dir base) = CHR ''/'' \<or> ''..'' \<in> set (path_segments (upload_dir base)))"
    by (rule uploaded_safe [OF assms(6)])
  have "read_all (read_resumable local_get_stream base u s') = Inr data"
    by (rule uploaded_reads [OF assms(1,2,5,6)])
  moreover have "open_resumable parse local_get_stream local_head base s' = Inr u"
  proof -
    define k where "k = path_components (upload_dir base) @ [''state.json'']"
    have k: "resolve (state_object base) = Inr (k, Plain)" using safe by (simp add: resolve_marker k_def)
    have o: "fs_obj s' k = Some (ser (upload_state_to_value ?st))"
      using marker by (simp add: fs_key_marker k_def)
    obtain cs where cs: "local_get_stream (state_object base) None s' = Inr cs"
      "read_all cs = Inr (ser (upload_state_to_value ?st))"
      using local_get_Plain [OF wf k o, of None] by (auto simp: range_slice_def)
    have "?n \<le> length data" by (rule div_ceil_le) simp
    then have "?n < 2^64" using assms(3) by (rule le_less_trans)
    moreover have "max ps 1 < (2^64 :: nat)" using assms(4) by simp
    ultimately have "upload_state_of_value (upload_state_to_value ?st) = Some ?st"
      using assms(3) by (intro upload_state_roundtrip) simp_all
    then show ?thesis
      using local_head_Plain [OF wf k o] cs assms(7) [unfolded Let_def]
      by (simp add: open_resumable_def from_json_def u)
  qed
  ultimately show ?thesis by blast
qed

definition sample_base :: object_path where
  "sample_base = ObjectPath ''backup.tar''"

lemma upload_then_read_witness:
  "\<exists>u s'. read_all (read_resumable local_get_stream sample_base u s') = Inr ''hello''"
proof -
  let ?v = "upload_state_to_value \<lparr>us_part_size = max 2 1, us_total_size = length ''hello'',
     us_parts = div_ceil (length ''hello'') (max 2 1), us_complete = True\<rparr>"
  let ?up = "upload_resumable (\<lambda>_. ''marker'') local_put_stream local_head (length ''hello'')
     (bytes_read_part ''hello'') sample_base 2 []"
  have b: "bytes_read_part ''hello'' = (\<lambda>off n. Inr (take n (drop off ''hello'')))"
    by (intro ext) (simp add: bytes_read_part_window)
  have ok: "is_ok (fst ?up)" unfolding b by code_simp
  then obtain u s' where up: "?up = (Inr u, s')" by (cases ?up) (auto simp: is_ok_iff)
  have rd: "reads_windows (bytes_read_part ''hello'') ''hello''"
    by (simp add: reads_windows_def bytes_read_part_window)
  have tr: "parts_trusted (\<lambda>i. fs_obj [] (fs_key (part_object sample_base i))) ''hello'' (max 2 1)"
    by (simp add: parts_trusted_def fs_obj_def fs_node_def)
  have "read_all (read_resumable local_get_stream sample_base u s') = Inr ''hello''"
    by (rule upload_then_read [OF fs_wf_empty rd _ _ tr up, of "\<lambda>_. Inr ?v", THEN conjunct1])
       (simp_all only: Let_def, simp_all)
  then show ?thesis by blast
qed

text \<open>
  C10: an upload can be interrupted again and again: take any sequence of attempts to upload the
  same data with the same part size, each of which ends with success or an error or is killed at
  any put, before it or after any number of its bytes.  If the parts found at the start were
  trustworthy, that is, each one of the right length has the right bytes, as when there are none,
  then the parts left are trustworthy too, every part that was complete is still complete, the
  completion marker is as it was unless every part of the data is in place, and the next attempt
  that succeeds makes an object that reads back as the data.
\<close>

theorem upload_resumable_interrupted:
  assumes "fs_wf s" "parts_trusted (\<lambda>i. fs_obj s (fs_key (part_object base i))) data (max ps 1)"
    and "attempted ser data base ps s s'"
  shows "parts_trusted (\<lambda>i. fs_obj s' (fs_key (part_object base i))) data (max ps 1)
    \<and> (\<forall>i. fs_obj s (fs_key (part_object base i)) = Some (slice data (max ps 1) i)
         \<longrightarrow> fs_obj s' (fs_key (part_object base i)) = Some (slice data (max ps 1) i))
    \<and> (fs_obj s' (fs_key (state_object base)) \<noteq> fs_obj s (fs_key (state_object base))
         \<longrightarrow> (\<forall>i < div_ceil (length data) (max ps 1).
                fs_obj s' (fs_key (part_object base i)) = Some (slice data (max ps 1) i)))
    \<and> (\<forall>read u s''. reads_windows read data
         \<and> upload_resumable ser local_put_stream local_head (length data) read base ps s' = (Inr u, s'')
         \<longrightarrow> read_all (read_resumable local_get_stream base u s'') = Inr data)"
proof -
  have k: "parts_kept data base (max ps 1) s s'" by (rule attempted_keeps [OF assms(3,1,2)])
  then have "fs_wf s'" "parts_trusted (\<lambda>i. fs_obj s' (fs_key (part_object base i))) data (max ps 1)"
    by (auto simp: parts_kept_def)
  then have "read_all (read_resumable local_get_stream base u s'') = Inr data"
    if "reads_windows read data"
      "upload_resumable ser local_put_stream local_head (length data) read base ps s' = (Inr u, s'')" for read u s''
    using uploaded_reads that by blast
  with k show ?thesis unfolding parts_kept_def by blast
qed

text \<open>
  A run that is killed one byte into its second part, one whose source fails at the third part,
  and one that completes.
\<close>

definition failing_read :: "nat \<Rightarrow> nat \<Rightarrow> bytes res" where
  "failing_read off n = (if off < 4 then Inr (take n (drop off ''hello'')) else Inl (Io OtherIo))"

definition whole_read :: "nat \<Rightarrow> nat \<Rightarrow> bytes res" where
  "whole_read off n = Inr (take n (drop off ''hello''))"

definition after_kill :: fs where
  "after_kill = snd (snd (upload_resumable (\<lambda>_. ''marker'') (dying_put 1 (Some 1)) dying_head 5 whole_read sample_base 2 (0, [])))"

definition after_failure :: fs where
  "after_failure = snd (upload_resumable (\<lambda>_. ''marker'') local_put_stream local_head 5 failing_read sample_base 2 after_kill)"

lemma upload_resumable_interrupted_witness:
  "\<exists>u s'. fs_obj after_kill (fs_key (part_object sample_base 1)) = Some ''l''
     \<and> fs_obj after_failure (fs_key (part_object sample_base 1)) = Some ''ll''
     \<and> fs_obj after_failure (fs_key (part_object sample_base 2)) = None
     \<and> upload_resumable (\<lambda>_. ''marker'') local_put_stream local_head 5 whole_read sample_base 2 after_failure = (Inr u, s')
     \<and> read_all (read_resumable local_get_stream sample_base u s') = Inr ''hello''"
proof -
  let ?run = "upload_resumable (\<lambda>_. ''marker'') (dying_put 1 (Some 1)) dying_head 5 whole_read sample_base 2 (0, [])"
  let ?second = "upload_resumable (\<lambda>_. ''marker'') local_put_stream local_head 5 failing_read sample_base 2 after_kill"
  let ?third = "upload_resumable (\<lambda>_. ''marker'') local_put_stream local_head 5 whole_read sample_base 2 after_failure"
  have rd: "reads_windows failing_read ''hello''" "reads_windows whole_read ''hello''"
    by (simp_all add: reads_windows_def failing_read_def whole_read_def)
  have run: "?run = (fst ?run, fst (snd ?run), after_kill)" by (simp add: after_kill_def)
  have second: "?second = (fst ?second, after_failure)" by (simp add: after_failure_def)
  have len: "length ''hello'' = 5" by simp
  note killed = attempted.killed [OF attempted.nothing rd(2) run [folded len]]
  note ended = attempted.ended [OF killed rd(1) second [folded len]]
  have trusted: "parts_trusted (\<lambda>i. fs_obj [] (fs_key (part_object sample_base i))) ''hello'' (max 2 1)"
    by (simp add: parts_trusted_def fs_obj_def fs_node_def)
  have "is_ok (fst ?third)" by code_simp
  then obtain u s' where third: "?third = (Inr u, s')" by (cases ?third) (auto simp: is_ok_iff)
  have "read_all (read_resumable local_get_stream sample_base u s') = Inr ''hello''"
    using upload_resumable_interrupted [OF fs_wf_empty trusted ended] rd(2) third [folded len] by blast
  moreover have "fs_obj after_kill (fs_key (part_object sample_base 1)) = Some ''l''" by code_simp
  moreover have "fs_obj after_failure (fs_key (part_object sample_base 1)) = Some ''ll''" by code_simp
  moreover have "fs_obj after_failure (fs_key (part_object sample_base 2)) = None" by code_simp
  ultimately show ?thesis using third by blast
qed

end
