(* ===== verification/Batch.thy ===== *)
theory Batch
  imports Errors
begin

text \<open>
  Byte- and document-bounded batching, \<open>arangodb-import/src/batch.rs\<close>.  The document stream is
  a list of results, the batch stream another; serialisation of one document is the parameter
  \<open>ser\<close>.  The specification is a grouping of the serialised lines that is greedy: no group
  could have taken the first line of the next one.
\<close>

record batch =
  b_body :: bytes
  b_documents :: nat
  b_index :: nat

record batch_config =
  max_bytes :: nat
  max_docs :: nat

definition batch_config_default :: batch_config where
  "batch_config_default = \<lparr>max_bytes = 4 * 1024 * 1024, max_docs = 100000\<rparr>"

record concurrency_config =
  cc_workers :: nat
  cc_max_in_flight_bytes :: nat
  cc_adaptive :: bool

text \<open>The available parallelism is the machine's.\<close>

definition default_workers :: "nat option \<Rightarrow> nat" where
  "default_workers available = max 2 (case available of None \<Rightarrow> 2 | Some n \<Rightarrow> n)"

definition concurrency_default :: "nat option \<Rightarrow> concurrency_config" where
  "concurrency_default available = \<lparr>cc_workers = default_workers available,
     cc_max_in_flight_bytes = 256 * 1024 * 1024, cc_adaptive = True\<rparr>"

definition byte_len :: "batch \<Rightarrow> nat" where
  "byte_len b = length (b_body b)"

fun into_batches_from ::
  "('d \<Rightarrow> bytes res) \<Rightarrow> batch_config \<Rightarrow> bytes \<Rightarrow> nat \<Rightarrow> nat \<Rightarrow> 'd res list \<Rightarrow> batch res list"
where
  "into_batches_from ser cfg body count index [] =
     (if count > 0
      then [Inr \<lparr>b_body = body, b_documents = count, b_index = index + 1\<rparr>] else [])"
| "into_batches_from ser cfg body count index (Inl e # docs) = [Inl e]"
| "into_batches_from ser cfg body count index (Inr d # docs) =
     (case ser d of
        Inl e \<Rightarrow> [Inl e]
      | Inr line \<Rightarrow>
          (let flush = (count > 0 \<and> length body + length line + 1 > max_bytes cfg);
               out = (if flush
                      then [Inr \<lparr>b_body = body, b_documents = count, b_index = index + 1\<rparr>] else []);
               index1 = (if flush then index + 1 else index);
               body1 = (if flush then [] else body) @ line @ [newline];
               count1 = (if flush then 0 else count) + 1
           in out @
              (if count1 \<ge> max_docs cfg
               then Inr \<lparr>b_body = body1, b_documents = count1, b_index = index1 + 1\<rparr>
                    # into_batches_from ser cfg [] 0 (index1 + 1) docs
               else into_batches_from ser cfg body1 count1 index1 docs)))"

definition into_batches ::
  "('d \<Rightarrow> bytes res) \<Rightarrow> batch_config \<Rightarrow> 'd res list \<Rightarrow> batch res list"
where
  "into_batches ser cfg docs = into_batches_from ser cfg [] 0 0 docs"

section \<open>The specification\<close>

definition jsonl :: "bytes list \<Rightarrow> bytes" where
  "jsonl lines = concat (map (\<lambda>l. l @ [newline]) lines)"

definition batch_of :: "nat \<times> bytes list \<Rightarrow> batch" where
  "batch_of = (\<lambda>(i, g). \<lparr>b_body = jsonl g, b_documents = length g, b_index = i\<rparr>)"

definition group_fits :: "batch_config \<Rightarrow> bytes list \<Rightarrow> bool" where
  "group_fits cfg g \<longleftrightarrow> g \<noteq> [] \<and> length g \<le> max 1 (max_docs cfg)
     \<and> (length g = 1 \<or> length (jsonl g) \<le> max_bytes cfg)"

fun greedy :: "batch_config \<Rightarrow> bytes list list \<Rightarrow> bool" where
  "greedy cfg [] = True"
| "greedy cfg [g] = group_fits cfg g"
| "greedy cfg (g # h # gs) \<longleftrightarrow> group_fits cfg g
     \<and> (max_docs cfg \<le> length g \<or> max_bytes cfg < length (jsonl (g @ [hd h])))
     \<and> greedy cfg (h # gs)"

text \<open>The grouping that the loop computes, on lines alone.\<close>

fun group_from :: "batch_config \<Rightarrow> bytes list \<Rightarrow> bytes list \<Rightarrow> bytes list list" where
  "group_from cfg g [] = (if g = [] then [] else [g])"
| "group_from cfg g (l # ls) =
     (if g \<noteq> [] \<and> max_bytes cfg < length (jsonl (g @ [l]))
      then g # (if max_docs cfg \<le> 1 then [l] # group_from cfg [] ls else group_from cfg [l] ls)
      else if max_docs cfg \<le> length g + 1 then (g @ [l]) # group_from cfg [] ls
      else group_from cfg (g @ [l]) ls)"

lemma jsonl_simps [simp]: "jsonl [] = []" "jsonl (xs @ ys) = jsonl xs @ jsonl ys"
  "jsonl [l] = l @ [newline]"
  by (simp_all add: jsonl_def)

lemma concat_group_from: "concat (group_from cfg g ls) = g @ ls"
  by (induction cfg g ls rule: group_from.induct) (auto simp: Let_def)

lemma group_from_nonempty: "[] \<notin> set (group_from cfg g ls)"
  by (induction cfg g ls rule: group_from.induct) auto

lemma hd_group_from:
  assumes "g @ ls \<noteq> []"
  shows "group_from cfg g ls \<noteq> [] \<and> hd (hd (group_from cfg g ls)) = hd (g @ ls)"
proof -
  obtain h hs where h: "group_from cfg g ls = h # hs"
    using assms concat_group_from [of cfg g ls] by (cases "group_from cfg g ls") auto
  then have "h \<noteq> []" using group_from_nonempty [of cfg g ls] by auto
  then have "hd (h @ concat hs) = hd h" by simp
  then show ?thesis using h concat_group_from [of cfg g ls] by simp
qed

lemma greedy_Cons:
  "group_fits cfg g \<Longrightarrow> greedy cfg gs \<Longrightarrow>
   (gs \<noteq> [] \<longrightarrow> max_docs cfg \<le> length g \<or> max_bytes cfg < length (jsonl (g @ [hd (hd gs)])))
   \<Longrightarrow> greedy cfg (g # gs)"
  by (cases gs) auto

lemma greedy_group_from:
  assumes "g \<noteq> [] \<longrightarrow> group_fits cfg g \<and> length g < max_docs cfg"
  shows "greedy cfg (group_from cfg g ls)"
  using assms
proof (induction cfg g ls rule: group_from.induct)
  case (1 cfg g)
  then show ?case by simp
next
  case (2 cfg g l ls)
  consider (flush) "g \<noteq> [] \<and> max_bytes cfg < length (jsonl (g @ [l]))"
    | (full) "\<not> (g \<noteq> [] \<and> max_bytes cfg < length (jsonl (g @ [l])))" "max_docs cfg \<le> length g + 1"
    | (more) "\<not> (g \<noteq> [] \<and> max_bytes cfg < length (jsonl (g @ [l])))" "\<not> max_docs cfg \<le> length g + 1"
    by blast
  then show ?case
  proof cases
    case flush
    show ?thesis
    proof (cases "max_docs cfg \<le> 1")
      case True
      then have "greedy cfg (group_from cfg [] ls)" using 2(1) flush by simp
      then have "greedy cfg ([l] # group_from cfg [] ls)"
        using True by (intro greedy_Cons) (auto simp: group_fits_def)
      then show ?thesis using flush True 2(5) by (auto intro!: greedy_Cons)
    next
      case False
      then have "greedy cfg (group_from cfg [l] ls)" using 2(2) flush by (auto simp: group_fits_def)
      moreover have "hd (hd (group_from cfg [l] ls)) = l" using hd_group_from [of "[l]" ls cfg] by simp
      ultimately show ?thesis using flush False 2(5) by (auto intro!: greedy_Cons)
    qed
  next
    case full
    then have "greedy cfg (group_from cfg [] ls)" using 2(3) by simp
    moreover have "group_fits cfg (g @ [l])"
      using full 2(5) by (auto simp: group_fits_def)
    ultimately show ?thesis using full by (auto intro!: greedy_Cons)
  next
    case more
    have "group_fits cfg (g @ [l])" using more 2(5) by (auto simp: group_fits_def)
    then show ?thesis using more 2(4) by auto
  qed
qed

lemma into_batches_from_groups:
  assumes "map_res ser docs = Inr lines"
  shows "into_batches_from ser cfg (jsonl g) (length g) i (map Inr docs)
    = map (Inr \<circ> batch_of) (enumerate (Suc i) (group_from cfg g lines))"
  using assms
proof (induction docs arbitrary: lines g i)
  case Nil
  then show ?case by (simp add: batch_of_def)
next
  case (Cons d docs)
  then obtain l ls where l: "ser d = Inr l" "map_res ser docs = Inr ls" "lines = l # ls"
    by (auto simp: res_simps)
  note IH = Cons.IH [OF l(2)]
  have IH0: "into_batches_from ser cfg [] 0 j (map Inr docs)
      = map (Inr \<circ> batch_of) (enumerate (Suc j) (group_from cfg [] ls))" for j
    using IH [of "[]" j] by simp
  have IH1: "into_batches_from ser cfg (jsonl h @ l @ [newline]) (Suc (length h)) j (map Inr docs)
      = map (Inr \<circ> batch_of) (enumerate (Suc j) (group_from cfg (h @ [l]) ls))" for h j
    using IH [of "h @ [l]" j] by simp
  show ?case
    using IH1 [of "[]"] by (auto simp: l Let_def batch_of_def IH0 IH1)
qed

text \<open>
  C7: batching loses, invents and reorders nothing and is as coarse as the limits allow: the
  batches are the newline-terminated document lines cut into consecutive groups, numbered
  from one, where a group exceeds the byte limit only if it is a single document, never
  exceeds the document limit, and ends only when it is full or the next line would not fit.
\<close>

theorem into_batches_greedy:
  assumes "map_res ser docs = Inr lines"
  shows "\<exists>groups. concat groups = lines \<and> greedy cfg groups
    \<and> into_batches ser cfg (map Inr docs) = map (Inr \<circ> batch_of) (enumerate 1 groups)"
proof (intro exI conjI)
  show "concat (group_from cfg [] lines) = lines" by (simp add: concat_group_from)
  show "greedy cfg (group_from cfg [] lines)" by (rule greedy_group_from) simp
  show "into_batches ser cfg (map Inr docs)
      = map (Inr \<circ> batch_of) (enumerate 1 (group_from cfg [] lines))"
    using into_batches_from_groups [OF assms, of cfg "[]" 0] by (simp add: into_batches_def)
qed

lemma into_batches_greedy_witness:
  "\<exists>groups. concat groups = [''{1}'', ''{22}'', ''{3}'']
     \<and> into_batches Inr \<lparr>max_bytes = 9, max_docs = 5\<rparr> (map Inr [''{1}'', ''{22}'', ''{3}''])
       = map (Inr \<circ> batch_of) (enumerate 1 groups)
     \<and> map (map_sum id b_documents)
         (into_batches Inr \<lparr>max_bytes = 9, max_docs = 5\<rparr> (map Inr [''{1}'', ''{22}'', ''{3}'']))
       = [Inr 2, Inr 1]"
proof -
  let ?cfg = "\<lparr>max_bytes = 9, max_docs = 5\<rparr>"
  have m: "map_res Inr [''{1}'', ''{22}'', ''{3}''] = Inr [''{1}'', ''{22}'', ''{3}'']" by simp
  obtain groups where "concat groups = [''{1}'', ''{22}'', ''{3}'']"
    "into_batches Inr ?cfg (map Inr [''{1}'', ''{22}'', ''{3}'']) = map (Inr \<circ> batch_of) (enumerate 1 groups)"
    using into_batches_greedy [OF m, of ?cfg] by (elim exE conjE)
  moreover have "map (map_sum id b_documents)
         (into_batches Inr \<lparr>max_bytes = 9, max_docs = 5\<rparr> (map Inr [''{1}'', ''{22}'', ''{3}'']))
       = [Inr 2, Inr 1]"
    by code_simp
  ultimately show ?thesis by (intro exI conjI)
qed

section \<open>A failed input\<close>

lemma into_batches_from_prefix:
  assumes "map_res ser docs = Inr lines"
  shows "\<exists>bs body' count' index'. \<forall>rest.
    into_batches_from ser cfg body count index (map Inr docs @ rest)
      = map Inr bs @ into_batches_from ser cfg body' count' index' rest"
  using assms
proof (induction docs arbitrary: lines body count index)
  case Nil
  then show ?case by (intro exI [of _ "[]"] exI [of _ body] exI [of _ count] exI [of _ index]) simp
next
  case (Cons d docs)
  then obtain l ls where l: "ser d = Inr l" "map_res ser docs = Inr ls" by (auto simp: res_simps)
  define flush where "flush = (count > 0 \<and> length body + length l + 1 > max_bytes cfg)"
  define out where "out = (if flush
    then [\<lparr>b_body = body, b_documents = count, b_index = index + 1\<rparr>] else [])"
  define i1 where "i1 = (if flush then index + 1 else index)"
  define b1 where "b1 = (if flush then [] else body) @ l @ [newline]"
  define c1 where "c1 = (if flush then 0 else count) + 1"
  define full where "full = (max_docs cfg \<le> c1)"
  obtain bs body' count' index' where rec: "\<forall>rest. into_batches_from ser cfg (if full then [] else b1)
      (if full then 0 else c1) (if full then i1 + 1 else i1) (map Inr docs @ rest)
      = map Inr bs @ into_batches_from ser cfg body' count' index' rest"
    using Cons.IH [OF l(2)] by blast
  have step: "into_batches_from ser cfg body count index (map Inr (d # docs) @ rest)
      = map Inr (out @ (if full then [\<lparr>b_body = b1, b_documents = c1, b_index = i1 + 1\<rparr>] else []))
        @ into_batches_from ser cfg (if full then [] else b1) (if full then 0 else c1)
            (if full then i1 + 1 else i1) (map Inr docs @ rest)" for rest
    using l(1) by (simp add: Let_def flush_def out_def i1_def b1_def c1_def full_def)
  show ?case
    using rec unfolding step
    by (intro exI [of _ "out @ (if full then [\<lparr>b_body = b1, b_documents = c1, b_index = i1 + 1\<rparr>] else []) @ bs"]
        exI [of _ body'] exI [of _ count'] exI [of _ index']) simp
qed

text \<open>
  Batch numbers mean the same thing in every run over the same input: when the input
  fails after some documents, the batches cut before the failure are, number for number, the
  first batches of every run whose input continues past that point, so a checkpoint taken in
  the failed run can be trusted by the next one.
\<close>

theorem into_batches_stable_prefix:
  assumes "map_res ser docs = Inr lines"
  shows "\<exists>bs. into_batches ser cfg (map Inr docs @ Inl e # rest) = map Inr bs @ [Inl e]
    \<and> (\<forall>more. Sublist.prefix (map Inr bs) (into_batches ser cfg (map Inr docs @ more)))"
proof -
  obtain bs body' count' index' where "\<forall>rest. into_batches_from ser cfg [] 0 0 (map Inr docs @ rest)
      = map Inr bs @ into_batches_from ser cfg body' count' index' rest"
    using into_batches_from_prefix [OF assms] by blast
  then show ?thesis by (intro exI [of _ bs]) (simp add: into_batches_def)
qed

lemma into_batches_stable_prefix_witness:
  "\<exists>bs. into_batches Inr \<lparr>max_bytes = 8, max_docs = 1\<rparr> (map Inr [''{1}''] @ Inl (Io OtherIo) # [])
       = map Inr bs @ [Inl (Io OtherIo)]
     \<and> Sublist.prefix (map Inr bs)
         (into_batches Inr \<lparr>max_bytes = 8, max_docs = 1\<rparr> (map Inr [''{1}''] @ [Inr ''{2}'']))"
proof -
  have m: "map_res Inr [''{1}''] = Inr [''{1}'']" by simp
  show ?thesis
    using into_batches_stable_prefix [OF m, of "\<lparr>max_bytes = 8, max_docs = 1\<rparr>" "Io OtherIo" "[]"] by blast
qed

end
