(* ===== verification/Checkpoint.thy ===== *)
theory Checkpoint
  imports Store Manifest
begin

text \<open>
  The checkpoint task of the import pipeline (\<open>arangodb-import/src/sender.rs\<close>): completed
  batches arrive in any order; the committed mark advances only over a contiguous prefix.
  A \<open>BatchDone\<close> message is paired with the clock reading at which it is handled, so that the
  throttling of writes is part of the model; what the task persists is the list of the states
  it writes, in order.
\<close>

record batch_done =
  d_index :: nat
  d_documents :: nat
  d_bytes :: nat

record tracker =
  t_next :: nat
  t_state :: import_checkpoint
  t_pending :: "(nat, nat \<times> nat) btree"
  t_dirty :: bool
  t_last :: nat

definition tracker_new :: "import_checkpoint \<Rightarrow> nat \<Rightarrow> tracker" where
  "tracker_new resume now =
     \<lparr>t_next = committed_batches resume + 1, t_state = resume, t_pending = [],
      t_dirty = False, t_last = now\<rparr>"

text \<open>The inner loop: move the mark over every batch that is next in line.\<close>

lemma bt_remove_shorter: "bt_get m k = Some v \<Longrightarrow> length (bt_remove k m) < length m"
  by (induction m) (auto simp: bt_get_def split: if_splits)

function advance :: "tracker \<Rightarrow> tracker" where
  "advance t =
     (case bt_get (t_pending t) (t_next t) of
        None \<Rightarrow> t
      | Some (documents, b) \<Rightarrow>
          advance (t\<lparr>t_pending := bt_remove (t_next t) (t_pending t),
             t_state := (t_state t)\<lparr>committed_batches := t_next t,
                documents_committed := documents_committed (t_state t) + documents,
                bytes_committed := bytes_committed (t_state t) + b\<rparr>,
             t_next := t_next t + 1,
             t_dirty := True\<rparr>))"
  by pat_completeness auto
termination
  by (relation "measure (\<lambda>t. length (t_pending t))") (auto simp: bt_remove_shorter)

declare advance.simps [simp del]

definition receive :: "batch_done \<Rightarrow> tracker \<Rightarrow> tracker" where
  "receive b t = advance (t\<lparr>t_pending := bt_insert (d_index b) (d_documents b, d_bytes b) (t_pending t)\<rparr>)"

text \<open>One turn of the task: the new tracker and the states it persists.\<close>

definition checkpoint_step ::
  "nat \<Rightarrow> batch_done \<times> nat \<Rightarrow> tracker \<Rightarrow> tracker \<times> import_checkpoint list"
where
  "checkpoint_step interval bn t =
     (let (b, now) = bn; t1 = receive b t in
      if t_dirty t1 \<and> interval \<le> now - t_last t1
      then (t1\<lparr>t_dirty := False, t_last := now\<rparr>, [t_state t1])
      else (t1, []))"

fun checkpoint_run ::
  "nat \<Rightarrow> (batch_done \<times> nat) list \<Rightarrow> tracker \<Rightarrow> tracker \<times> import_checkpoint list"
where
  "checkpoint_run interval [] t = (t, [])"
| "checkpoint_run interval (b # bs) t =
     (let (t1, ws) = checkpoint_step interval b t; (t2, vs) = checkpoint_run interval bs t1
      in (t2, ws @ vs))"

definition checkpoint_task ::
  "nat \<Rightarrow> nat \<Rightarrow> (batch_done \<times> nat) list \<Rightarrow> import_checkpoint \<Rightarrow> import_checkpoint list"
where
  "checkpoint_task interval now events resume =
     (let (t, ws) = checkpoint_run interval events (tracker_new resume now)
      in ws @ (if t_dirty t then [t_state t] else []))"

text \<open>Writing a state is best effort: an error is logged and dropped.\<close>

definition persist_checkpoint ::
  "(json \<Rightarrow> bytes res) \<Rightarrow> (object_path \<Rightarrow> byte_stream \<Rightarrow> 's \<Rightarrow> object_metadata res \<times> 's)
   \<Rightarrow> object_path \<Rightarrow> import_checkpoint \<Rightarrow> 's \<Rightarrow> 's"
where
  "persist_checkpoint ser put path st s =
     (case ser (import_checkpoint_to_value st) of
        Inl e \<Rightarrow> s
      | Inr json \<Rightarrow> snd (put path (once json) s))"

definition load_checkpoint ::
  "(bytes \<Rightarrow> json res) \<Rightarrow> (object_path \<Rightarrow> byte_range option \<Rightarrow> 's \<Rightarrow> byte_stream res)
   \<Rightarrow> (object_path \<Rightarrow> 's \<Rightarrow> object_metadata option res) \<Rightarrow> object_path \<Rightarrow> 's
   \<Rightarrow> import_checkpoint option res"
where
  "load_checkpoint parse get head path s =
     try_res (store_exists head path s) (\<lambda>present.
       if \<not> present then Inr None
       else try_res (get path None s) (\<lambda>cs. try_res (read_all cs) (\<lambda>b.
              try_res (from_json parse import_checkpoint_of_value b) (\<lambda>c. Inr (Some c)))))"

section \<open>The contiguous prefix\<close>

definition contiguous :: "nat \<Rightarrow> nat set \<Rightarrow> nat \<Rightarrow> bool" where
  "contiguous r got c \<longleftrightarrow> r \<le> c \<and> {r<..c} \<subseteq> got \<and> Suc c \<notin> got"

lemma contiguous_unique: "contiguous r d c \<Longrightarrow> contiguous r d c' \<Longrightarrow> c = c'"
proof -
  have "\<not> c < c'" if "contiguous r d c" "contiguous r d c'" for c c'
  proof
    assume "c < c'"
    then have "Suc c \<in> {r<..c'}" using that(1) by (simp add: contiguous_def)
    then show False using that by (auto simp: contiguous_def)
  qed
  then show "contiguous r d c \<Longrightarrow> contiguous r d c' \<Longrightarrow> c = c'"
    by (meson linorder_less_linear)
qed

text \<open>
  The invariant: \<open>f\<close> gives each batch's documents and bytes, \<open>got\<close> the batches received.
\<close>

definition checkpoint_at :: "(nat \<Rightarrow> nat \<times> nat) \<Rightarrow> import_checkpoint \<Rightarrow> nat \<Rightarrow> import_checkpoint" where
  "checkpoint_at f resume c = resume\<lparr>committed_batches := c,
     documents_committed := documents_committed resume + (\<Sum>i \<in> {committed_batches resume<..c}. fst (f i)),
     bytes_committed := bytes_committed resume + (\<Sum>i \<in> {committed_batches resume<..c}. snd (f i))\<rparr>"

definition tracker_inv ::
  "(nat \<Rightarrow> nat \<times> nat) \<Rightarrow> import_checkpoint \<Rightarrow> nat set \<Rightarrow> tracker \<Rightarrow> bool"
where
  "tracker_inv f resume got t \<longleftrightarrow>
     bt_wf (t_pending t) \<and> committed_batches resume < t_next t
     \<and> {committed_batches resume<..<t_next t} \<subseteq> got
     \<and> (\<forall>i \<ge> t_next t. bt_get (t_pending t) i = (if i \<in> got then Some (f i) else None))
     \<and> t_state t = checkpoint_at f resume (t_next t - 1)"

lemma segment_below: "a < n \<Longrightarrow> {a<..<n} = {a<..n - 1}" for n :: nat
  by auto

lemma checkpoint_at_step:
  assumes "committed_batches resume < n"
  shows "(checkpoint_at f resume (n - 1))\<lparr>committed_batches := n,
      documents_committed := documents_committed (checkpoint_at f resume (n - 1)) + fst (f n),
      bytes_committed := bytes_committed (checkpoint_at f resume (n - 1)) + snd (f n)\<rparr>
    = checkpoint_at f resume n"
proof -
  have "{committed_batches resume<..n} = insert n {committed_batches resume<..n - 1}"
    using assms by auto
  then show ?thesis using assms by (simp add: checkpoint_at_def)
qed

lemma advance_inv:
  assumes "tracker_inv f resume got t"
  shows "tracker_inv f resume got (advance t) \<and> t_next (advance t) \<notin> got
    \<and> (t_dirty t \<longrightarrow> t_dirty (advance t))
    \<and> (t_state (advance t) \<noteq> t_state t \<longrightarrow> t_dirty (advance t))
    \<and> t_last (advance t) = t_last t"
  using assms
proof (induction t rule: advance.induct)
  case (1 t)
  show ?case
  proof (cases "bt_get (t_pending t) (t_next t)")
    case None
    moreover have "t_next t \<notin> got"
      using None 1(2) by (auto simp: tracker_inv_def split: if_splits)
    ultimately show ?thesis using 1(2) by (simp add: advance.simps [of t])
  next
    case (Some v)
    define u where "u = t\<lparr>t_pending := bt_remove (t_next t) (t_pending t),
             t_state := (t_state t)\<lparr>committed_batches := t_next t,
                documents_committed := documents_committed (t_state t) + fst v,
                bytes_committed := bytes_committed (t_state t) + snd v\<rparr>,
             t_next := t_next t + 1, t_dirty := True\<rparr>"
    have adv: "advance t = advance u"
      using Some by (cases v) (simp add: advance.simps [of t] u_def)
    have v: "v = f (t_next t)" "t_next t \<in> got"
      using Some 1(2) by (auto simp: tracker_inv_def split: if_splits)
    have "tracker_inv f resume got u"
      unfolding tracker_inv_def
    proof (intro conjI)
      show "bt_wf (t_pending u)" using 1(2) by (simp add: u_def tracker_inv_def)
      show "committed_batches resume < t_next u" using 1(2) by (simp add: u_def tracker_inv_def)
      show "{committed_batches resume<..<t_next u} \<subseteq> got"
        using 1(2) v(2) by (auto simp: u_def tracker_inv_def less_Suc_eq)
      show "\<forall>i \<ge> t_next u. bt_get (t_pending u) i = (if i \<in> got then Some (f i) else None)"
        using 1(2) by (auto simp: u_def tracker_inv_def)
      show "t_state u = checkpoint_at f resume (t_next u - 1)"
        using 1(2) checkpoint_at_step [of resume "t_next t" f] v(1)
        by (simp add: u_def tracker_inv_def)
    qed
    then have "tracker_inv f resume got (advance u) \<and> t_next (advance u) \<notin> got
      \<and> (t_dirty u \<longrightarrow> t_dirty (advance u)) \<and> t_last (advance u) = t_last u"
      using 1(1) [OF Some prod.collapse] by (simp add: u_def)
    then show ?thesis by (auto simp: adv u_def)
  qed
qed

lemma receive_inv:
  assumes "tracker_inv f resume got t" "(d_documents b, d_bytes b) = f (d_index b)"
  shows "tracker_inv f resume (insert (d_index b) got) (receive b t)
    \<and> t_next (receive b t) \<notin> insert (d_index b) got
    \<and> (t_dirty t \<longrightarrow> t_dirty (receive b t))
    \<and> (t_state (receive b t) \<noteq> t_state t \<longrightarrow> t_dirty (receive b t))
    \<and> t_last (receive b t) = t_last t"
proof -
  let ?u = "t\<lparr>t_pending := bt_insert (d_index b) (d_documents b, d_bytes b) (t_pending t)\<rparr>"
  have "tracker_inv f resume (insert (d_index b) got) ?u"
    using assms by (auto simp: tracker_inv_def)
  from advance_inv [OF this] show ?thesis by (simp add: receive_def)
qed

lemma tracker_inv_written:
  "tracker_inv f resume got (t\<lparr>t_dirty := b, t_last := n\<rparr>) = tracker_inv f resume got t"
  by (simp add: tracker_inv_def)

lemma tracker_contiguous:
  assumes "tracker_inv f resume got t" "t_next t \<notin> got"
  shows "contiguous (committed_batches resume) got (t_next t - 1)"
proof -
  have "committed_batches resume < t_next t" "{committed_batches resume<..<t_next t} \<subseteq> got"
    using assms(1) by (simp_all add: tracker_inv_def)
  moreover from this(1) have "committed_batches resume \<le> t_next t - 1" "Suc (t_next t - 1) = t_next t"
    by linarith+
  ultimately show ?thesis
    using assms(2) segment_below [of "committed_batches resume" "t_next t"] by (simp add: contiguous_def)
qed

text \<open>What is on disk: the last state written, or the one the run resumed from.\<close>

lemma checkpoint_run_inv:
  assumes "tracker_inv f resume got t" "t_next t \<notin> got"
    and "\<forall>e \<in> set events. (d_documents (fst e), d_bytes (fst e)) = f (d_index (fst e))"
    and "checkpoint_run interval events t = (t', ws)"
    and "\<not> t_dirty t \<longrightarrow> t_state t = disk"
  shows "tracker_inv f resume (got \<union> d_index ` fst ` set events) t'
    \<and> t_next t' \<notin> got \<union> d_index ` fst ` set events
    \<and> (\<not> t_dirty t' \<longrightarrow> t_state t' = last (disk # ws))
    \<and> (\<forall>w \<in> set ws. \<exists>n \<le> length events. \<exists>c.
         contiguous (committed_batches resume) (got \<union> d_index ` fst ` set (take n events)) c
         \<and> w = checkpoint_at f resume c)"
  using assms
proof (induction events arbitrary: t got ws disk)
  case Nil
  then show ?case by auto
next
  case (Cons e events)
  obtain b now where e: "e = (b, now)" by (cases e)
  obtain t1 ws1 where s1: "checkpoint_step interval e t = (t1, ws1)" by fastforce
  obtain ws2 where s2: "checkpoint_run interval events t1 = (t', ws2)" and ws: "ws = ws1 @ ws2"
    using Cons.prems(4) s1 by (auto split: prod.splits)
  let ?r = "receive b t" and ?got = "insert (d_index b) got"
  have r: "tracker_inv f resume ?got ?r" "t_next ?r \<notin> ?got"
    "t_dirty t \<longrightarrow> t_dirty ?r" "t_state ?r \<noteq> t_state t \<longrightarrow> t_dirty ?r"
    using receive_inv [OF Cons.prems(1), of b] Cons.prems(3) e by auto
  have cont: "contiguous (committed_batches resume) ?got (t_next ?r - 1)"
    using r(1,2) by (rule tracker_contiguous)
  have st: "t_state ?r = checkpoint_at f resume (t_next ?r - 1)"
    using r(1) by (simp add: tracker_inv_def)
  have t1: "tracker_inv f resume ?got t1" "t_next t1 \<notin> ?got"
    "\<not> t_dirty t1 \<longrightarrow> t_state t1 = last (disk # ws1)"
    "ws1 = [] \<or> ws1 = [t_state ?r]"
    using s1 r Cons.prems(5) e
    by (auto simp: checkpoint_step_def tracker_inv_written Let_def split: if_splits)
  have IH: "tracker_inv f resume (?got \<union> d_index ` fst ` set events) t'
    \<and> t_next t' \<notin> ?got \<union> d_index ` fst ` set events
    \<and> (\<not> t_dirty t' \<longrightarrow> t_state t' = last (last (disk # ws1) # ws2))
    \<and> (\<forall>w \<in> set ws2. \<exists>n \<le> length events. \<exists>c.
         contiguous (committed_batches resume) (?got \<union> d_index ` fst ` set (take n events)) c
         \<and> w = checkpoint_at f resume c)"
    using Cons.IH [OF t1(1,2) _ s2 t1(3)] Cons.prems(3) by simp
  have eq: "got \<union> d_index ` fst ` set (e # events) = ?got \<union> d_index ` fst ` set events"
    by (auto simp: e)
  have writes: "\<exists>n \<le> length (e # events). \<exists>c.
      contiguous (committed_batches resume) (got \<union> d_index ` fst ` set (take n (e # events))) c
      \<and> w = checkpoint_at f resume c" if w: "w \<in> set ws" for w
  proof (cases "w \<in> set ws1")
    case True
    then have "w = checkpoint_at f resume (t_next ?r - 1)" using t1(4) st by auto
    then show ?thesis using cont by (intro exI [of _ 1]) (auto simp: e)
  next
    case False
    then have "w \<in> set ws2" using w ws by simp
    then obtain n c where "n \<le> length events" "w = checkpoint_at f resume c"
      "contiguous (committed_batches resume) (?got \<union> d_index ` fst ` set (take n events)) c"
      using IH by blast
    then show ?thesis by (intro exI [of _ "Suc n"]) (auto simp: e)
  qed
  have "last (last (disk # ws1) # ws2) = last (disk # ws)"
    by (simp add: ws)
  then show ?case using IH writes unfolding eq by simp
qed

lemma tracker_new_inv:
  "tracker_inv f resume {} (tracker_new resume now) \<and> \<not> t_dirty (tracker_new resume now)
   \<and> t_state (tracker_new resume now) = resume"
  using segment_below [of "committed_batches resume" "Suc (committed_batches resume)"]
  by (simp add: tracker_inv_def tracker_new_def checkpoint_at_def)

section \<open>Properties\<close>

text \<open>
  C1: a checkpoint never claims a batch that was not committed.  Every state the task writes,
  at whatever moment, is exact for the batches reported up to that moment, in any order: its
  mark is the end of the longest contiguous run of reported batches after the resumed mark,
  and its document and byte totals are those of exactly the batches up to the mark.  The last
  state written (or the resumed one when none was) is exact for all reported batches.
\<close>

theorem checkpoint_exact:
  assumes "\<forall>e \<in> set events. (d_documents (fst e), d_bytes (fst e)) = f (d_index (fst e))"
  defines "reported \<equiv> \<lambda>n. d_index ` fst ` set (take n events)"
  shows "(\<forall>w \<in> set (checkpoint_task interval now events resume). \<exists>n \<le> length events. \<exists>c.
       contiguous (committed_batches resume) (reported n) c \<and> w = checkpoint_at f resume c)
    \<and> (\<exists>c. contiguous (committed_batches resume) (reported (length events)) c
       \<and> last (resume # checkpoint_task interval now events resume) = checkpoint_at f resume c)"
proof -
  obtain t ws where run: "checkpoint_run interval events (tracker_new resume now) = (t, ws)" by fastforce
  have new: "t_next (tracker_new resume now) \<notin> ({} :: nat set)"
    "\<not> t_dirty (tracker_new resume now) \<longrightarrow> t_state (tracker_new resume now) = resume"
    using tracker_new_inv [of f resume now] by simp_all
  note inv = checkpoint_run_inv [OF tracker_new_inv [THEN conjunct1] new(1) assms(1) run new(2)]
  let ?all = "d_index ` fst ` set events"
  have i: "tracker_inv f resume ?all t" "t_next t \<notin> ?all" "\<not> t_dirty t \<longrightarrow> t_state t = last (resume # ws)"
    and w: "\<forall>w \<in> set ws. \<exists>n \<le> length events. \<exists>c. contiguous (committed_batches resume)
      (d_index ` fst ` set (take n events)) c \<and> w = checkpoint_at f resume c"
    using inv by simp_all
  have c: "contiguous (committed_batches resume) ?all (t_next t - 1)"
    by (rule tracker_contiguous [OF i(1,2)])
  have st: "t_state t = checkpoint_at f resume (t_next t - 1)"
    using i(1) by (simp add: tracker_inv_def)
  have task: "checkpoint_task interval now events resume = ws @ (if t_dirty t then [t_state t] else [])"
    by (simp add: checkpoint_task_def run)
  show ?thesis
  proof
    show "\<exists>c. contiguous (committed_batches resume) (reported (length events)) c
       \<and> last (resume # checkpoint_task interval now events resume) = checkpoint_at f resume c"
      using c st i(3) by (intro exI [of _ "t_next t - 1"]) (simp add: task reported_def)
    show "\<forall>w \<in> set (checkpoint_task interval now events resume). \<exists>n \<le> length events. \<exists>c.
       contiguous (committed_batches resume) (reported n) c \<and> w = checkpoint_at f resume c"
    proof
      fix v assume "v \<in> set (checkpoint_task interval now events resume)"
      then consider "v \<in> set ws" | "v = t_state t" by (auto simp: task split: if_splits)
      then show "\<exists>n \<le> length events. \<exists>c.
         contiguous (committed_batches resume) (reported n) c \<and> v = checkpoint_at f resume c"
      proof cases
        case 1
        then show ?thesis using w by (simp add: reported_def)
      next
        case 2
        then show ?thesis using c st
          by (intro exI [of _ "length events"]) (auto simp: reported_def)
      qed
    qed
  qed
qed

text \<open>Batches 3, 1 and 2 complete in that order, then 5: the final mark is 3.\<close>

lemma checkpoint_exact_witness:
  "\<exists>c. contiguous 0 {1, 2, 3, 5} c
     \<and> last (import_checkpoint_default # checkpoint_task 10 0
         (map (\<lambda>i. (\<lparr>d_index = i, d_documents = 2 * i, d_bytes = 7\<rparr>, i)) [3, 1, 2, 5]) import_checkpoint_default)
       = \<lparr>committed_batches = c, documents_committed = 12, bytes_committed = 21\<rparr>"
proof -
  let ?f = "\<lambda>i. (2 * i, 7)"
  let ?ev = "map (\<lambda>i. (\<lparr>d_index = i, d_documents = 2 * i, d_bytes = 7\<rparr>, i)) [3, 1, 2, 5 :: nat]"
  have "\<forall>e \<in> set ?ev. (d_documents (fst e), d_bytes (fst e)) = ?f (d_index (fst e))" by simp
  from checkpoint_exact [OF this, of 10 0 import_checkpoint_default, THEN conjunct2]
  obtain c where c: "contiguous 0 {3, 1, 2, 5} c"
    "last (import_checkpoint_default # checkpoint_task 10 0 ?ev import_checkpoint_default)
      = checkpoint_at ?f import_checkpoint_default c"
    by (auto simp: import_checkpoint_default_def)
  have "contiguous 0 {3, 1, 2, 5} 3" by (auto simp: contiguous_def)
  then have 3: "c = 3" using contiguous_unique c(1) by blast
  have "{0<..3 :: nat} = {1, 2, 3}" by auto
  then have "checkpoint_at ?f import_checkpoint_default 3
      = \<lparr>committed_batches = 3, documents_committed = 12, bytes_committed = 21\<rparr>"
    by (simp add: checkpoint_at_def import_checkpoint_default_def)
  moreover have "{3, 1, 2, 5} = {1, 2, 3, 5 :: nat}" by auto
  ultimately show ?thesis using c 3 by (metis (no_types, lifting))
qed

end
