(* ===== verification/Adaptive.thy ===== *)
theory Adaptive
  imports Errors
begin

text \<open>
  The adaptive concurrency governor, \<open>arangodb-import/src/adaptive.rs\<close>, as a state machine.
  Durations and clock readings are natural numbers of one unit (nanoseconds); each operation
  that reads the clock takes the reading.  The mutex makes every operation atomic, so an
  operation is one step.
\<close>

record adaptive_config =
  ac_enabled :: bool
  ac_max :: nat
  ac_min :: nat
  ac_slow :: nat
  ac_recover :: nat

definition default_slow_threshold :: nat where
  "default_slow_threshold = 5 * 10^9"

definition default_recover_after :: nat where
  "default_recover_after = 10 * 10^9"

definition adaptive_config_new :: "bool \<Rightarrow> nat \<Rightarrow> adaptive_config" where
  "adaptive_config_new enabled workers =
     \<lparr>ac_enabled = enabled, ac_max = max workers 1, ac_min = 1,
      ac_slow = default_slow_threshold, ac_recover = default_recover_after\<rparr>"

record limiter =
  l_limit :: nat
  l_in_flight :: nat
  l_last_congestion :: nat
  l_min_seen :: nat
  l_429 :: nat
  l_503 :: nat
  l_slow :: nat
  l_rtt_sum :: nat
  l_rtt_count :: nat

definition limiter_start :: "adaptive_config \<Rightarrow> nat" where
  "limiter_start cfg = max (max (ac_max cfg) (ac_min cfg)) 1"

definition limiter_new :: "adaptive_config \<Rightarrow> nat \<Rightarrow> limiter" where
  "limiter_new cfg now =
     \<lparr>l_limit = limiter_start cfg, l_in_flight = 0, l_last_congestion = now,
      l_min_seen = limiter_start cfg, l_429 = 0, l_503 = 0, l_slow = 0,
      l_rtt_sum = 0, l_rtt_count = 0\<rparr>"

text \<open>One round of \<open>acquire\<close>: the slot if there is one; otherwise the caller waits.\<close>

definition try_acquire :: "limiter \<Rightarrow> limiter option" where
  "try_acquire l =
     (if l_in_flight l < l_limit l then Some (l\<lparr>l_in_flight := l_in_flight l + 1\<rparr>) else None)"

definition throttle :: "adaptive_config \<Rightarrow> nat \<Rightarrow> limiter \<Rightarrow> limiter" where
  "throttle cfg now l =
     (if \<not> ac_enabled cfg then l
      else (let reduced = max (l_limit l div 2) (ac_min cfg)
            in l\<lparr>l_limit := reduced, l_min_seen := min (l_min_seen l) reduced,
                 l_last_congestion := now\<rparr>))"

definition maybe_recover :: "adaptive_config \<Rightarrow> nat \<Rightarrow> limiter \<Rightarrow> limiter" where
  "maybe_recover cfg now l =
     (if \<not> ac_enabled cfg \<or> ac_max cfg \<le> l_limit l then l
      else if ac_recover cfg \<le> now - l_last_congestion l
      then l\<lparr>l_limit := l_limit l + 1, l_last_congestion := now\<rparr>
      else l)"

definition record_success :: "adaptive_config \<Rightarrow> nat \<Rightarrow> nat \<Rightarrow> limiter \<Rightarrow> limiter" where
  "record_success cfg rtt now l =
     (let l1 = l\<lparr>l_in_flight := l_in_flight l - 1, l_rtt_sum := l_rtt_sum l + rtt,
                 l_rtt_count := l_rtt_count l + 1\<rparr>
      in if ac_enabled cfg \<and> ac_slow cfg \<le> rtt
         then throttle cfg now (l1\<lparr>l_slow := l_slow l1 + 1\<rparr>)
         else maybe_recover cfg now l1)"

definition record_error :: "adaptive_config \<Rightarrow> nat option \<Rightarrow> nat \<Rightarrow> limiter \<Rightarrow> limiter" where
  "record_error cfg status now l =
     (let l1 = l\<lparr>l_in_flight := l_in_flight l - 1\<rparr> in
      case status of
        None \<Rightarrow> l1
      | Some st \<Rightarrow>
          if st = 429 then throttle cfg now (l1\<lparr>l_429 := l_429 l1 + 1\<rparr>)
          else if 502 \<le> st \<and> st \<le> 504 then throttle cfg now (l1\<lparr>l_503 := l_503 l1 + 1\<rparr>)
          else l1)"

record batching_metrics =
  bm_final :: nat
  bm_min :: nat
  bm_429 :: nat
  bm_503 :: nat
  bm_slow :: nat
  bm_avg_rtt_ms :: nat

definition limiter_metrics :: "limiter \<Rightarrow> batching_metrics" where
  "limiter_metrics l =
     \<lparr>bm_final = l_limit l, bm_min = l_min_seen l, bm_429 = l_429 l, bm_503 = l_503 l,
      bm_slow = l_slow l,
      bm_avg_rtt_ms = (if l_rtt_count l = 0 then 0 else (l_rtt_sum l div 10^6) mod 2^64 div l_rtt_count l)\<rparr>"

text \<open>\<open>rate_limit_status\<close> (in \<open>sender.rs\<close>): the statuses the governor is told about.\<close>

fun rate_limit_status :: "error \<Rightarrow> nat option" where
  "rate_limit_status (Http status m c) = (if status \<in> {429, 502, 503, 504} then Some status else None)"
| "rate_limit_status _ = None"

section \<open>The state machine\<close>

text \<open>A slot is given back only by who holds one.\<close>

inductive limiter_step :: "adaptive_config \<Rightarrow> limiter \<Rightarrow> limiter \<Rightarrow> bool" for cfg where
  acquire: "try_acquire l = Some l' \<Longrightarrow> limiter_step cfg l l'"
| success: "0 < l_in_flight l \<Longrightarrow> limiter_step cfg l (record_success cfg rtt now l)"
| failure: "0 < l_in_flight l \<Longrightarrow> limiter_step cfg l (record_error cfg status now l)"

inductive limiter_reach :: "adaptive_config \<Rightarrow> limiter \<Rightarrow> bool" for cfg where
  start: "limiter_reach cfg (limiter_new cfg now)"
| step: "limiter_reach cfg l \<Longrightarrow> limiter_step cfg l l' \<Longrightarrow> limiter_reach cfg l'"

definition limiter_inv :: "adaptive_config \<Rightarrow> limiter \<Rightarrow> bool" where
  "limiter_inv cfg l \<longleftrightarrow>
     ac_min cfg \<le> l_limit l \<and> l_limit l \<le> limiter_start cfg \<and> (1 \<le> ac_min cfg \<longrightarrow> 1 \<le> l_limit l)
     \<and> l_min_seen l \<le> l_limit l \<and> ac_min cfg \<le> l_min_seen l
     \<and> l_in_flight l \<le> limiter_start cfg
     \<and> (\<not> ac_enabled cfg \<longrightarrow> l_limit l = limiter_start cfg \<and> l_min_seen l = limiter_start cfg)
     \<and> (l_429 l + l_503 l + l_slow l = 0 \<longrightarrow> l_limit l = limiter_start cfg)"

lemma limiter_new_inv: "limiter_inv cfg (limiter_new cfg now)"
  by (auto simp: limiter_inv_def limiter_new_def limiter_start_def)

lemma try_acquire_inv: "limiter_inv cfg l \<Longrightarrow> try_acquire l = Some l' \<Longrightarrow> limiter_inv cfg l'"
  by (auto simp: limiter_inv_def try_acquire_def split: if_splits)

lemma maybe_recover_inv: "limiter_inv cfg l \<Longrightarrow> limiter_inv cfg (maybe_recover cfg now l)"
  by (auto simp: limiter_inv_def maybe_recover_def limiter_start_def)

lemma release_inv:
  "limiter_inv cfg l \<Longrightarrow>
   limiter_inv cfg (l\<lparr>l_in_flight := l_in_flight l - 1, l_rtt_sum := d, l_rtt_count := e\<rparr>)"
  "limiter_inv cfg l \<Longrightarrow> limiter_inv cfg (l\<lparr>l_in_flight := l_in_flight l - 1\<rparr>)"
  by (auto simp: limiter_inv_def)

lemma throttle_inv:
  assumes "limiter_inv cfg l" "l_limit l' = l_limit l" "l_min_seen l' = l_min_seen l"
    and "l_in_flight l' \<le> l_in_flight l" "0 < l_429 l' + l_503 l' + l_slow l'"
  shows "limiter_inv cfg (throttle cfg now l')"
proof (cases "ac_enabled cfg")
  case False
  then show ?thesis using assms by (auto simp: limiter_inv_def throttle_def)
next
  case True
  define r where "r = max (l_limit l div 2) (ac_min cfg)"
  have "ac_min cfg \<le> l_limit l" using assms(1) by (simp add: limiter_inv_def)
  then have r: "ac_min cfg \<le> r" "r \<le> l_limit l" by (simp_all add: r_def)
  have t: "throttle cfg now l' = l'\<lparr>l_limit := r, l_min_seen := min (l_min_seen l') r, l_last_congestion := now\<rparr>"
    using True assms(2) by (simp add: throttle_def r_def Let_def)
  have "0 < l_429 l' \<or> 0 < l_503 l' \<or> 0 < l_slow l'" using assms(5) by linarith
  then show ?thesis
    using assms(1,3,4) r True unfolding t limiter_inv_def by auto
qed

lemma record_success_inv: "limiter_inv cfg l \<Longrightarrow> limiter_inv cfg (record_success cfg rtt now l)"
  unfolding record_success_def Let_def
  by (auto intro!: maybe_recover_inv release_inv throttle_inv [where l = l] simp del: One_nat_def)

lemma record_error_inv: "limiter_inv cfg l \<Longrightarrow> limiter_inv cfg (record_error cfg status now l)"
  unfolding record_error_def Let_def
  by (auto split: option.splits intro!: release_inv throttle_inv [where l = l] simp del: One_nat_def)

lemma limiter_reach_inv: "limiter_reach cfg l \<Longrightarrow> limiter_inv cfg l"
proof (induction rule: limiter_reach.induct)
  case (step l l')
  from step(2) step(3) show ?case
    by (cases rule: limiter_step.cases) (auto intro: try_acquire_inv record_success_inv record_error_inv)
qed (rule limiter_new_inv)

text \<open>
  C11: whatever the order and outcome of the sends, the governor keeps the concurrency limit
  between one and the worker count, never lets more sends be in flight than there are
  workers, and leaves the limit at the worker count as long as no send was slow or rate
  limited, or when it is disabled; and a free governor always grants a slot, so it cannot
  stall the import.
\<close>

theorem limiter_bounds:
  assumes "limiter_reach (adaptive_config_new enabled workers) l"
  shows "1 \<le> l_limit l \<and> l_limit l \<le> max workers 1 \<and> l_in_flight l \<le> max workers 1
    \<and> (\<not> enabled \<or> l_429 l + l_503 l + l_slow l = 0 \<longrightarrow> l_limit l = max workers 1)
    \<and> (l_in_flight l = 0 \<longrightarrow> try_acquire l \<noteq> None)"
  using limiter_reach_inv [OF assms]
  by (auto simp: limiter_inv_def limiter_start_def adaptive_config_new_def try_acquire_def)

lemma limiter_bounds_witness:
  "\<exists>l :: limiter. l_limit l = 2 \<and> l_limit l \<le> max 4 1 \<and> l_in_flight l \<le> max 4 1"
proof -
  let ?cfg = "adaptive_config_new True 4"
  let ?l0 = "limiter_new ?cfg 0"
  let ?l1 = "?l0\<lparr>l_in_flight := 1\<rparr>"
  let ?l2 = "record_error ?cfg (Some 429) 5 ?l1"
  have "try_acquire ?l0 = Some ?l1"
    by (simp add: try_acquire_def limiter_new_def limiter_start_def adaptive_config_new_def)
  then have "limiter_reach ?cfg ?l1"
    by (intro limiter_reach.step [OF limiter_reach.start] limiter_step.acquire)
  then have r: "limiter_reach ?cfg ?l2"
    by (rule limiter_reach.step) (rule limiter_step.failure, simp)
  have "l_limit ?l2 = 2"
    by (simp add: record_error_def throttle_def limiter_new_def limiter_start_def
        adaptive_config_new_def Let_def)
  then show ?thesis using limiter_bounds [OF r] by blast
qed

lemma throttle_limit:
  "ac_enabled cfg \<Longrightarrow> l_limit (record_error cfg (Some 429) now l) = max (l_limit l div 2) (ac_min cfg)"
  by (simp add: record_error_def throttle_def Let_def)

lemma quiet_growth:
  assumes "rtt < ac_slow cfg" "0 < ac_recover cfg" "l_last_congestion l \<le> now"
  defines "l' \<equiv> record_success cfg rtt now l"
  shows "l_limit l' * ac_recover cfg + l_last_congestion l \<le> l_limit l * ac_recover cfg + l_last_congestion l'
    \<and> l_last_congestion l' \<le> now \<and> l_last_congestion l \<le> l_last_congestion l'"
  using assms(1-3) by (auto simp: l'_def record_success_def maybe_recover_def Let_def)

lemma div_bound:
  fixes a b k e :: nat
  assumes "0 < k" "a * k \<le> b * k + e"
  shows "a \<le> b + e div k"
proof -
  have "a = (a * k) div k" using assms(1) by simp
  also have "\<dots> \<le> (b * k + e) div k" by (rule div_le_mono [OF assms(2)])
  also have "\<dots> = b + e div k" using assms(1) by simp
  finally show ?thesis .
qed

lemma quiet_run:
  assumes "rtt < ac_slow cfg" "0 < ac_recover cfg" "sorted (l_last_congestion l # ts)"
  shows "l_limit (fold (record_success cfg rtt) ts l) * ac_recover cfg + l_last_congestion l
    \<le> l_limit l * ac_recover cfg + last (l_last_congestion l # ts)"
proof -
  have "l_limit (fold (record_success cfg rtt) ts l) * ac_recover cfg + l_last_congestion l
      \<le> l_limit l * ac_recover cfg + l_last_congestion (fold (record_success cfg rtt) ts l)
    \<and> l_last_congestion (fold (record_success cfg rtt) ts l) \<le> last (l_last_congestion l # ts)"
    using assms(3)
  proof (induction ts rule: rev_induct)
    case (snoc t ts)
    let ?m = "fold (record_success cfg rtt) ts l"
    have "sorted (l_last_congestion l # ts)" "last (l_last_congestion l # ts) \<le> t"
      using snoc.prems by (auto simp: sorted_append)
    with snoc.IH have "l_last_congestion ?m \<le> t" by simp
    from quiet_growth [OF assms(1,2) this] snoc.IH \<open>sorted (l_last_congestion l # ts)\<close>
    show ?case by simp
  qed simp
  then show ?thesis by simp
qed

text \<open>
  The governor reacts multiplicatively and recovers additively: a burst of rate-limit
  answers halves the limit once per answer down to the floor, and however many quick sends
  follow, the limit grows by at most one slot per recovery window that has passed.
\<close>

theorem limiter_aimd:
  assumes "ac_enabled cfg" "0 < ac_recover cfg" "rtt < ac_slow cfg" "ac_min cfg \<le> l_limit l"
    and "sorted (l_last_congestion l # ts)"
  shows "l_limit ((record_error cfg (Some 429) now ^^ n) l) = max (l_limit l div 2 ^ n) (ac_min cfg)
    \<and> l_limit (fold (record_success cfg rtt) ts l)
        \<le> l_limit l + (last (l_last_congestion l # ts) - l_last_congestion l) div ac_recover cfg"
proof
  show "l_limit ((record_error cfg (Some 429) now ^^ n) l) = max (l_limit l div 2 ^ n) (ac_min cfg)"
  proof (induction n)
    case 0
    then show ?case using assms(4) by simp
  next
    case (Suc n)
    have h: "max (max (x div 2 ^ n) m div 2) m = max (x div (2 * 2 ^ n)) m" for x m :: nat
    proof -
      have "x div (2 * 2 ^ n) = x div 2 ^ n div 2" by (metis div_mult2_eq mult.commute)
      then show ?thesis by (auto simp: max_def)
    qed
    show ?case using Suc by (simp add: throttle_limit [OF assms(1)] h)
  qed
  let ?L = "l_limit (fold (record_success cfg rtt) ts l)" and ?e = "last (l_last_congestion l # ts)"
  have "?L * ac_recover cfg \<le> l_limit l * ac_recover cfg + (?e - l_last_congestion l)"
    using quiet_run [OF assms(3,2,5)] by linarith
  then show "?L \<le> l_limit l + (?e - l_last_congestion l) div ac_recover cfg"
    by (rule div_bound [OF assms(2)])
qed

lemma limiter_aimd_witness:
  "l_limit ((record_error (adaptive_config_new True 8) (Some 429) 3 ^^ 2)
      (limiter_new (adaptive_config_new True 8) 0)) = 2"
proof -
  let ?cfg = "adaptive_config_new True 8" and ?l = "limiter_new (adaptive_config_new True 8) 0"
  have c: "ac_enabled ?cfg" "0 < ac_recover ?cfg" "0 < ac_slow ?cfg" "ac_min ?cfg \<le> l_limit ?l"
    "sorted (l_last_congestion ?l # [5, 9])"
    by (simp_all add: adaptive_config_new_def limiter_new_def limiter_start_def
        default_recover_after_def default_slow_threshold_def)
  have "l_limit ?l = 8" "ac_min ?cfg = 1"
    by (simp_all add: adaptive_config_new_def limiter_new_def limiter_start_def)
  then show ?thesis using limiter_aimd [OF c, of 2 3, THEN conjunct1] by simp
qed

end
