(* ===== verification/Pipeline.thy ===== *)
theory Pipeline
  imports Batch Checkpoint Adaptive "HOL-Library.Multiset"
begin

text \<open>
  The concurrent import pipeline, \<open>run_import_with_checkpoint\<close> in
  \<open>arangodb-import/src/sender.rs\<close>, as a step relation: the producer (batcher, semaphore,
  bounded channel), the worker tasks (channel, governor, send, report), the checkpoint task,
  in any interleaving.  A batch travels with the number of permits it holds.  The server may
  answer a send with any result or any error, after any time.
\<close>

section \<open>Errors and totals\<close>

text \<open>\<open>with_batch_context\<close>.\<close>

fun with_batch_context :: "error \<Rightarrow> string \<Rightarrow> nat \<Rightarrow> error" where
  "with_batch_context (Http status message context) collection n =
     Http status message
       ((if ec_collection context = None then context\<lparr>ec_collection := Some collection\<rparr> else context)
         \<lparr>ec_batch := Some n\<rparr>)"
| "with_batch_context other collection n = other"

record import_result =
  ir_created :: nat
  ir_errors :: nat
  ir_empty :: nat
  ir_updated :: nat
  ir_ignored :: nat

record import_summary =
  is_created :: nat
  is_errors :: nat
  is_empty :: nat
  is_updated :: nat
  is_ignored :: nat
  is_batches :: nat
  is_documents_sent :: nat
  is_bytes_sent :: nat

definition summary_default :: import_summary where
  "summary_default = \<lparr>is_created = 0, is_errors = 0, is_empty = 0, is_updated = 0,
     is_ignored = 0, is_batches = 0, is_documents_sent = 0, is_bytes_sent = 0\<rparr>"

definition summary_record :: "batch \<times> import_result \<Rightarrow> import_summary \<Rightarrow> import_summary" where
  "summary_record br s = (let (b, r) = br in
     \<lparr>is_created = is_created s + ir_created r, is_errors = is_errors s + ir_errors r,
      is_empty = is_empty s + ir_empty r, is_updated = is_updated s + ir_updated r,
      is_ignored = is_ignored s + ir_ignored r, is_batches = is_batches s + 1,
      is_documents_sent = is_documents_sent s + b_documents b,
      is_bytes_sent = is_bytes_sent s + byte_len b\<rparr>)"

definition summary_merge :: "import_summary \<Rightarrow> import_summary \<Rightarrow> import_summary" where
  "summary_merge s t =
     \<lparr>is_created = is_created s + is_created t, is_errors = is_errors s + is_errors t,
      is_empty = is_empty s + is_empty t, is_updated = is_updated s + is_updated t,
      is_ignored = is_ignored s + is_ignored t, is_batches = is_batches s + is_batches t,
      is_documents_sent = is_documents_sent s + is_documents_sent t,
      is_bytes_sent = is_bytes_sent s + is_bytes_sent t\<rparr>"

section \<open>The state\<close>

record pipe_config =
  pc_workers :: nat
  pc_cap :: nat
  pc_adaptive :: bool
  pc_interval :: nat
  pc_checkpointing :: bool
  pc_resume :: import_checkpoint

text \<open>The checks before the pipeline starts; the producer's batches come from \<open>into_batches\<close>.\<close>

definition import_config_check :: "batch_config \<Rightarrow> nat \<Rightarrow> nat \<Rightarrow> unit res" where
  "import_config_check bc workers cap =
     (if workers = 0 then Inl (Config ''import requires at least one worker'')
      else if cap < max_bytes bc
      then Inl (Config (''batch max_bytes ('' @ dec (max_bytes bc) @ '') exceeds max_in_flight_bytes (''
             @ dec cap @ ''); such a batch could never acquire enough in-flight budget and would ''
             @ ''deadlock the pipeline''))
      else Inr ())"

definition max_permits :: nat where
  "max_permits = 2^61 - 1"

definition semaphore_permits :: "nat \<Rightarrow> nat" where
  "semaphore_permits cap = min cap max_permits"

definition permits_for :: "nat \<Rightarrow> nat \<Rightarrow> nat" where
  "permits_for n cap = (if min n cap < 2^32 then min n cap else 2^32 - 1)"

text \<open>A worker task: its own running summary, and where in its loop it is.\<close>

datatype stage =
    Idle
  | Waiting batch nat
  | Sending batch nat
  | Reporting batch nat
  | Finished
  | Failed error

type_synonym worker = "stage \<times> import_summary"

record pipe =
  p_input :: "batch res list"
  p_hold :: "(batch \<times> nat) option"
  p_closed :: bool
  p_error :: "error option"
  p_sem :: nat
  p_queue :: "(batch \<times> nat) list"
  p_workers :: "worker list"
  p_limiter :: limiter
  p_done :: "batch_done list"
  p_tracker :: tracker
  p_acked :: "batch list"
  p_failed :: "batch list"
  p_skipped :: "batch list"
  p_dropped :: "batch list"

definition pipe_start :: "pipe_config \<Rightarrow> nat \<Rightarrow> batch res list \<Rightarrow> pipe" where
  "pipe_start cfg now batches =
     \<lparr>p_input = batches, p_hold = None, p_closed = False, p_error = None,
      p_sem = semaphore_permits (pc_cap cfg), p_queue = [],
      p_workers = replicate (pc_workers cfg) (Idle, summary_default),
      p_limiter = limiter_new (adaptive_config_new (pc_adaptive cfg) (pc_workers cfg)) now,
      p_done = [], p_tracker = tracker_new (pc_resume cfg) now,
      p_acked = [], p_failed = [], p_skipped = [], p_dropped = []\<rparr>"

fun exited :: "worker \<Rightarrow> bool" where
  "exited (Finished, s) = True"
| "exited (Failed e, s) = True"
| "exited _ = False"

definition batch_done_of :: "batch \<Rightarrow> batch_done" where
  "batch_done_of b = \<lparr>d_index = b_index b, d_documents = b_documents b, d_bytes = byte_len b\<rparr>"

section \<open>The steps\<close>

inductive pipe_step :: "pipe_config \<Rightarrow> pipe \<Rightarrow> pipe \<Rightarrow> bool" for cfg where
  skip:
    "\<not> p_closed p \<Longrightarrow> p_hold p = None \<Longrightarrow> p_input p = Inr b # rest \<Longrightarrow>
     b_index b \<le> committed_batches (pc_resume cfg) \<Longrightarrow>
     pipe_step cfg p (p\<lparr>p_input := rest, p_skipped := p_skipped p @ [b]\<rparr>)"
| permit:
    "\<not> p_closed p \<Longrightarrow> p_hold p = None \<Longrightarrow> p_input p = Inr b # rest \<Longrightarrow>
     committed_batches (pc_resume cfg) < b_index b \<Longrightarrow>
     n = permits_for (byte_len b) (pc_cap cfg) \<Longrightarrow> n \<le> p_sem p \<Longrightarrow>
     pipe_step cfg p (p\<lparr>p_input := rest, p_hold := Some (b, n), p_sem := p_sem p - n\<rparr>)"
| enqueue:
    "p_hold p = Some (b, n) \<Longrightarrow> length (p_queue p) < pc_workers cfg * 2 \<Longrightarrow>
     \<exists>w \<in> set (p_workers p). \<not> exited w \<Longrightarrow>
     pipe_step cfg p (p\<lparr>p_hold := None, p_queue := p_queue p @ [(b, n)]\<rparr>)"
| enqueue_fails:
    "p_hold p = Some (b, n) \<Longrightarrow> \<forall>w \<in> set (p_workers p). exited w \<Longrightarrow>
     pipe_step cfg p (p\<lparr>p_hold := None, p_sem := p_sem p + n, p_closed := True,
       p_dropped := p_dropped p @ [b]\<rparr>)"
| input_error:
    "\<not> p_closed p \<Longrightarrow> p_hold p = None \<Longrightarrow> p_input p = Inl e # rest \<Longrightarrow>
     pipe_step cfg p (p\<lparr>p_closed := True, p_error := Some e\<rparr>)"
| input_end:
    "\<not> p_closed p \<Longrightarrow> p_hold p = None \<Longrightarrow> p_input p = [] \<Longrightarrow>
     pipe_step cfg p (p\<lparr>p_closed := True\<rparr>)"
| take_batch:
    "p_workers p = u @ (Idle, s) # v \<Longrightarrow> p_queue p = (b, n) # q \<Longrightarrow>
     pipe_step cfg p (p\<lparr>p_workers := u @ (Waiting b n, s) # v, p_queue := q\<rparr>)"
| finish:
    "p_workers p = u @ (Idle, s) # v \<Longrightarrow> p_queue p = [] \<Longrightarrow> p_closed p \<Longrightarrow>
     pipe_step cfg p (p\<lparr>p_workers := u @ (Finished, s) # v\<rparr>)"
| slot:
    "p_workers p = u @ (Waiting b n, s) # v \<Longrightarrow> try_acquire (p_limiter p) = Some l \<Longrightarrow>
     pipe_step cfg p (p\<lparr>p_workers := u @ (Sending b n, s) # v, p_limiter := l\<rparr>)"
| send_ok:
    "p_workers p = u @ (Sending b n, s) # v \<Longrightarrow>
     pipe_step cfg p (p\<lparr>p_workers := u @ (Reporting b n, summary_record (b, r) s) # v,
       p_limiter := record_success (adaptive_config_new (pc_adaptive cfg) (pc_workers cfg)) rtt now (p_limiter p),
       p_acked := p_acked p @ [b]\<rparr>)"
| send_error:
    "p_workers p = u @ (Sending b n, s) # v \<Longrightarrow>
     pipe_step cfg p (p\<lparr>p_workers := u @ (Failed e, s) # v,
       p_limiter := record_error (adaptive_config_new (pc_adaptive cfg) (pc_workers cfg))
                      (rate_limit_status e) now (p_limiter p),
       p_sem := p_sem p + n, p_failed := p_failed p @ [b]\<rparr>)"
| report:
    "p_workers p = u @ (Reporting b n, s) # v \<Longrightarrow>
     pc_checkpointing cfg \<Longrightarrow> length (p_done p) < pc_workers cfg * 4 \<Longrightarrow>
     pipe_step cfg p (p\<lparr>p_workers := u @ (Idle, s) # v, p_done := p_done p @ [batch_done_of b],
       p_sem := p_sem p + n\<rparr>)"
| no_report:
    "p_workers p = u @ (Reporting b n, s) # v \<Longrightarrow> \<not> pc_checkpointing cfg \<Longrightarrow>
     pipe_step cfg p (p\<lparr>p_workers := u @ (Idle, s) # v, p_sem := p_sem p + n\<rparr>)"
| checkpoint:
    "p_done p = d # ds \<Longrightarrow>
     pipe_step cfg p (p\<lparr>p_done := ds,
       p_tracker := fst (checkpoint_step (pc_interval cfg) (d, now) (p_tracker p))\<rparr>)"
| receiver_gone:
    "\<forall>w \<in> set (p_workers p). exited w \<Longrightarrow> p_queue p \<noteq> [] \<Longrightarrow>
     pipe_step cfg p (p\<lparr>p_queue := [], p_sem := p_sem p + sum_list (map snd (p_queue p)),
       p_dropped := p_dropped p @ map fst (p_queue p)\<rparr>)"

inductive pipe_reach :: "pipe_config \<Rightarrow> batch res list \<Rightarrow> pipe \<Rightarrow> bool" for cfg batches where
  start: "pipe_reach cfg batches (pipe_start cfg now batches)"
| step: "pipe_reach cfg batches p \<Longrightarrow> pipe_step cfg p p' \<Longrightarrow> pipe_reach cfg batches p'"

text \<open>The end of a run, and what \<open>run_import_with_checkpoint\<close> then returns.\<close>

definition pipe_over :: "pipe \<Rightarrow> bool" where
  "pipe_over p \<longleftrightarrow> p_closed p \<and> p_hold p = None \<and> p_queue p = [] \<and> p_done p = []
     \<and> (\<forall>w \<in> set (p_workers p). exited w)"

definition worker_error :: "worker \<Rightarrow> error option" where
  "worker_error w = (case fst w of Failed e \<Rightarrow> Some e | _ \<Rightarrow> None)"

definition pipe_summary :: "pipe \<Rightarrow> import_summary" where
  "pipe_summary p = fold (\<lambda>w acc. summary_merge acc (snd w)) (p_workers p) summary_default"

text \<open>The workers are joined in the order \<open>order\<close> in which they end.\<close>

definition pipe_result :: "worker list \<Rightarrow> pipe \<Rightarrow> import_summary res" where
  "pipe_result order p =
     (case p_error p of
        Some e \<Rightarrow> Inl e
      | None \<Rightarrow>
          (case List.map_filter worker_error order of
             e # _ \<Rightarrow> Inl e
           | [] \<Rightarrow> Inr (pipe_summary p)))"

section \<open>What is where\<close>

fun oks :: "('e + 'a) list \<Rightarrow> 'a list" where
  "oks [] = []"
| "oks (Inl e # xs) = oks xs"
| "oks (Inr x # xs) = x # oks xs"

fun load :: "worker \<Rightarrow> (batch \<times> nat) list" where
  "load (Waiting b n, s) = [(b, n)]"
| "load (Sending b n, s) = [(b, n)]"
| "load (Reporting b n, s) = [(b, n)]"
| "load _ = []"

fun unsent :: "worker \<Rightarrow> batch list" where
  "unsent (Waiting b n, s) = [b]"
| "unsent (Sending b n, s) = [b]"
| "unsent _ = []"

fun reporting :: "worker \<Rightarrow> batch list" where
  "reporting (Reporting b n, s) = [b]"
| "reporting _ = []"

definition sending :: "worker \<Rightarrow> bool" where
  "sending w = (case fst w of Sending b n \<Rightarrow> True | _ \<Rightarrow> False)"

definition failed :: "worker \<Rightarrow> bool" where
  "failed w = (case fst w of Failed e \<Rightarrow> True | _ \<Rightarrow> False)"

definition finished :: "worker \<Rightarrow> bool" where
  "finished w = (case fst w of Finished \<Rightarrow> True | _ \<Rightarrow> False)"

lemma stage_simps [simp]:
  "sending (Idle, s) = False" "sending (Waiting b n, s) = False" "sending (Sending b n, s) = True"
  "sending (Reporting b n, s) = False" "sending (Finished, s) = False" "sending (Failed e, s) = False"
  "failed (Idle, s) = False" "failed (Waiting b n, s) = False" "failed (Sending b n, s) = False"
  "failed (Reporting b n, s) = False" "failed (Finished, s) = False" "failed (Failed e, s) = True"
  "finished (Idle, s) = False" "finished (Waiting b n, s) = False" "finished (Sending b n, s) = False"
  "finished (Reporting b n, s) = False" "finished (Finished, s) = True" "finished (Failed e, s) = False"
  by (simp_all add: sending_def failed_def finished_def)

lemma exited_iff: "exited w \<longleftrightarrow> finished w \<or> failed w"
  by (cases w rule: exited.cases) simp_all

text \<open>The batches between the batcher and the end of their send, each with its permits.\<close>

definition held :: "pipe \<Rightarrow> (batch \<times> nat) list" where
  "held p = (case p_hold p of None \<Rightarrow> [] | Some x \<Rightarrow> [x]) @ p_queue p @ concat (map load (p_workers p))"

section \<open>Invariants\<close>

definition permits_inv :: "pipe_config \<Rightarrow> pipe \<Rightarrow> bool" where
  "permits_inv cfg p \<longleftrightarrow>
     p_sem p + sum_list (map snd (held p)) = semaphore_permits (pc_cap cfg)
     \<and> (\<forall>x \<in> set (held p). snd x = permits_for (byte_len (fst x)) (pc_cap cfg))"

lemma permits_inv_start: "permits_inv cfg (pipe_start cfg now batches)"
  by (simp add: permits_inv_def pipe_start_def held_def map_replicate_const concat_replicate_trivial)

lemma permits_inv_step: "pipe_step cfg p p' \<Longrightarrow> permits_inv cfg p \<Longrightarrow> permits_inv cfg p'"
  by (induction rule: pipe_step.induct) (auto simp: permits_inv_def held_def)

definition governor_inv :: "pipe_config \<Rightarrow> pipe \<Rightarrow> bool" where
  "governor_inv cfg p \<longleftrightarrow>
     limiter_inv (adaptive_config_new (pc_adaptive cfg) (pc_workers cfg)) (p_limiter p)
     \<and> l_in_flight (p_limiter p) = length (filter sending (p_workers p))"

lemma in_flight_throttle [simp]:
  "l_in_flight (throttle cfg now l) = l_in_flight l"
  "l_in_flight (maybe_recover cfg now l) = l_in_flight l"
  by (simp_all add: throttle_def maybe_recover_def Let_def)

lemma in_flight_record [simp]:
  "l_in_flight (record_success cfg rtt now l) = l_in_flight l - 1"
  "l_in_flight (record_error cfg st now l) = l_in_flight l - 1"
  by (simp_all add: record_success_def record_error_def Let_def split: option.splits)

lemma in_flight_acquire: "try_acquire l = Some l' \<Longrightarrow> l_in_flight l' = Suc (l_in_flight l)"
  by (auto simp: try_acquire_def split: if_splits)

lemma governor_inv_start: "governor_inv cfg (pipe_start cfg now batches)"
  by (simp add: governor_inv_def pipe_start_def limiter_new_inv) (simp add: limiter_new_def)

lemma governor_inv_step: "pipe_step cfg p p' \<Longrightarrow> governor_inv cfg p \<Longrightarrow> governor_inv cfg p'"
  by (induction rule: pipe_step.induct)
     (auto simp: governor_inv_def in_flight_acquire record_success_inv record_error_inv
       intro: try_acquire_inv)

text \<open>Every batch of the input is in exactly one place.\<close>

definition whereabouts :: "pipe \<Rightarrow> batch multiset" where
  "whereabouts p = mset (oks (p_input p)) + mset (case p_hold p of None \<Rightarrow> [] | Some x \<Rightarrow> [fst x])
     + mset (map fst (p_queue p)) + mset (concat (map unsent (p_workers p)))
     + mset (p_acked p) + mset (p_failed p) + mset (p_skipped p) + mset (p_dropped p)"

lemma whereabouts_start: "whereabouts (pipe_start cfg now batches) = mset (oks batches)"
  by (simp add: whereabouts_def pipe_start_def map_replicate_const concat_replicate_trivial)

lemma whereabouts_step: "pipe_step cfg p p' \<Longrightarrow> whereabouts p' = whereabouts p"
  by (induction rule: pipe_step.induct) (auto simp: whereabouts_def)

lemma whereabouts_reach: "pipe_reach cfg batches p \<Longrightarrow> whereabouts p = mset (oks batches)"
  by (induction rule: pipe_reach.induct) (simp_all add: whereabouts_start whereabouts_step)

text \<open>Why a run may have ended early: an input error or a failed worker.\<close>

definition ending_inv :: "pipe_config \<Rightarrow> pipe \<Rightarrow> bool" where
  "ending_inv cfg p \<longleftrightarrow>
     length (p_workers p) = pc_workers cfg
     \<and> (p_closed p \<longrightarrow> p_hold p = None)
     \<and> (\<forall>w \<in> set (p_workers p). finished w \<longrightarrow> p_closed p \<and> p_queue p = [])
     \<and> (p_closed p \<longrightarrow> p_error p \<noteq> None \<or> p_input p = [] \<or> (\<forall>w \<in> set (p_workers p). failed w))
     \<and> (p_error p \<noteq> None \<longrightarrow> p_closed p)
     \<and> (p_dropped p \<noteq> [] \<longrightarrow> (\<forall>w \<in> set (p_workers p). failed w))
     \<and> (p_failed p \<noteq> [] \<longrightarrow> (\<exists>w \<in> set (p_workers p). failed w))"

lemma ending_inv_start: "ending_inv cfg (pipe_start cfg now batches)"
  by (auto simp: ending_inv_def pipe_start_def)

lemma ending_inv_step: "pipe_step cfg p p' \<Longrightarrow> ending_inv cfg p \<Longrightarrow> ending_inv cfg p'"
  by (induction rule: pipe_step.induct) (auto simp: ending_inv_def exited_iff)

text \<open>Only batches up to the resumed mark are skipped, and none of them is sent again.\<close>

definition fresh_inv :: "pipe_config \<Rightarrow> pipe \<Rightarrow> bool" where
  "fresh_inv cfg p \<longleftrightarrow>
     (\<forall>b \<in> set (p_skipped p). b_index b \<le> committed_batches (pc_resume cfg))
     \<and> (\<forall>b \<in> set (p_acked p) \<union> set (p_failed p) \<union> set (p_dropped p) \<union> fst ` set (held p).
           committed_batches (pc_resume cfg) < b_index b)"

lemma fresh_inv_start: "fresh_inv cfg (pipe_start cfg now batches)"
  by (auto simp: fresh_inv_def pipe_start_def held_def)

lemma fresh_inv_step:
  assumes "pipe_step cfg p p'" "fresh_inv cfg p"
  shows "fresh_inv cfg p'"
  using assms
proof (induction rule: pipe_step.induct)
  case (receiver_gone p)
  then show ?case unfolding fresh_inv_def held_def
    by (cases "p_hold p") (simp_all add: ball_Un image_Un)
qed (auto simp: fresh_inv_def held_def)

text \<open>
  The checkpoint task has heard of exactly the accepted batches whose report has been handled;
  the others are in its channel or still with the worker that sent them.
\<close>

definition batches_known :: "(nat \<Rightarrow> nat \<times> nat) \<Rightarrow> batch set \<Rightarrow> bool" where
  "batches_known f bs \<longleftrightarrow> (\<forall>b \<in> bs. f (b_index b) = (b_documents b, byte_len b))"

definition reports_inv :: "pipe_config \<Rightarrow> (nat \<Rightarrow> nat \<times> nat) \<Rightarrow> nat set \<Rightarrow> pipe \<Rightarrow> bool" where
  "reports_inv cfg f got p \<longleftrightarrow>
     tracker_inv f (pc_resume cfg) got (p_tracker p) \<and> t_next (p_tracker p) \<notin> got
     \<and> got \<subseteq> b_index ` set (p_acked p)
     \<and> set (concat (map reporting (p_workers p))) \<subseteq> set (p_acked p)
     \<and> set (p_done p) \<subseteq> batch_done_of ` set (p_acked p)
     \<and> (pc_checkpointing cfg \<longrightarrow> b_index ` set (p_acked p) \<subseteq>
          got \<union> d_index ` set (p_done p) \<union> b_index ` set (concat (map reporting (p_workers p))))"

lemma reports_inv_start: "reports_inv cfg f {} (pipe_start cfg now batches)"
  using tracker_new_inv [of f "pc_resume cfg" now]
  by (simp add: reports_inv_def pipe_start_def map_replicate_const concat_replicate_trivial)

lemma checkpoint_step_tracker:
  assumes "tracker_inv f resume got t" "(d_documents b, d_bytes b) = f (d_index b)"
  shows "tracker_inv f resume (insert (d_index b) got) (fst (checkpoint_step interval (b, now) t))
    \<and> t_next (fst (checkpoint_step interval (b, now) t)) \<notin> insert (d_index b) got"
  using receive_inv [OF assms]
  by (auto simp: checkpoint_step_def Let_def tracker_inv_written)

lemma reports_inv_step:
  assumes "pipe_step cfg p p'" "reports_inv cfg f got p" "batches_known f (set (p_acked p))"
  shows "\<exists>got'. reports_inv cfg f got' p'"
  using assms
proof (induction rule: pipe_step.induct)
  case (checkpoint p d ds now)
  then obtain b where b: "b \<in> set (p_acked p)" "d = batch_done_of b"
    by (auto simp: reports_inv_def)
  then have d: "(d_documents d, d_bytes d) = f (d_index d)" "d_index d = b_index b"
    using checkpoint(3) by (auto simp: batches_known_def batch_done_of_def)
  have "reports_inv cfg f (insert (d_index d) got)
      (p\<lparr>p_done := ds, p_tracker := fst (checkpoint_step (pc_interval cfg) (d, now) (p_tracker p))\<rparr>)"
    using checkpoint(1,2) b(1) d
      checkpoint_step_tracker [of f "pc_resume cfg" got "p_tracker p" d "pc_interval cfg" now]
    by (auto simp: reports_inv_def)
  then show ?case by blast
next
  case (send_ok p u b n s v rtt now r)
  then have "reports_inv cfg f got (p\<lparr>p_workers := u @ (Reporting b n, summary_record (b, r) s) # v,
       p_limiter := record_success (adaptive_config_new (pc_adaptive cfg) (pc_workers cfg)) rtt now (p_limiter p),
       p_acked := p_acked p @ [b]\<rparr>)"
    by (auto simp: reports_inv_def)
  then show ?case by blast
next
  case (report p u b n s v)
  then have "reports_inv cfg f got (p\<lparr>p_workers := u @ (Idle, s) # v,
       p_done := p_done p @ [batch_done_of b], p_sem := p_sem p + n\<rparr>)"
    by (auto simp: reports_inv_def batch_done_of_def)
  then show ?case by blast
qed (rule exI [of _ got], auto simp: reports_inv_def)+

section \<open>Reachable states\<close>

lemma acked_subset: "pipe_reach cfg batches p \<Longrightarrow> set (p_acked p) \<subseteq> set (oks batches)"
  using whereabouts_reach [of cfg batches p]
  by (metis (no_types, lifting) UnCI set_mset_mset set_mset_union subsetI whereabouts_def)

lemma permits_inv_reach: "pipe_reach cfg batches p \<Longrightarrow> permits_inv cfg p"
  by (induction rule: pipe_reach.induct) (auto intro: permits_inv_start permits_inv_step)

lemma governor_inv_reach: "pipe_reach cfg batches p \<Longrightarrow> governor_inv cfg p"
  by (induction rule: pipe_reach.induct) (auto intro: governor_inv_start governor_inv_step)

lemma ending_inv_reach: "pipe_reach cfg batches p \<Longrightarrow> ending_inv cfg p"
  by (induction rule: pipe_reach.induct) (auto intro: ending_inv_start ending_inv_step)

lemma fresh_inv_reach: "pipe_reach cfg batches p \<Longrightarrow> fresh_inv cfg p"
  by (induction rule: pipe_reach.induct) (auto intro: fresh_inv_start fresh_inv_step)

lemma reports_inv_reach:
  assumes "pipe_reach cfg batches p" "batches_known f (set (oks batches))"
  shows "\<exists>got. reports_inv cfg f got p"
  using assms(1)
proof (induction rule: pipe_reach.induct)
  case (start now)
  then show ?case using reports_inv_start by blast
next
  case (step p p')
  then have "batches_known f (set (p_acked p))"
    using acked_subset [OF step(1)] assms(2) by (auto simp: batches_known_def)
  then show ?case using step reports_inv_step by blast
qed

definition input_inv :: "batch res list \<Rightarrow> pipe \<Rightarrow> bool" where
  "input_inv batches p \<longleftrightarrow> (\<exists>taken. batches = map Inr taken @ p_input p)"

lemma input_inv_reach: "pipe_reach cfg batches p \<Longrightarrow> input_inv batches p"
proof (induction rule: pipe_reach.induct)
  case (start now)
  then show ?case by (auto simp: input_inv_def pipe_start_def)
next
  case (step p p')
  from step(2,3) show ?case
  proof (induction rule: pipe_step.induct)
    case (skip p b rest)
    then obtain taken where "batches = map Inr (taken @ [b]) @ rest" by (auto simp: input_inv_def)
    then show ?case unfolding input_inv_def by (intro exI [of _ "taken @ [b]"]) simp
  next
    case (permit p b rest n)
    then obtain taken where "batches = map Inr (taken @ [b]) @ rest" by (auto simp: input_inv_def)
    then show ?case unfolding input_inv_def by (intro exI [of _ "taken @ [b]"]) simp
  qed (simp_all add: input_inv_def)
qed

text \<open>The workers' summaries add up to the accepted batches.\<close>

definition summary_inv :: "pipe \<Rightarrow> bool" where
  "summary_inv p \<longleftrightarrow>
     sum_list (map (is_batches \<circ> snd) (p_workers p)) = length (p_acked p)
     \<and> sum_list (map (is_documents_sent \<circ> snd) (p_workers p)) = sum_list (map b_documents (p_acked p))
     \<and> sum_list (map (is_bytes_sent \<circ> snd) (p_workers p)) = sum_list (map byte_len (p_acked p))"

lemma summary_inv_step: "pipe_step cfg p p' \<Longrightarrow> summary_inv p \<Longrightarrow> summary_inv p'"
  by (induction rule: pipe_step.induct) (auto simp: summary_inv_def summary_record_def)

lemma summary_inv_reach: "pipe_reach cfg batches p \<Longrightarrow> summary_inv p"
proof (induction rule: pipe_reach.induct)
  case (start now)
  then show ?case
    by (simp add: summary_inv_def pipe_start_def summary_default_def sum_list_replicate)
qed (rule summary_inv_step)

lemma fold_merge:
  "is_batches (fold (\<lambda>w acc. summary_merge acc (snd w)) ws s) = is_batches s + sum_list (map (is_batches \<circ> snd) ws)"
  "is_documents_sent (fold (\<lambda>w acc. summary_merge acc (snd w)) ws s)
     = is_documents_sent s + sum_list (map (is_documents_sent \<circ> snd) ws)"
  "is_bytes_sent (fold (\<lambda>w acc. summary_merge acc (snd w)) ws s)
     = is_bytes_sent s + sum_list (map (is_bytes_sent \<circ> snd) ws)"
  by (induction ws arbitrary: s) (simp_all add: summary_merge_def)

lemma pipe_summary_totals:
  assumes "pipe_reach cfg batches p"
  shows "is_batches (pipe_summary p) = length (p_acked p)
    \<and> is_documents_sent (pipe_summary p) = sum_list (map b_documents (p_acked p))
    \<and> is_bytes_sent (pipe_summary p) = sum_list (map byte_len (p_acked p))"
  using summary_inv_reach [OF assms]
  by (simp add: pipe_summary_def fold_merge summary_default_def summary_inv_def)

text \<open>The numbers that the batcher gives are distinct.\<close>

definition numbered_after :: "nat \<Rightarrow> batch list \<Rightarrow> bool" where
  "numbered_after i bs \<longleftrightarrow> sorted_wrt (<) (map b_index bs) \<and> (\<forall>b \<in> set bs. i < b_index b)"

lemma numbered_after_Cons:
  "numbered_after (i + 1) bs \<Longrightarrow> b_index b = i + 1 \<Longrightarrow> numbered_after i (b # bs)"
  by (auto simp: numbered_after_def)

lemma into_batches_from_indices:
  "numbered_after index (oks (into_batches_from ser cfg body cnt index docs))"
proof (induction ser cfg body cnt index docs rule: into_batches_from.induct)
  case (3 ser cfg body cnt index d docs)
  show ?case
  proof (cases "ser d")
    case (Inl e)
    then show ?thesis by (simp add: numbered_after_def)
  next
    case (Inr line)
    define flush where "flush = (cnt > 0 \<and> length body + length line + 1 > max_bytes cfg)"
    define i1 where "i1 = (if flush then index + 1 else index)"
    define b1 where "b1 = (if flush then [] else body) @ line @ [newline]"
    define c1 where "c1 = (if flush then 0 else cnt) + 1"
    define rest where "rest = (if c1 \<ge> max_docs cfg
      then \<lparr>b_body = b1, b_documents = c1, b_index = i1 + 1\<rparr> # oks (into_batches_from ser cfg [] 0 (i1 + 1) docs)
      else oks (into_batches_from ser cfg b1 c1 i1 docs))"
    have eq: "oks (into_batches_from ser cfg body cnt index (Inr d # docs))
        = (if flush then [\<lparr>b_body = body, b_documents = cnt, b_index = index + 1\<rparr>] else []) @ rest"
      using Inr by (simp add: Let_def flush_def i1_def b1_def c1_def rest_def)
    note IH = 3(1,2) [OF Inr flush_def refl i1_def b1_def c1_def]
    have "numbered_after i1 rest"
      using IH by (auto simp: rest_def intro: numbered_after_Cons)
    then show ?thesis
      unfolding eq by (auto simp: i1_def intro!: numbered_after_Cons)
  qed
qed (auto simp: numbered_after_def)

lemma into_batches_distinct: "distinct (map b_index (oks (into_batches ser cfg docs)))"
  using into_batches_from_indices [of 0 ser cfg "[]" 0 docs]
  by (simp add: into_batches_def numbered_after_def strict_sorted_iff)

lemma batches_known_exists:
  assumes "distinct (map b_index bs)"
  shows "\<exists>f. batches_known f (set bs)"
proof -
  let ?m = "map_of (map (\<lambda>b. (b_index b, (b_documents b, byte_len b))) bs)"
  have "?m (b_index b) = Some (b_documents b, byte_len b)" if "b \<in> set bs" for b
    using assms that by (intro map_of_is_SomeI) (auto simp: comp_def)
  then show ?thesis
    by (intro exI [of _ "\<lambda>i. the (?m i)"]) (auto simp: batches_known_def)
qed

section \<open>Termination\<close>

fun stage_weight :: "worker \<Rightarrow> nat" where
  "stage_weight (Idle, s) = 1"
| "stage_weight (Waiting b n, s) = 5"
| "stage_weight (Sending b n, s) = 4"
| "stage_weight (Reporting b n, s) = 3"
| "stage_weight (Finished, s) = 0"
| "stage_weight (Failed e, s) = 0"

definition pipe_weight :: "pipe \<Rightarrow> nat" where
  "pipe_weight p = 7 * length (p_input p) + (if p_hold p = None then 0 else 6)
     + (if p_closed p then 0 else 1) + 5 * length (p_queue p)
     + sum_list (map stage_weight (p_workers p)) + length (p_done p)"

lemma pipe_weight_step: "pipe_step cfg p p' \<Longrightarrow> pipe_weight p' < pipe_weight p"
  by (induction rule: pipe_step.induct) (auto simp: pipe_weight_def)

lemma pipe_weight_start: "pipe_weight (pipe_start cfg now batches) = 7 * length batches + pc_workers cfg + 1"
  by (simp add: pipe_weight_def pipe_start_def sum_list_replicate)

lemma pipe_weight_steps: "(pipe_step cfg ^^ n) p p' \<Longrightarrow> pipe_weight p' + n \<le> pipe_weight p"
proof (induction n arbitrary: p')
  case (Suc n)
  then obtain q where "(pipe_step cfg ^^ n) p q" "pipe_step cfg q p'" by auto
  then show ?case using Suc.IH pipe_weight_step by fastforce
qed simp

section \<open>Progress\<close>

lemma permits_for_le: "permits_for n cap \<le> semaphore_permits cap"
  by (auto simp: permits_for_def semaphore_permits_def max_permits_def min_def)

lemma producer_moves:
  assumes "\<not> p_closed p" "p_hold p = None" "p_sem p = semaphore_permits (pc_cap cfg)"
  shows "\<exists>p'. pipe_step cfg p p'"
proof (cases "p_input p")
  case Nil
  then show ?thesis using assms pipe_step.input_end by blast
next
  case (Cons x rest)
  show ?thesis
  proof (cases x)
    case (Inl e)
    then show ?thesis using assms Cons pipe_step.input_error by blast
  next
    case (Inr b)
    show ?thesis
    proof (cases "b_index b \<le> committed_batches (pc_resume cfg)")
      case True
      then show ?thesis using assms Cons Inr pipe_step.skip by blast
    next
      case False
      then show ?thesis
        using assms Cons Inr pipe_step.permit [of p b rest cfg] permits_for_le [of "byte_len b" "pc_cap cfg"]
        by (metis not_le)
    qed
  qed
qed

lemma busy_worker_moves:
  assumes "pipe_reach cfg batches p" "0 < pc_workers cfg" "p_done p = []"
    and w: "(st, s) \<in> set (p_workers p)" "load (st, s) \<noteq> []"
  shows "\<exists>p'. pipe_step cfg p p'"
proof -
  obtain u v where uv: "p_workers p = u @ (st, s) # v" using split_list [OF w(1)] by blast
  show ?thesis
  proof (cases "\<exists>b n s. (Sending b n, s) \<in> set (p_workers p)")
    case True
    then obtain b n s' where "(Sending b n, s') \<in> set (p_workers p)" by blast
    then obtain u' v' where "p_workers p = u' @ (Sending b n, s') # v'" using split_list by metis
    then show ?thesis using pipe_step.send_ok by blast
  next
    case none: False
    show ?thesis
    proof (cases st)
      case (Waiting b n)
      have "filter sending (p_workers p) = []"
        using none by (auto simp: filter_empty_conv sending_def split: stage.splits)
      then have "l_in_flight (p_limiter p) = 0" "1 \<le> l_limit (p_limiter p)"
        using governor_inv_reach [OF assms(1)]
        by (auto simp: governor_inv_def limiter_inv_def adaptive_config_new_def)
      then have "\<exists>l. try_acquire (p_limiter p) = Some l" by (simp add: try_acquire_def)
      then show ?thesis using uv Waiting pipe_step.slot by blast
    next
      case (Reporting b n)
      then show ?thesis
        using uv assms(2,3) pipe_step.report [of p u b n s v cfg] pipe_step.no_report [of p u b n s v cfg]
        by (cases "pc_checkpointing cfg") auto
    qed (use w none in auto)
  qed
qed

lemma pipe_progress:
  assumes "pipe_reach cfg batches p" "0 < pc_workers cfg" "\<not> pipe_over p"
  shows "\<exists>p'. pipe_step cfg p p'"
proof -
  have en: "ending_inv cfg p" by (rule ending_inv_reach [OF assms(1)])
  consider (reports) d ds where "p_done p = d # ds"
    | (busy) st s where "p_done p = []" "(st, s) \<in> set (p_workers p)" "load (st, s) \<noteq> []"
    | (quiet) "p_done p = []" "\<forall>w \<in> set (p_workers p). load w = []"
    by (metis neq_Nil_conv surj_pair)
  then show ?thesis
  proof cases
    case reports
    then show ?thesis using pipe_step.checkpoint by blast
  next
    case busy
    then show ?thesis using busy_worker_moves [OF assms(1,2)] by blast
  next
    case quiet
    have nil: "concat (map load (p_workers p)) = []" using quiet(2) by simp
    have sem: "p_sem p = semaphore_permits (pc_cap cfg)" if "p_hold p = None" "p_queue p = []"
      using permits_inv_reach [OF assms(1)] that nil by (simp add: permits_inv_def held_def)
    show ?thesis
    proof (cases "\<forall>w \<in> set (p_workers p). exited w")
      case True
      show ?thesis
      proof (cases "p_queue p = []")
        case False
        then show ?thesis using True pipe_step.receiver_gone by blast
      next
        case q: True
        show ?thesis
        proof (cases "p_hold p")
          case None
          then have "\<not> p_closed p" using True q quiet(1) assms(3) by (auto simp: pipe_over_def)
          then show ?thesis using producer_moves None sem q by blast
        next
          case (Some x)
          then show ?thesis using True pipe_step.enqueue_fails by (cases x) blast
        qed
      qed
    next
      case False
      then obtain w where w: "w \<in> set (p_workers p)" "\<not> exited w" by blast
      then obtain s where "w = (Idle, s)" using quiet(2) by (cases w rule: load.cases) auto
      then obtain u v where uv: "p_workers p = u @ (Idle, s) # v" using w(1) split_list by metis
      show ?thesis
      proof (cases "p_queue p")
        case (Cons x q)
        then show ?thesis using uv pipe_step.take_batch by (cases x) blast
      next
        case q: Nil
        show ?thesis
        proof (cases "p_closed p")
          case True
          then show ?thesis using uv q pipe_step.finish by blast
        next
          case open': False
          show ?thesis
          proof (cases "p_hold p")
            case None
            then show ?thesis using producer_moves open' sem q by blast
          next
            case (Some x)
            then show ?thesis
              using w q assms(2) pipe_step.enqueue [of p "fst x" "snd x" cfg] by auto
          qed
        qed
      qed
    qed
  qed
qed

section \<open>Properties\<close>

text \<open>
  C5: memory is bounded by the configuration: in every reachable state the batches that hold a
  permit, those queued, waiting for a send slot, in transit or being reported, count together for
  at most the in-flight budget, each with its size, cut at the budget and at \<open>2^32 - 1\<close>, the most
  permits one batch can ask for.  So they are at most the budget in bytes as long as none of them
  exceeds it or has 4 GiB; and below a budget of 4 GiB a batch that does exceed it takes all of it,
  so every other batch that holds a permit is empty.  Outside this count there is one batch at
  most, the one the producer wants a permit for.
\<close>

theorem pipeline_memory_bound:
  assumes "pipe_reach cfg batches p"
  shows "sum_list (map (\<lambda>x. min (min (byte_len (fst x)) (pc_cap cfg)) (2^32 - 1)) (held p)) \<le> pc_cap cfg
    \<and> ((\<forall>x \<in> set (held p). byte_len (fst x) \<le> pc_cap cfg \<and> byte_len (fst x) < 2^32)
        \<longrightarrow> sum_list (map (\<lambda>x. byte_len (fst x)) (held p)) \<le> pc_cap cfg)
    \<and> (pc_cap cfg < 2^32 \<longrightarrow> (\<forall>us x vs. held p = us @ x # vs \<and> pc_cap cfg \<le> byte_len (fst x) \<and> 0 < pc_cap cfg
        \<longrightarrow> (\<forall>y \<in> set (us @ vs). byte_len (fst y) = 0)))"
proof -
  have inv: "permits_inv cfg p" by (rule permits_inv_reach [OF assms(1)])
  let ?cost = "\<lambda>x :: batch \<times> nat. min (min (byte_len (fst x)) (pc_cap cfg)) (2^32 - 1)"
  have cost: "min (min n c) (2^32 - 1) = permits_for n c" for n c :: nat
    by (auto simp: permits_for_def min_def)
  have eq: "map snd (held p) = map ?cost (held p)"
  proof (rule map_cong [OF refl])
    fix x assume "x \<in> set (held p)"
    then show "snd x = ?cost x" unfolding cost using inv by (auto simp: permits_inv_def)
  qed
  have "sum_list (map snd (held p)) \<le> semaphore_permits (pc_cap cfg)"
    using inv unfolding permits_inv_def by linarith
  also have "\<dots> \<le> pc_cap cfg" by (simp add: semaphore_permits_def)
  finally have bound: "sum_list (map ?cost (held p)) \<le> pc_cap cfg" unfolding eq .
  have exact: "map (\<lambda>x. byte_len (fst x)) (held p) = map ?cost (held p)"
    if "\<forall>x \<in> set (held p). byte_len (fst x) \<le> pc_cap cfg \<and> byte_len (fst x) < 2^32"
    using that by (intro map_cong) (auto simp: min_def)
  have alone: "byte_len (fst y) = 0"
    if "pc_cap cfg < 2^32" "held p = us @ x # vs" "pc_cap cfg \<le> byte_len (fst x)" "0 < pc_cap cfg" "y \<in> set (us @ vs)"
    for us x vs y
  proof -
    have "?cost x = pc_cap cfg" using that(1,3) by (simp add: min_def)
    moreover have "sum_list (map ?cost (held p)) = ?cost x + sum_list (map ?cost (us @ vs))" by (simp add: that(2))
    ultimately have "sum_list (map ?cost (us @ vs)) = 0" using bound by linarith
    moreover have "?cost y \<le> sum_list (map ?cost (us @ vs))"
      by (rule member_le_sum_list) (use that(5) in auto)
    ultimately have "?cost y = 0" by linarith
    then show ?thesis using that(4) by (simp add: min_def split: if_splits)
  qed
  show ?thesis
  proof (intro conjI impI allI ballI)
    show "sum_list (map ?cost (held p)) \<le> pc_cap cfg" by (rule bound)
  next
    assume "\<forall>x \<in> set (held p). byte_len (fst x) \<le> pc_cap cfg \<and> byte_len (fst x) < 2^32"
    from exact [OF this] bound show "sum_list (map (\<lambda>x. byte_len (fst x)) (held p)) \<le> pc_cap cfg" by metis
  next
    fix us x vs y
    assume "pc_cap cfg < 2^32" "held p = us @ x # vs \<and> pc_cap cfg \<le> byte_len (fst x) \<and> 0 < pc_cap cfg" "y \<in> set (us @ vs)"
    then show "byte_len (fst y) = 0" using alone by blast
  qed
qed

definition sample_config :: pipe_config where
  "sample_config = \<lparr>pc_workers = 2, pc_cap = 10, pc_adaptive = True, pc_interval = 1,
     pc_checkpointing = True, pc_resume = import_checkpoint_default\<rparr>"

definition sample_batches :: "batch res list" where
  "sample_batches = into_batches Inr \<lparr>max_bytes = 8, max_docs = 1\<rparr> [Inr ''{1}'', Inr ''{2}'']"

lemma pipeline_memory_bound_witness:
  "\<exists>p. pipe_reach sample_config sample_batches p \<and> held p \<noteq> []
     \<and> sum_list (map (\<lambda>x. min (min (byte_len (fst x)) 10) (2^32 - 1)) (held p)) \<le> 10"
proof -
  let ?p0 = "pipe_start sample_config 0 sample_batches"
  have b: "sample_batches = [Inr \<lparr>b_body = ''{1}'' @ [newline], b_documents = 1, b_index = 1\<rparr>,
     Inr \<lparr>b_body = ''{2}'' @ [newline], b_documents = 1, b_index = 2\<rparr>]"
    by code_simp
  let ?b = "\<lparr>b_body = ''{1}'' @ [newline], b_documents = 1, b_index = 1\<rparr>"
  let ?p1 = "?p0\<lparr>p_input := tl sample_batches, p_hold := Some (?b, 4), p_sem := p_sem ?p0 - 4\<rparr>"
  have "pipe_step sample_config ?p0 ?p1"
    by (rule pipe_step.permit)
       (simp_all add: pipe_start_def b sample_config_def import_checkpoint_default_def permits_for_def
          byte_len_def semaphore_permits_def max_permits_def)
  then have r: "pipe_reach sample_config sample_batches ?p1"
    by (rule pipe_reach.step [OF pipe_reach.start])
  have "held ?p1 \<noteq> []" by (simp add: held_def)
  moreover have "pc_cap sample_config = 10" by (simp add: sample_config_def)
  ultimately show ?thesis
    using pipeline_memory_bound [OF r] r by (intro exI [of _ ?p1]) simp
qed

text \<open>
  C4: no step of the pipeline can deadlock it and no run is endless: from every reachable
  state that is not the end of the run some step is possible, and a run over a given number of
  batches takes at most seven steps per batch plus one per worker and one.
\<close>

theorem pipeline_terminates:
  assumes "0 < pc_workers cfg"
  shows "(\<forall>p. pipe_reach cfg batches p \<and> \<not> pipe_over p \<longrightarrow> (\<exists>p'. pipe_step cfg p p'))
    \<and> (\<forall>n p now. (pipe_step cfg ^^ n) (pipe_start cfg now batches) p
         \<longrightarrow> n \<le> 7 * length batches + pc_workers cfg + 1)"
proof (intro conjI allI impI)
  fix p assume "pipe_reach cfg batches p \<and> \<not> pipe_over p"
  then show "\<exists>p'. pipe_step cfg p p'" using pipe_progress assms by blast
next
  fix n p now assume "(pipe_step cfg ^^ n) (pipe_start cfg now batches) p"
  then show "n \<le> 7 * length batches + pc_workers cfg + 1"
    using pipe_weight_steps pipe_weight_start by (metis add_leD2)
qed

lemma pipeline_terminates_witness:
  "\<exists>p'. pipe_step sample_config (pipe_start sample_config 0 sample_batches) p'"
proof -
  have "0 < pc_workers sample_config" by (simp add: sample_config_def)
  moreover have "\<not> pipe_over (pipe_start sample_config 0 sample_batches)"
    by (simp add: pipe_over_def pipe_start_def)
  ultimately show ?thesis
    using pipeline_terminates [of sample_config sample_batches] pipe_reach.start by blast
qed

lemma tracker_claims_accepted:
  assumes "pipe_reach cfg (into_batches ser bc docs) p" "pc_checkpointing cfg"
  shows "(\<forall>i. committed_batches (pc_resume cfg) < i \<and> i \<le> committed_batches (t_state (p_tracker p))
         \<longrightarrow> (\<exists>b \<in> set (p_acked p). b_index b = i))
    \<and> (pipe_over p \<longrightarrow> contiguous (committed_batches (pc_resume cfg)) (b_index ` set (p_acked p))
           (committed_batches (t_state (p_tracker p))))"
proof -
  obtain f where f: "batches_known f (set (oks (into_batches ser bc docs)))"
    using batches_known_exists [OF into_batches_distinct] by blast
  obtain got where r: "reports_inv cfg f got p" using reports_inv_reach [OF assms(1) f] by blast
  let ?c = "committed_batches (t_state (p_tracker p))"
  have t: "tracker_inv f (pc_resume cfg) got (p_tracker p)" "t_next (p_tracker p) \<notin> got"
    "got \<subseteq> b_index ` set (p_acked p)"
    using r by (auto simp: reports_inv_def)
  have c: "?c = t_next (p_tracker p) - 1"
    using t(1) by (simp add: tracker_inv_def checkpoint_at_def)
  have cont: "contiguous (committed_batches (pc_resume cfg)) got ?c"
    using tracker_contiguous [OF t(1,2)] c by simp
  have "pipe_over p \<Longrightarrow> b_index ` set (p_acked p) \<subseteq> got"
  proof -
    assume "pipe_over p"
    then have "p_done p = []" "\<forall>w \<in> set (p_workers p). reporting w = []"
      by (auto simp: pipe_over_def elim!: exited.elims)
    then show "b_index ` set (p_acked p) \<subseteq> got"
      using r assms(2) by (auto simp: reports_inv_def)
  qed
  then have done_all: "pipe_over p \<Longrightarrow> b_index ` set (p_acked p) = got" using t(3) by blast
  have "\<exists>b \<in> set (p_acked p). b_index b = i" if "i \<in> got" for i
    using that t(3) by force
  moreover have "{committed_batches (pc_resume cfg)<..?c} \<subseteq> got"
    using cont by (simp add: contiguous_def)
  ultimately show ?thesis using cont done_all by (simp add: subset_iff)
qed

text \<open>
  C6: at every moment of a run, the checkpoint that the task holds (the one it writes next)
  claims only batches that the server has accepted: every batch number above the resumed mark
  and up to the checkpoint's mark belongs to an accepted batch.  When the run is over the mark
  is the end of the longest contiguous run of accepted batches.
\<close>

theorem pipeline_checkpoint_safe:
  assumes "pipe_reach cfg (into_batches ser bc docs) p" "pc_checkpointing cfg"
  shows "(\<forall>i. committed_batches (pc_resume cfg) < i \<and> i \<le> committed_batches (t_state (p_tracker p))
         \<longrightarrow> (\<exists>b \<in> set (p_acked p). b_index b = i))
    \<and> (pipe_over p \<longrightarrow> contiguous (committed_batches (pc_resume cfg)) (b_index ` set (p_acked p))
           (committed_batches (t_state (p_tracker p))))"
  using assms by (rule tracker_claims_accepted)

lemma pipeline_checkpoint_safe_witness:
  "\<exists>p. pipe_reach sample_config sample_batches p
     \<and> committed_batches (t_state (p_tracker p)) = 0 \<and> \<not> pipe_over p"
proof -
  let ?p = "pipe_start sample_config 0 sample_batches"
  have r: "pipe_reach sample_config (into_batches Inr \<lparr>max_bytes = 8, max_docs = 1\<rparr> [Inr ''{1}'', Inr ''{2}'']) ?p"
    unfolding sample_batches_def by (rule pipe_reach.start)
  have "pc_checkpointing sample_config" by (simp add: sample_config_def)
  from pipeline_checkpoint_safe [OF r this]
  have "\<not> 0 < committed_batches (t_state (p_tracker ?p))"
    by (auto simp: sample_config_def pipe_start_def import_checkpoint_default_def tracker_new_def)
  moreover have "\<not> pipe_over ?p" by (simp add: pipe_over_def pipe_start_def)
  ultimately show ?thesis using r by (auto simp: sample_batches_def)
qed

lemma success_accepts_all:
  assumes "pipe_reach cfg (into_batches ser bc docs) p" "pipe_over p" "0 < pc_workers cfg"
    and "pipe_result order p = Inr s" "set order = set (p_workers p)"
  shows "\<exists>bs. into_batches ser bc docs = map Inr bs
    \<and> mset (p_acked p) = mset (filter (\<lambda>b. committed_batches (pc_resume cfg) < b_index b) bs)
    \<and> is_batches s = length (p_acked p)
    \<and> is_documents_sent s = sum_list (map b_documents (p_acked p))
    \<and> is_bytes_sent s = sum_list (map byte_len (p_acked p))"
proof -
  have nofail: "p_error p = None" "\<forall>w \<in> set (p_workers p). \<not> failed w" "s = pipe_summary p"
  proof -
    show "p_error p = None" using assms(4) by (cases "p_error p") (auto simp: pipe_result_def)
    then have none: "List.map_filter worker_error order = []" and "s = pipe_summary p"
      using assms(4) by (auto simp: pipe_result_def split: list.splits)
    show "s = pipe_summary p" by fact
    show "\<forall>w \<in> set (p_workers p). \<not> failed w"
    proof
      fix w assume "w \<in> set (p_workers p)"
      then have "worker_error w = None"
        using none assms(5) by (auto simp: map_filter_def filter_empty_conv)
      then show "\<not> failed w" by (auto simp: worker_error_def failed_def split: stage.splits)
    qed
  qed
  have en: "ending_inv cfg p" by (rule ending_inv_reach [OF assms(1)])
  have "length (p_workers p) = pc_workers cfg" using en by (simp add: ending_inv_def)
  then obtain w where w: "w \<in> set (p_workers p)"
    using assms(3) by (cases "p_workers p") auto
  have over: "p_closed p" "p_hold p = None" "p_queue p = []" "\<forall>w \<in> set (p_workers p). exited w"
    using assms(2) by (auto simp: pipe_over_def)
  have input: "p_input p = []" "p_dropped p = []" "p_failed p = []"
    using en nofail(1,2) w over(1) unfolding ending_inv_def by blast+
  obtain bs where bs: "into_batches ser bc docs = map Inr bs"
    using input_inv_reach [OF assms(1)] input(1) by (auto simp: input_inv_def)
  have oks: "oks (map Inr xs) = xs" for xs :: "batch list" by (induction xs) auto
  have uns: "concat (map unsent (p_workers p)) = []"
    using over(4) by (auto elim!: exited.elims)
  have "mset bs = mset (p_acked p) + mset (p_skipped p)"
    using whereabouts_reach [OF assms(1)] input over uns
    by (simp add: whereabouts_def bs oks del: concat_eq_Nil_conv)
  then have "filter_mset (\<lambda>b. committed_batches (pc_resume cfg) < b_index b) (mset bs)
     = filter_mset (\<lambda>b. committed_batches (pc_resume cfg) < b_index b) (mset (p_acked p))
       + filter_mset (\<lambda>b. committed_batches (pc_resume cfg) < b_index b) (mset (p_skipped p))"
    by simp
  moreover have fresh: "fresh_inv cfg p" by (rule fresh_inv_reach [OF assms(1)])
  have "filter_mset (\<lambda>b. committed_batches (pc_resume cfg) < b_index b) (mset (p_acked p)) = mset (p_acked p)"
    using fresh by (simp add: fresh_inv_def filter_mset_eq_conv)
  moreover have "filter_mset (\<lambda>b. committed_batches (pc_resume cfg) < b_index b) (mset (p_skipped p)) = {#}"
    using fresh unfolding fresh_inv_def by (simp add: not_less)
  ultimately have "mset (p_acked p) = mset (filter (\<lambda>b. committed_batches (pc_resume cfg) < b_index b) bs)"
    by simp
  then show ?thesis
    using bs pipe_summary_totals [OF assms(1)] nofail(3) by blast
qed

text \<open>
  C3: a run that reports success has imported everything once: the input had no error, the
  accepted batches are exactly the batches above the resumed mark, each accepted exactly once,
  and the reported batch, document and byte totals are those of the accepted batches.
\<close>

theorem pipeline_success_complete:
  assumes "pipe_reach cfg (into_batches ser bc docs) p" "pipe_over p" "0 < pc_workers cfg"
    and "pipe_result order p = Inr s" "set order = set (p_workers p)"
  shows "\<exists>bs. into_batches ser bc docs = map Inr bs
    \<and> mset (p_acked p) = mset (filter (\<lambda>b. committed_batches (pc_resume cfg) < b_index b) bs)
    \<and> is_batches s = length (p_acked p)
    \<and> is_documents_sent s = sum_list (map b_documents (p_acked p))
    \<and> is_bytes_sent s = sum_list (map byte_len (p_acked p))"
  using assms by (rule success_accepts_all)

text \<open>One worker takes one batch through the whole pipeline.\<close>

definition tiny_config :: pipe_config where
  "tiny_config = \<lparr>pc_workers = 1, pc_cap = 10, pc_adaptive = False, pc_interval = 1,
     pc_checkpointing = False, pc_resume = import_checkpoint_default\<rparr>"

definition tiny_state ::
  "batch res list \<Rightarrow> (batch \<times> nat) option \<Rightarrow> bool \<Rightarrow> nat \<Rightarrow> (batch \<times> nat) list \<Rightarrow> worker \<Rightarrow> limiter \<Rightarrow> batch list \<Rightarrow> pipe"
where
  "tiny_state input hold shut sem queue w l acked =
     (pipe_start tiny_config 0 [])\<lparr>p_input := input, p_hold := hold, p_closed := shut, p_sem := sem,
        p_queue := queue, p_workers := [w], p_limiter := l, p_acked := acked\<rparr>"

lemma tiny_run:
  assumes "byte_len b \<le> 10" "b_index b = 1"
  shows "\<exists>l. pipe_reach tiny_config [Inr b]
    (tiny_state [] None True 10 [] (Finished, summary_record (b, r) summary_default) l [b])"
proof -
  let ?n = "byte_len b" and ?c = "adaptive_config_new False 1"
  let ?l0 = "limiter_new ?c 0"
  let ?l1 = "?l0\<lparr>l_in_flight := 1\<rparr>"
  let ?l2 = "record_success ?c 0 0 ?l1"
  let ?s = "summary_record (b, r) summary_default"
  note defs = tiny_state_def tiny_config_def pipe_start_def import_checkpoint_default_def
  have sem: "semaphore_permits 10 = 10" by (simp add: semaphore_permits_def max_permits_def)
  have per: "permits_for ?n 10 = ?n" using assms(1) by (simp add: permits_for_def)
  have acq: "try_acquire ?l0 = Some ?l1"
    by (simp add: try_acquire_def limiter_new_def limiter_start_def adaptive_config_new_def)
  have "pipe_reach tiny_config [Inr b] (tiny_state [Inr b] None False 10 [] (Idle, summary_default) ?l0 [])"
    using pipe_reach.start [of tiny_config "[Inr b]" 0] by (simp add: defs sem)
  then have "pipe_reach tiny_config [Inr b]
      (tiny_state [] (Some (b, ?n)) False (10 - ?n) [] (Idle, summary_default) ?l0 [])"
    by (rule pipe_reach.step)
       (use pipe_step.permit [of "tiny_state [Inr b] None False 10 [] (Idle, summary_default) ?l0 []" b "[]"
          tiny_config ?n] assms per in \<open>simp add: defs\<close>)
  then have "pipe_reach tiny_config [Inr b]
      (tiny_state [] None False (10 - ?n) [(b, ?n)] (Idle, summary_default) ?l0 [])"
    by (rule pipe_reach.step)
       (use pipe_step.enqueue [of "tiny_state [] (Some (b, ?n)) False (10 - ?n) [] (Idle, summary_default) ?l0 []"
          b ?n tiny_config] in \<open>simp add: defs\<close>)
  then have "pipe_reach tiny_config [Inr b]
      (tiny_state [] None False (10 - ?n) [] (Waiting b ?n, summary_default) ?l0 [])"
    by (rule pipe_reach.step)
       (use pipe_step.take_batch [of "tiny_state [] None False (10 - ?n) [(b, ?n)] (Idle, summary_default) ?l0 []"
          "[]" summary_default "[]" b ?n "[]" tiny_config] in \<open>simp add: defs\<close>)
  then have "pipe_reach tiny_config [Inr b]
      (tiny_state [] None False (10 - ?n) [] (Sending b ?n, summary_default) ?l1 [])"
    by (rule pipe_reach.step)
       (use pipe_step.slot [of "tiny_state [] None False (10 - ?n) [] (Waiting b ?n, summary_default) ?l0 []"
          "[]" b ?n summary_default "[]" ?l1 tiny_config] acq in \<open>simp add: defs\<close>)
  then have "pipe_reach tiny_config [Inr b]
      (tiny_state [] None False (10 - ?n) [] (Reporting b ?n, ?s) ?l2 [b])"
    by (rule pipe_reach.step)
       (use pipe_step.send_ok [of "tiny_state [] None False (10 - ?n) [] (Sending b ?n, summary_default) ?l1 []"
          "[]" b ?n summary_default "[]" tiny_config 0 0 r] in \<open>simp add: defs\<close>)
  then have "pipe_reach tiny_config [Inr b] (tiny_state [] None False 10 [] (Idle, ?s) ?l2 [b])"
    by (rule pipe_reach.step)
       (use pipe_step.no_report [of "tiny_state [] None False (10 - ?n) [] (Reporting b ?n, ?s) ?l2 [b]"
          "[]" b ?n ?s "[]" tiny_config] assms in \<open>simp add: defs\<close>)
  then have "pipe_reach tiny_config [Inr b] (tiny_state [] None True 10 [] (Idle, ?s) ?l2 [b])"
    by (rule pipe_reach.step)
       (use pipe_step.input_end [of "tiny_state [] None False 10 [] (Idle, ?s) ?l2 [b]" tiny_config]
         in \<open>simp add: defs\<close>)
  then have "pipe_reach tiny_config [Inr b] (tiny_state [] None True 10 [] (Finished, ?s) ?l2 [b])"
    by (rule pipe_reach.step)
       (use pipe_step.finish [of "tiny_state [] None True 10 [] (Idle, ?s) ?l2 [b]" "[]" ?s "[]" tiny_config]
         in \<open>simp add: defs\<close>)
  then show ?thesis by blast
qed

definition tiny_batches :: "batch res list" where
  "tiny_batches = into_batches Inr \<lparr>max_bytes = 8, max_docs = 1\<rparr> [Inr ''{1}'']"

lemma tiny_success:
  "\<exists>p. pipe_reach tiny_config tiny_batches p \<and> pipe_over p
     \<and> pipe_result (p_workers p) p = Inr (pipe_summary p)
     \<and> length (p_acked p) = 1 \<and> sum_list (map b_documents (p_acked p)) = 1"
proof -
  let ?b = "\<lparr>b_body = ''{1}'' @ [newline], b_documents = 1, b_index = 1\<rparr>"
  let ?r = "\<lparr>ir_created = 1, ir_errors = 0, ir_empty = 0, ir_updated = 0, ir_ignored = 0\<rparr>"
  have bs: "tiny_batches = [Inr ?b]" unfolding tiny_batches_def by code_simp
  have small: "byte_len ?b \<le> 10" "b_index ?b = 1" by (simp_all add: byte_len_def)
  obtain l where r: "pipe_reach tiny_config tiny_batches
      (tiny_state [] None True 10 [] (Finished, summary_record (?b, ?r) summary_default) l [?b])"
    unfolding bs using tiny_run [OF small, of ?r] by (elim exE)
  let ?p = "tiny_state [] None True 10 [] (Finished, summary_record (?b, ?r) summary_default) l [?b]"
  have "pipe_over ?p" by (simp add: pipe_over_def tiny_state_def pipe_start_def)
  moreover have "pipe_result (p_workers ?p) ?p = Inr (pipe_summary ?p)"
    by (simp add: pipe_result_def tiny_state_def pipe_start_def worker_error_def map_filter_def)
  ultimately show ?thesis using r
    by (intro exI [of _ ?p] conjI) (simp_all add: tiny_state_def)
qed

lemma pipeline_success_complete_witness:
  "\<exists>p s. pipe_over p \<and> pipe_result (p_workers p) p = Inr s \<and> is_batches s = 1 \<and> is_documents_sent s = 1"
proof -
  obtain p where p: "pipe_reach tiny_config tiny_batches p" "pipe_over p"
    "pipe_result (p_workers p) p = Inr (pipe_summary p)" "length (p_acked p) = 1"
    "sum_list (map b_documents (p_acked p)) = 1"
    using tiny_success by blast
  have "0 < pc_workers tiny_config" by (simp add: tiny_config_def)
  from pipeline_success_complete [OF p(1) [unfolded tiny_batches_def] p(2) this p(3) refl] p
  have "is_batches (pipe_summary p) = 1 \<and> is_documents_sent (pipe_summary p) = 1" by auto
  then show ?thesis using p(2,3) by blast
qed

end
