(* ===== verification/Readers.thy ===== *)
theory Readers
  imports Batch Json
begin

text \<open>
  The incremental readers of \<open>arangodb-import/src/reader\<close>: the scanner that cuts a JSON array
  into its elements (\<open>json_array.rs\<close>) and the line reader (\<open>jsonl.rs\<close>).  The reader under
  them delivers chunks, each bytes or an I/O error; parsing one value is \<open>serde_json\<close>'s and
  is the parameter \<open>parse\<close>, whose failure carries its message.
\<close>

section \<open>The array scanner\<close>

record scanner =
  sc_started :: bool
  sc_finished :: bool
  sc_in_element :: bool
  sc_depth :: int
  sc_in_string :: bool
  sc_escaped :: bool
  sc_current :: bytes

definition scanner_new :: scanner where
  "scanner_new = \<lparr>sc_started = False, sc_finished = False, sc_in_element = False, sc_depth = 0,
     sc_in_string = False, sc_escaped = False, sc_current = []\<rparr>"

definition begin_element :: "scanner \<Rightarrow> scanner" where
  "begin_element s = s\<lparr>sc_in_element := True, sc_depth := 0, sc_in_string := False,
     sc_escaped := False, sc_current := []\<rparr>"

abbreviation quote :: char where "quote \<equiv> CHR 0x22"
abbreviation backslash :: char where "backslash \<equiv> CHR 0x5C"

definition consume_element_byte :: "char \<Rightarrow> scanner \<Rightarrow> scanner \<times> bool" where
  "consume_element_byte c s =
     (if sc_in_string s then
        (let s1 = s\<lparr>sc_current := sc_current s @ [c]\<rparr> in
         (if sc_escaped s1 then s1\<lparr>sc_escaped := False\<rparr>
          else if c = backslash then s1\<lparr>sc_escaped := True\<rparr>
          else if c = quote then s1\<lparr>sc_in_string := False\<rparr>
          else s1, False))
      else if sc_depth s = 0 \<and> (c = CHR '','' \<or> c = CHR '']'') then
        (if c = CHR '']'' then s\<lparr>sc_finished := True\<rparr> else s, True)
      else
        (let s1 = s\<lparr>sc_current := sc_current s @ [c]\<rparr> in
         (if c = quote then s1\<lparr>sc_in_string := True\<rparr>
          else if c = CHR ''{'' \<or> c = CHR ''['' then s1\<lparr>sc_depth := sc_depth s1 + 1\<rparr>
          else if c = CHR ''}'' \<or> c = CHR '']'' then s1\<lparr>sc_depth := sc_depth s1 - 1\<rparr>
          else s1, False)))"

definition feed_byte :: "char \<Rightarrow> scanner \<times> bytes list \<Rightarrow> (scanner \<times> bytes list) res" where
  "feed_byte c so = (let (s, out) = so in
     if sc_finished s then
       (if is_ascii_whitespace c then Inr (s, out)
        else Inl (parse_error ''trailing data after JSON array''))
     else if \<not> sc_started s then
       (if is_ascii_whitespace c then Inr (s, out)
        else if c = CHR ''['' then Inr (s\<lparr>sc_started := True\<rparr>, out)
        else Inl (parse_error (''expected '' @ [CHR 0x27] @ ''['' @ [CHR 0x27]
               @ '' at start of JSON array, found '' @ [CHR 0x27, c, CHR 0x27])))
     else if \<not> sc_in_element s \<and> (is_ascii_whitespace c \<or> c = CHR '','') then Inr (s, out)
     else if \<not> sc_in_element s \<and> c = CHR '']'' then Inr (s\<lparr>sc_finished := True\<rparr>, out)
     else
       (let (s2, complete) = consume_element_byte c (if sc_in_element s then s else begin_element s)
        in if complete
           then Inr (s2\<lparr>sc_current := [], sc_in_element := False\<rparr>, out @ [sc_current s2])
           else Inr (s2, out)))"

definition feed :: "bytes \<Rightarrow> scanner \<times> bytes list \<Rightarrow> (scanner \<times> bytes list) res" where
  "feed = fold_res feed_byte"

definition scanner_finish :: "scanner \<Rightarrow> unit res" where
  "scanner_finish s =
     (if \<not> sc_started s then Inl (parse_error ''expected a JSON array, found empty input'')
      else if \<not> sc_finished s then Inl (parse_error ''unterminated JSON array'')
      else Inr ())"

text \<open>The documents of the completed elements; a bad one ends the stream.\<close>

fun parse_elements ::
  "(bytes \<Rightarrow> string + 'd) \<Rightarrow> nat \<Rightarrow> bytes list \<Rightarrow> 'd res list \<times> nat option"
where
  "parse_elements parse index [] = ([], Some index)"
| "parse_elements parse index (x # xs) =
     (case parse x of
        Inl err \<Rightarrow> ([Inl (Parse (''invalid JSON array element: '' @ err) (Some (index + 1)) None)], None)
      | Inr v \<Rightarrow> (let (ds, n) = parse_elements parse (index + 1) xs in (Inr v # ds, n)))"

fun read_array_from ::
  "(bytes \<Rightarrow> string + 'd) \<Rightarrow> scanner \<Rightarrow> nat \<Rightarrow> (io_kind + bytes) list \<Rightarrow> 'd res list"
where
  "read_array_from parse s index [] =
     (case scanner_finish s of Inl e \<Rightarrow> [Inl e] | Inr _ \<Rightarrow> [])"
| "read_array_from parse s index (Inl k # chunks) = [Inl (Io k)]"
| "read_array_from parse s index (Inr chunk # chunks) =
     (if chunk = [] then (case scanner_finish s of Inl e \<Rightarrow> [Inl e] | Inr _ \<Rightarrow> [])
      else (case feed chunk (s, []) of
              Inl e \<Rightarrow> [Inl e]
            | Inr (s1, completed) \<Rightarrow>
                (case parse_elements parse index completed of
                   (ds, None) \<Rightarrow> ds
                 | (ds, Some index1) \<Rightarrow> ds @ read_array_from parse s1 index1 chunks)))"

definition read_array :: "(bytes \<Rightarrow> string + 'd) \<Rightarrow> (io_kind + bytes) list \<Rightarrow> 'd res list" where
  "read_array parse chunks = read_array_from parse scanner_new 0 chunks"

section \<open>Lines\<close>

text \<open>\<open>read_until(b'\\n')\<close> until the end: the lines with their terminators.\<close>

fun lines_of :: "bytes \<Rightarrow> bytes list" where
  "lines_of [] = []"
| "lines_of (c # cs) =
     (if c = newline then [c] # lines_of cs
      else (case lines_of cs of [] \<Rightarrow> [[c]] | l # ls \<Rightarrow> (c # l) # ls))"

definition trim_ascii :: "bytes \<Rightarrow> bytes" where
  "trim_ascii b = rev (dropWhile is_ascii_whitespace (rev (dropWhile is_ascii_whitespace b)))"

fun read_lines ::
  "(bytes \<Rightarrow> (string \<times> nat) + 'd) \<Rightarrow> nat \<Rightarrow> bytes list \<Rightarrow> 'd res list"
where
  "read_lines parse line_no [] = []"
| "read_lines parse line_no (l # ls) =
     (let trimmed = trim_ascii l in
      if trimmed = [] then read_lines parse (line_no + 1) ls
      else (case parse trimmed of
              Inl (err, col) \<Rightarrow> [Inl (Parse (''invalid JSON: '' @ err) (Some (line_no + 1)) (Some col))]
            | Inr v \<Rightarrow> Inr v # read_lines parse (line_no + 1) ls))"

definition read_jsonl :: "(bytes \<Rightarrow> (string \<times> nat) + 'd) \<Rightarrow> bytes \<Rightarrow> 'd res list" where
  "read_jsonl parse content = read_lines parse 0 (lines_of content)"

section \<open>Feeding in pieces\<close>

lemma feed_simps [simp]: "feed [] so = Inr so" "feed (c # cs) so = try_res (feed_byte c so) (feed cs)"
  by (simp_all add: feed_def)

lemma feed_append: "feed (xs @ ys) so = try_res (feed xs so) (feed ys)"
  by (simp add: feed_def fold_res_append)

text \<open>What is already out does not influence the scanner.\<close>

lemma feed_byte_out:
  "feed_byte c (s, out) = (case feed_byte c (s, []) of Inl e \<Rightarrow> Inl e | Inr (s1, o1) \<Rightarrow> Inr (s1, out @ o1))"
  by (auto simp: feed_byte_def Let_def split: prod.splits)

lemma feed_out:
  "feed cs (s, out) = (case feed cs (s, []) of Inl e \<Rightarrow> Inl e | Inr (s1, o1) \<Rightarrow> Inr (s1, out @ o1))"
proof (induction cs arbitrary: s out)
  case (Cons c cs)
  show ?case
  proof (cases "feed_byte c (s, [])")
    case (Inl e)
    then show ?thesis by (simp add: feed_byte_out [of c s out])
  next
    case (Inr so)
    obtain s1 o1 where so: "so = (s1, o1)" by (cases so)
    then show ?thesis
      using Inr Cons.IH [of s1 "out @ o1"] Cons.IH [of s1 o1]
      by (simp add: feed_byte_out [of c s out] split: sum.splits prod.splits)
  qed
qed simp

lemma parse_elements_append:
  "parse_elements parse i (xs @ ys) =
     (case parse_elements parse i xs of
        (ds, None) \<Rightarrow> (ds, None)
      | (ds, Some j) \<Rightarrow> (let (es, k) = parse_elements parse j ys in (ds @ es, k)))"
  by (induction parse i xs rule: parse_elements.induct)
     (auto simp: Let_def split: sum.splits prod.splits option.splits)

text \<open>The whole content at once.\<close>

definition scan_all :: "(bytes \<Rightarrow> string + 'd) \<Rightarrow> scanner \<Rightarrow> nat \<Rightarrow> bytes \<Rightarrow> 'd res list" where
  "scan_all parse s index content =
     (case feed content (s, []) of
        Inl e \<Rightarrow> [Inl e]
      | Inr (s1, completed) \<Rightarrow>
          (case parse_elements parse index completed of
             (ds, None) \<Rightarrow> ds
           | (ds, Some i) \<Rightarrow> ds @ (case scanner_finish s1 of Inl e \<Rightarrow> [Inl e] | Inr _ \<Rightarrow> [])))"

lemma read_array_from_scan_all:
  assumes "[] \<notin> set chunks" "feed (concat chunks) (s, []) = Inr (s2, completed)"
  shows "read_array_from parse s index (map Inr chunks) = scan_all parse s index (concat chunks)"
  using assms
proof (induction chunks arbitrary: s index completed)
  case Nil
  then show ?case by (simp add: scan_all_def)
next
  case (Cons c chunks)
  obtain s1 o1 where f1: "feed c (s, []) = Inr (s1, o1)"
    using Cons.prems(2) by (cases "feed c (s, [])") (auto simp: feed_append)
  obtain o2 where f2: "feed (concat chunks) (s1, []) = Inr (s2, o2)" and out: "completed = o1 @ o2"
    using Cons.prems(2) f1 feed_out [of "concat chunks" s1 o1]
    by (auto simp: feed_append split: sum.splits)
  have IH: "read_array_from parse s1 i (map Inr chunks) = scan_all parse s1 i (concat chunks)" for i
    using Cons.IH [OF _ f2] Cons.prems(1) by simp
  have all: "feed (concat (c # chunks)) (s, []) = Inr (s2, o1 @ o2)"
    using Cons.prems(2) out by simp
  show ?case
    using Cons.prems(1) f1 f2 all
    by (auto simp: IH scan_all_def parse_elements_append Let_def split: prod.splits option.splits)
qed

section \<open>Texts that the scanner recognises as one element\<close>

definition element_state :: "bool \<Rightarrow> int \<Rightarrow> bool \<Rightarrow> bytes \<Rightarrow> scanner" where
  "element_state str depth esc cur = \<lparr>sc_started = True, sc_finished = False, sc_in_element = True,
     sc_depth = depth, sc_in_string = str, sc_escaped = esc, sc_current = cur\<rparr>"

text \<open>
  A text is closed when brackets balance outside strings, strings end, and no comma or closing
  bracket stands outside them: \<open>(depth, in_string, escaped)\<close> goes from \<open>(0, no, no)\<close> back to it.
\<close>

fun lex_step :: "char \<Rightarrow> int \<times> bool \<times> bool \<Rightarrow> (int \<times> bool \<times> bool) option" where
  "lex_step c (d, str, esc) =
     (if str then
        Some (d, (if esc then True else c \<noteq> quote), (\<not> esc \<and> c = backslash))
      else if d = 0 \<and> (c = CHR '','' \<or> c = CHR '']'') then None
      else if c = quote then Some (d, True, False)
      else if c = CHR ''{'' \<or> c = CHR ''['' then Some (d + 1, False, False)
      else if c = CHR ''}'' \<or> c = CHR '']'' then Some (d - 1, False, False)
      else Some (d, False, False))"

fun lex_run :: "bytes \<Rightarrow> int \<times> bool \<times> bool \<Rightarrow> (int \<times> bool \<times> bool) option" where
  "lex_run [] st = Some st"
| "lex_run (c # cs) st = Option.bind (lex_step c st) (lex_run cs)"

definition element_text :: "bytes \<Rightarrow> bool" where
  "element_text b \<longleftrightarrow> b \<noteq> [] \<and> \<not> is_ascii_whitespace (hd b) \<and> hd b \<noteq> CHR '','' \<and> hd b \<noteq> CHR '']''
     \<and> lex_run b (0, False, False) = Some (0, False, False)"

lemma feed_in_element:
  assumes "lex_run b (d, str, esc) = Some (d2, str2, esc2)" "str \<or> \<not> esc"
  shows "feed b (element_state str d esc cur, out) = Inr (element_state str2 d2 esc2 (cur @ b), out)"
  using assms
proof (induction b arbitrary: d str esc cur)
  case (Cons c b)
  obtain d1 str1 esc1 where l: "lex_step c (d, str, esc) = Some (d1, str1, esc1)"
    using Cons.prems(1) by (cases "lex_step c (d, str, esc)") auto
  then have rest: "lex_run b (d1, str1, esc1) = Some (d2, str2, esc2)" using Cons.prems(1) by simp
  have ok: "str1 \<or> \<not> esc1" using l Cons.prems(2) by (auto split: if_splits)
  have "feed_byte c (element_state str d esc cur, out) = Inr (element_state str1 d1 esc1 (cur @ [c]), out)"
    using l Cons.prems(2)
    by (auto simp: feed_byte_def consume_element_byte_def element_state_def Let_def split: if_splits)
  then show ?case using Cons.IH [OF rest ok, of "cur @ [c]"] by simp
qed simp

definition between_state :: scanner where
  "between_state = scanner_new\<lparr>sc_started := True\<rparr>"

lemma feed_element:
  assumes "element_text b" "sep = CHR '','' \<or> sep = CHR '']''"
    and that: "sc_started s" "\<not> sc_finished s" "\<not> sc_in_element s"
  shows "\<exists>s1. feed (b @ [sep]) (s, out) = Inr (s1, out @ [b])
     \<and> sc_started s1 \<and> sc_finished s1 = (sep = CHR '']'') \<and> \<not> sc_in_element s1"
proof -
  obtain c cs where b: "b = c # cs" using assms(1) by (cases b) (auto simp: element_text_def)
  have "begin_element s = element_state False 0 False []"
    using that by (cases s) (simp add: begin_element_def element_state_def)
  moreover have "sc_in_element (element_state False 0 False [])" "sc_started (element_state False 0 False [])"
    "\<not> sc_finished (element_state False 0 False [])"
    by (simp_all add: element_state_def)
  ultimately have first: "feed_byte c (s, out) = feed_byte c (element_state False 0 False [], out)"
    using assms(1) that b
    by (simp add: feed_byte_def element_text_def)
  have "feed b (s, out) = feed b (element_state False 0 False [], out)"
    by (simp add: b first)
  also have "\<dots> = Inr (element_state False 0 False b, out)"
    using feed_in_element [of b 0 False False 0 False False "[]" out] assms(1)
    by (simp add: element_text_def)
  finally have "feed (b @ [sep]) (s, out) = feed_byte sep (element_state False 0 False b, out)"
    by (simp add: feed_append try_res_def split: sum.splits)
  then show ?thesis
    using assms(2)
    by (auto simp: feed_byte_def consume_element_byte_def element_state_def Let_def)
qed

lemma feed_elements:
  assumes "\<forall>t \<in> set ts. element_text t" "sc_started s" "\<not> sc_finished s" "\<not> sc_in_element s"
  shows "\<exists>s1. feed (join '','' ts @ '']'') (s, out) = Inr (s1, out @ ts) \<and> sc_started s1 \<and> sc_finished s1"
  using assms
proof (induction "'',''" ts arbitrary: s out rule: join.induct)
  case 1
  then show ?case by (simp add: feed_byte_def is_ascii_whitespace_def)
next
  case (2 t)
  then show ?case using feed_element [of t "CHR '']''" s out] by auto
next
  case (3 t u ts)
  have sep: "CHR '','' = CHR '','' \<or> CHR '','' = CHR '']''" by simp
  obtain s1 where s1: "feed (t @ '','') (s, out) = Inr (s1, out @ [t])" "sc_started s1"
      "\<not> sc_finished s1" "\<not> sc_in_element s1"
    using feed_element [OF _ sep 3(3-5), of t out] 3(2) by auto
  obtain s2 where "feed (join '','' (u # ts) @ '']'') (s1, out @ [t]) = Inr (s2, (out @ [t]) @ (u # ts))"
      "sc_started s2" "sc_finished s2"
    using 3(1) [of s1 "out @ [t]"] 3(2) s1(2-4) by auto
  moreover have "join '','' (t # u # ts) @ '']'' = (t @ '','') @ (join '','' (u # ts) @ '']'')" by simp
  moreover have "feed ((t @ '','') @ (join '','' (u # ts) @ '']'')) (s, out)
      = feed (join '','' (u # ts) @ '']'') (s1, out @ [t])"
    unfolding feed_append [of "t @ '',''" "join '','' (u # ts) @ '']''"] s1(1) by (rule try_res_Inr)
  ultimately show ?case by (intro exI [of _ s2]) (simp only: append_assoc append_Cons append_Nil)
qed

lemma parse_elements_ok:
  "\<forall>t \<in> set ts. parse t = Inr (doc t) \<Longrightarrow>
   parse_elements parse i ts = (map (Inr \<circ> doc) ts, Some (i + length ts))"
  by (induction ts arbitrary: i) auto

definition array_text :: "bytes list \<Rightarrow> bytes" where
  "array_text ts = ''['' @ join '','' ts @ '']''"

lemma feed_array_text:
  assumes "\<forall>t \<in> set ts. element_text t"
  shows "\<exists>s1. feed (array_text ts) (scanner_new, []) = Inr (s1, ts) \<and> scanner_finish s1 = Inr ()"
proof -
  have "feed_byte (CHR ''['') (scanner_new, []) = Inr (between_state, [])"
    by (simp add: feed_byte_def scanner_new_def between_state_def is_ascii_whitespace_def)
  then show ?thesis
    using feed_elements [OF assms, of between_state "[]"]
    by (auto simp: array_text_def between_state_def scanner_new_def scanner_finish_def)
qed

section \<open>Properties\<close>

text \<open>
  C22: how the input is cut into reads does not matter to the array reader: two ways of cutting
  the same content, both without empty pieces, give the same documents and the same parse
  error, whenever the content is one that the scanner accepts to its end.
\<close>

theorem read_array_chunking:
  assumes "concat cs = concat ds" "[] \<notin> set cs" "[] \<notin> set ds" "is_ok (feed (concat cs) (scanner_new, []))"
  shows "read_array parse (map Inr cs) = read_array parse (map Inr ds)"
proof -
  obtain s2 completed where "feed (concat cs) (scanner_new, []) = Inr (s2, completed)"
    using assms(4) by (auto simp: is_ok_iff)
  then show ?thesis
    using read_array_from_scan_all [OF assms(2)] read_array_from_scan_all [OF assms(3)] assms(1)
    unfolding read_array_def by metis
qed

lemma read_array_chunking_witness:
  "read_array (\<lambda>t. Inr t) (map Inr [''['', ''{},[1'', '',2]]''])
   = read_array (\<lambda>t. Inr t) (map Inr [''[{},[1,2]]''])"
proof (rule read_array_chunking)
  show "is_ok (feed (concat [''['', ''{},[1'', '',2]]'']) (scanner_new, []))" by code_simp
qed simp_all

text \<open>
  The array reader gives back what the array holds: for every list of element texts, each
  lexically closed and parsing to its document, reading the array they form, in any pieces,
  yields exactly the documents in order and no error.
\<close>

theorem read_array_roundtrip:
  assumes "\<forall>t \<in> set ts. element_text t \<and> parse t = Inr (doc t)"
    and "concat chunks = array_text ts" "[] \<notin> set chunks"
  shows "read_array parse (map Inr chunks) = map (Inr \<circ> doc) ts"
proof -
  obtain s1 where s1: "feed (array_text ts) (scanner_new, []) = Inr (s1, ts)" "scanner_finish s1 = Inr ()"
    using feed_array_text [of ts] assms(1) by blast
  have "read_array parse (map Inr chunks) = scan_all parse scanner_new 0 (array_text ts)"
    unfolding read_array_def
    using read_array_from_scan_all [OF assms(3), of scanner_new s1 ts parse 0] s1(1) assms(2) by simp
  then show ?thesis
    using s1 parse_elements_ok [of ts parse doc 0] assms(1) by (simp add: scan_all_def)
qed

lemma read_array_roundtrip_witness:
  "read_array (\<lambda>t. Inr (length t)) (map Inr [''[{\"a\":\"]'', '',\"},7]'']) = [Inr 10, Inr 1]"
proof -
  let ?ts = "[''{\"a\":\"],\"}'', ''7'']"
  have "read_array (\<lambda>t. Inr (length t)) (map Inr [''[{\"a\":\"]'', '',\"},7]'']) = map (Inr \<circ> length) ?ts"
  proof (rule read_array_roundtrip)
    have "\<forall>t \<in> set ?ts. element_text t" by code_simp
    then show "\<forall>t \<in> set ?ts. element_text t \<and> Inr (length t) = Inr (length t)" by simp
    show "concat [''[{\"a\":\"]'', '',\"},7]''] = array_text ?ts" by code_simp
  qed simp
  then show ?thesis by simp
qed

lemma lines_of_line: "newline \<notin> set t \<Longrightarrow> lines_of (t @ newline # rest) = (t @ [newline]) # lines_of rest"
  by (induction t) auto

definition line_text :: "bytes \<Rightarrow> bool" where
  "line_text t \<longleftrightarrow> t \<noteq> [] \<and> newline \<notin> set t \<and> \<not> is_ascii_whitespace (hd t) \<and> \<not> is_ascii_whitespace (last t)"

lemma trim_line: "line_text t \<Longrightarrow> trim_ascii (t @ [newline]) = t"
proof -
  assume t: "line_text t"
  then obtain c cs where c: "t = c # cs" "\<not> is_ascii_whitespace c" by (cases t) (auto simp: line_text_def)
  obtain ys y where y: "t = ys @ [y]" "\<not> is_ascii_whitespace y"
    using t by (cases t rule: rev_cases) (auto simp: line_text_def)
  have "dropWhile is_ascii_whitespace (t @ [newline]) = t @ [newline]" using c by simp
  moreover have "is_ascii_whitespace newline" by (simp add: is_ascii_whitespace_def)
  ultimately show ?thesis using y by (simp add: trim_ascii_def)
qed

lemma read_lines_of_texts:
  assumes "\<forall>t \<in> set ts. line_text t \<and> parse t = Inr (doc t)"
  shows "read_lines parse n (lines_of (jsonl ts)) = map (Inr \<circ> doc) ts"
  using assms
proof (induction ts arbitrary: n)
  case (Cons t ts)
  have "lines_of (jsonl (t # ts)) = (t @ [newline]) # lines_of (jsonl ts)"
    using Cons.prems lines_of_line [of t "jsonl ts"] by (simp add: jsonl_def line_text_def)
  then show ?case using Cons by (simp add: trim_line Let_def line_text_def [of t])
qed (simp add: jsonl_def)

text \<open>
  The line reader gives back what was written one document per line: for texts without a
  line feed that neither start nor end with white space, the lines parse to exactly their
  documents in order.  The bodies the batcher builds are of this form.
\<close>

theorem read_jsonl_roundtrip:
  assumes "\<forall>t \<in> set ts. line_text t \<and> parse t = Inr (doc t)"
  shows "read_jsonl parse (jsonl ts) = map (Inr \<circ> doc) ts"
  by (simp add: read_jsonl_def read_lines_of_texts [OF assms])

lemma read_jsonl_roundtrip_witness:
  "read_jsonl (\<lambda>t. Inr (length t)) (''{}'' @ [newline] @ ''[1]'' @ [newline]) = [Inr 2, Inr 3]"
proof -
  have "read_jsonl (\<lambda>t. Inr (length t)) (jsonl [''{}'', ''[1]'']) = map (Inr \<circ> length) [''{}'', ''[1]'']"
    by (rule read_jsonl_roundtrip) (simp add: line_text_def is_ascii_whitespace_def)
  then show ?thesis by (simp add: jsonl_def)
qed

end
