(* ===== verification/Edge.thy ===== *)
theory Edge
  imports Json
begin

text \<open>
  The client-side check of edge documents, \<open>arangodb-import/src/edge.rs\<close>: both endpoints must
  be there; an empty or null one means the row has no edge and is skipped and counted; a
  malformed one ends the stream with an error that names the document.
\<close>

datatype endpoint = Present | EmptyEndpoint

definition edge_error :: "nat \<Rightarrow> string \<Rightarrow> error" where
  "edge_error ordinal message = Parse message (Some ordinal) None"

abbreviation tick :: string where "tick \<equiv> [CHR 0x27]"

definition check_endpoint :: "json option \<Rightarrow> string \<Rightarrow> bool \<Rightarrow> nat \<Rightarrow> endpoint res" where
  "check_endpoint val field has_prefix ordinal =
     (case val of
        None \<Rightarrow> Inl (edge_error ordinal (''edge document is missing '' @ tick @ field @ tick))
      | Some v \<Rightarrow>
          if is_null v then Inr EmptyEndpoint
          else (case as_str v of
                  None \<Rightarrow> Inl (edge_error ordinal
                    (''edge document '' @ tick @ field @ tick @ '' must be a string''))
                | Some txt \<Rightarrow>
                    if txt = [] then Inr EmptyEndpoint
                    else if \<not> has_prefix \<and> CHR ''/'' \<notin> set txt
                    then Inl (edge_error ordinal
                      (''edge document '' @ tick @ field @ tick @ '' = '' @ tick @ txt @ tick
                       @ '' is not a fully-qualified document id (expected '' @ tick
                       @ ''collection/key'' @ tick @ ''); configure a '' @ field
                       @ '' prefix to import bare keys''))
                    else Inr Present))"

definition check_edge :: "json \<Rightarrow> nat \<Rightarrow> bool \<Rightarrow> bool \<Rightarrow> bool res" where
  "check_edge document ordinal from_prefix to_prefix =
     try_res (ok_or (edge_error ordinal ''edge document must be a JSON object'') (as_object document))
       (\<lambda>obj. try_res (check_endpoint (bt_get obj ''_from'') ''_from'' from_prefix ordinal)
         (\<lambda>f. try_res (check_endpoint (bt_get obj ''_to'') ''_to'' to_prefix ordinal)
           (\<lambda>t. Inr (f = Present \<and> t = Present))))"

text \<open>The stream that passes on and the number of rows skipped.\<close>

fun validate_edges_from :: "nat \<Rightarrow> bool \<Rightarrow> bool \<Rightarrow> json res list \<Rightarrow> json res list \<times> nat" where
  "validate_edges_from ordinal fp tp [] = ([], 0)"
| "validate_edges_from ordinal fp tp (Inl e # docs) = ([Inl e], 0)"
| "validate_edges_from ordinal fp tp (Inr d # docs) =
     (case check_edge d (ordinal + 1) fp tp of
        Inl e \<Rightarrow> ([Inl e], 0)
      | Inr keep \<Rightarrow>
          (let (out, skipped) = validate_edges_from (ordinal + 1) fp tp docs
           in if keep then (Inr d # out, skipped) else (out, skipped + 1)))"

definition validate_edge_documents :: "json res list \<Rightarrow> bool \<Rightarrow> bool \<Rightarrow> json res list \<times> nat" where
  "validate_edge_documents docs fp tp = validate_edges_from 0 fp tp docs"

section \<open>Properties\<close>

text \<open>What a document that passes looks like.\<close>

definition endpoint_ok :: "bool \<Rightarrow> json option \<Rightarrow> bool" where
  "endpoint_ok has_prefix v \<longleftrightarrow>
     (\<exists>s. v = Some (JString s) \<and> s \<noteq> [] \<and> (has_prefix \<or> CHR ''/'' \<in> set s))"

lemma check_endpoint_Present:
  "check_endpoint v field p n = Inr Present \<longleftrightarrow> endpoint_ok p v"
  by (auto simp: check_endpoint_def endpoint_ok_def split: option.splits elim!: as_str.elims)

lemma check_endpoint_ordinal: "check_endpoint v field p n = Inl e \<Longrightarrow> \<exists>m. e = Parse m (Some n) None"
  by (auto simp: check_endpoint_def edge_error_def split: option.splits if_splits)

lemma check_endpoint_result: "is_ok (check_endpoint v field p n) = is_ok (check_endpoint v field' p k)"
  "check_endpoint v field p n = Inr x \<longleftrightarrow> check_endpoint v field' p k = Inr x"
  by (auto simp: check_endpoint_def is_ok_def split: option.splits)

lemma check_edge_True:
  "check_edge d n fp tp = Inr True \<longleftrightarrow>
     (\<exists>obj. d = JObject obj \<and> endpoint_ok fp (bt_get obj ''_from'') \<and> endpoint_ok tp (bt_get obj ''_to''))"
  by (auto simp: check_edge_def res_simps check_endpoint_Present ok_or_def
      split: option.splits elim!: as_object.elims)

lemma check_edge_ordinal: "check_edge d n fp tp = Inl e \<Longrightarrow> \<exists>m. e = Parse m (Some n) None"
  by (auto simp: check_edge_def res_simps edge_error_def ok_or_def split: option.splits
      dest!: check_endpoint_ordinal)

lemma check_edge_same: "check_edge d n fp tp = Inr b \<longleftrightarrow> check_edge d k fp tp = Inr b"
  using check_endpoint_result(2) [of _ "''_from''" fp n _ "''_from''" k]
    check_endpoint_result(2) [of _ "''_to''" tp n _ "''_to''" k]
  by (auto simp: check_edge_def res_simps ok_or_def split: option.splits)

definition edge_kept :: "bool \<Rightarrow> bool \<Rightarrow> json \<Rightarrow> bool" where
  "edge_kept fp tp d \<longleftrightarrow> check_edge d 0 fp tp = Inr True"

definition edge_wrong :: "bool \<Rightarrow> bool \<Rightarrow> json \<Rightarrow> bool" where
  "edge_wrong fp tp d \<longleftrightarrow> \<not> is_ok (check_edge d 0 fp tp)"

lemma check_edge_cases:
  "edge_wrong fp tp d \<Longrightarrow> \<exists>m. check_edge d n fp tp = Inl (Parse m (Some n) None)"
  "edge_kept fp tp d \<Longrightarrow> check_edge d n fp tp = Inr True"
  "\<not> edge_wrong fp tp d \<Longrightarrow> \<not> edge_kept fp tp d \<Longrightarrow> check_edge d n fp tp = Inr False"
proof -
  show "edge_kept fp tp d \<Longrightarrow> check_edge d n fp tp = Inr True"
    using check_edge_same [of d 0 fp tp True n] by (simp add: edge_kept_def)
  show "\<not> edge_wrong fp tp d \<Longrightarrow> \<not> edge_kept fp tp d \<Longrightarrow> check_edge d n fp tp = Inr False"
  proof -
    assume "\<not> edge_wrong fp tp d" "\<not> edge_kept fp tp d"
    then obtain b where "check_edge d 0 fp tp = Inr b" "b \<noteq> True"
      unfolding edge_wrong_def edge_kept_def is_ok_iff by blast
    then show "check_edge d n fp tp = Inr False" using check_edge_same [of d 0 fp tp False n] by simp
  qed
  assume w: "edge_wrong fp tp d"
  have "\<not> (\<exists>b. check_edge d n fp tp = Inr b)"
    using check_edge_same [of d n fp tp _ 0] w unfolding edge_wrong_def is_ok_iff by blast
  then obtain e where "check_edge d n fp tp = Inl e" by (cases "check_edge d n fp tp") auto
  then show "\<exists>m. check_edge d n fp tp = Inl (Parse m (Some n) None)"
    using check_edge_ordinal by blast
qed

lemma validate_edges_good:
  "\<forall>d \<in> set good. \<not> edge_wrong fp tp d \<Longrightarrow>
   validate_edges_from n fp tp (map Inr good @ rest) =
     (let (out, skipped) = validate_edges_from (n + length good) fp tp rest
      in (map Inr (filter (edge_kept fp tp) good) @ out,
          length (filter (\<lambda>d. \<not> edge_kept fp tp d) good) + skipped))"
proof (induction good arbitrary: n)
  case (Cons d good)
  then show ?case
    using check_edge_cases(2,3) [of fp tp d "n + 1"]
    by (cases "edge_kept fp tp d") (auto simp: Let_def split: prod.splits)
qed (simp add: Let_def)

text \<open>
  C23: the edge check passes on exactly the documents whose both endpoints name something, in
  order and unchanged, counts exactly the others, and stops at the first malformed document
  with an error that carries that document's position in the input, counted from one.
\<close>

theorem validate_edge_documents_spec:
  assumes "\<forall>d \<in> set good. \<not> edge_wrong fp tp d" "edge_wrong fp tp bad"
  shows "validate_edge_documents (map Inr good) fp tp =
      (map Inr (filter (edge_kept fp tp) good), length (filter (\<lambda>d. \<not> edge_kept fp tp d) good))
    \<and> (\<exists>m. validate_edge_documents (map Inr good @ Inr bad # rest) fp tp =
      (map Inr (filter (edge_kept fp tp) good) @ [Inl (Parse m (Some (length good + 1)) None)],
       length (filter (\<lambda>d. \<not> edge_kept fp tp d) good)))
    \<and> (\<forall>d. edge_kept fp tp d \<longleftrightarrow>
        (\<exists>obj. d = JObject obj \<and> endpoint_ok fp (bt_get obj ''_from'') \<and> endpoint_ok tp (bt_get obj ''_to'')))"
proof (intro conjI)
  show "validate_edge_documents (map Inr good) fp tp =
      (map Inr (filter (edge_kept fp tp) good), length (filter (\<lambda>d. \<not> edge_kept fp tp d) good))"
    using validate_edges_good [OF assms(1), of 0 "[]"] by (simp add: validate_edge_documents_def)
  obtain m where "check_edge bad (length good + 1) fp tp = Inl (Parse m (Some (length good + 1)) None)"
    using check_edge_cases(1) [OF assms(2)] by blast
  then show "\<exists>m. validate_edge_documents (map Inr good @ Inr bad # rest) fp tp =
      (map Inr (filter (edge_kept fp tp) good) @ [Inl (Parse m (Some (length good + 1)) None)],
       length (filter (\<lambda>d. \<not> edge_kept fp tp d) good))"
    using validate_edges_good [OF assms(1), of 0 "Inr bad # rest"]
    by (intro exI [of _ m]) (simp add: validate_edge_documents_def)
  show "\<forall>d. edge_kept fp tp d \<longleftrightarrow>
        (\<exists>obj. d = JObject obj \<and> endpoint_ok fp (bt_get obj ''_from'') \<and> endpoint_ok tp (bt_get obj ''_to''))"
    by (simp add: edge_kept_def check_edge_True)
qed

lemma validate_edge_documents_spec_witness:
  "\<exists>m. validate_edge_documents
      [Inr (json_object [(''_from'', JString ''a/1''), (''_to'', JString ''b/2'')]),
       Inr (json_object [(''_from'', JString ''a/1''), (''_to'', JNull)]),
       Inr (json_object [(''_from'', JString ''a1''), (''_to'', JString ''b/2'')])] False False =
     ([Inr (json_object [(''_from'', JString ''a/1''), (''_to'', JString ''b/2'')]),
       Inl (Parse m (Some 3) None)], 1)"
proof -
  let ?a = "json_object [(''_from'', JString ''a/1''), (''_to'', JString ''b/2'')]"
  let ?b = "json_object [(''_from'', JString ''a/1''), (''_to'', JNull)]"
  let ?c = "json_object [(''_from'', JString ''a1''), (''_to'', JString ''b/2'')]"
  have k: "edge_kept False False ?a" "\<not> edge_kept False False ?b" "\<not> edge_wrong False False ?a"
    "\<not> edge_wrong False False ?b" "edge_wrong False False ?c"
    by (simp_all add: edge_kept_def edge_wrong_def check_edge_def check_endpoint_def json_object_def
        bt_get_def)
  have "\<forall>d \<in> set [?a, ?b]. \<not> edge_wrong False False d" using k by simp
  from validate_edge_documents_spec [OF this k(5), of "[]", THEN conjunct2, THEN conjunct1]
  show ?thesis using k(1,2) by (simp add: eval_nat_numeral)
qed

end
