(* ===== verification/Columns.thy ===== *)
theory Columns
  imports Json Uri
begin

text \<open>
  Delimited input: the column transforms of \<open>arangodb-import/src/reader/columns.rs\<close>, the typed
  decoding of fields and the row loop of \<open>delimited.rs\<close>, and the format inference of
  \<open>format.rs\<close>.  Splitting bytes into records is the \<open>csv_async\<close> crate's: the header and the
  records are inputs, each a list of fields or an error message.  Parsing a decimal fraction
  (\<open>f64\<close>, finite) and printing a JSON value are parameters.
\<close>

section \<open>Formats\<close>

datatype import_format = JsonLines | JsonArray | CsvFormat | TsvFormat

definition import_format_from_extension :: "string \<Rightarrow> import_format option" where
  "import_format_from_extension ext =
     (if ext = ''jsonl'' \<or> ext = ''ndjson'' then Some JsonLines
      else if ext = ''json'' then Some JsonArray
      else if ext = ''csv'' then Some CsvFormat
      else if ext = ''tsv'' \<or> ext = ''tab'' then Some TsvFormat
      else None)"

definition path_stem :: "string \<Rightarrow> string option" where
  "path_stem path = map_option (\<lambda>n. case rsplit_dot n of None \<Rightarrow> n | Some (before, _) \<Rightarrow> before) (file_name path)"

definition data_extension :: "string \<Rightarrow> string option" where
  "data_extension path =
     Option.bind (map_option to_ascii_lowercase (path_extension path)) (\<lambda>ext.
       if codec_from_extension ext \<noteq> None
       then Option.bind (path_stem path) (\<lambda>stem. map_option to_ascii_lowercase (path_extension stem))
       else Some ext)"

definition import_format_infer :: "string \<Rightarrow> import_format res" where
  "import_format_infer path =
     try_res (ok_or (Config (''cannot infer import format: '' @ [CHR 0x27] @ path @ [CHR 0x27]
                @ '' has no file extension; pass an explicit format'')) (data_extension path))
       (\<lambda>ext. ok_or (Config (''cannot infer import format from extension '' @ [CHR 0x27] @ ''.'' @ ext
                @ [CHR 0x27] @ ''; pass an explicit format'')) (import_format_from_extension ext))"

fun import_delimiter :: "import_format \<Rightarrow> char option" where
  "import_delimiter CsvFormat = Some (CHR '','')"
| "import_delimiter TsvFormat = Some (CHR 0x09)"
| "import_delimiter _ = None"

section \<open>Column transforms\<close>

definition reserved_string_fields :: "string list" where
  "reserved_string_fields = [''_key'', ''_from'', ''_to'', ''_id'']"

definition is_reserved_string_field :: "string \<Rightarrow> bool" where
  "is_reserved_string_field name \<longleftrightarrow> name \<in> set reserved_string_fields"

datatype column_type = StringType | NumberType | BooleanType

definition column_type_parse :: "string \<Rightarrow> column_type res" where
  "column_type_parse name =
     (if name = ''string'' then Inr StringType
      else if name = ''number'' then Inr NumberType
      else if name = ''boolean'' then Inr BooleanType
      else Inl (Config (''unknown --datatype '' @ [CHR 0x27] @ name @ [CHR 0x27]
             @ '': expected string, number, or boolean'')))"

datatype segment = Literal string | Column string

record merge_rule =
  mr_target :: string
  mr_segments :: "segment list"

record column_transforms =
  ct_types :: "string \<rightharpoonup> column_type"
  ct_renames :: "string \<rightharpoonup> string"
  ct_merges :: "merge_rule list"
  ct_removals :: "string list"

definition spec_split :: "string \<Rightarrow> string \<Rightarrow> (string \<times> string) res" where
  "spec_split spec flag =
     ok_or (Config (flag @ '' '' @ [CHR 0x27] @ spec @ [CHR 0x27] @ '' is not in '' @ [CHR 0x27]
         @ ''name=value'' @ [CHR 0x27] @ '' form''))
       (split_once (CHR ''='') spec)"

definition template_error :: "string \<Rightarrow> string \<Rightarrow> error" where
  "template_error spec what = Config (''--merge-attributes '' @ [CHR 0x27] @ spec @ [CHR 0x27] @ what)"

text \<open>\<open>parse_template\<close>: the loop over the opening brackets.\<close>

function parse_template_from ::
  "string \<Rightarrow> string \<Rightarrow> string \<Rightarrow> segment list \<Rightarrow> bool \<Rightarrow> segment list res"
where
  "parse_template_from spec rest literal segments saw =
     (case split_once (CHR ''['') rest of
        Some (before, after) \<Rightarrow>
          (case split_once (CHR '']'') after of
             None \<Rightarrow> Inl (template_error spec ('' has an unclosed '' @ [CHR 0x27] @ ''['' @ [CHR 0x27]
                         @ '' in its template''))
           | Some (column, rest1) \<Rightarrow>
               if column = [] then Inl (template_error spec ('' has an empty '' @ [CHR 0x27] @ ''[]'' @ [CHR 0x27]
                         @ '' column reference''))
               else parse_template_from spec rest1 []
                      (segments @ (if literal @ before = [] then [] else [Literal (literal @ before)])
                         @ [Column column]) True)
      | None \<Rightarrow>
          if \<not> saw then Inl (template_error spec ('' references no column; expected at least one ''
                 @ [CHR 0x27] @ ''[column]'' @ [CHR 0x27] @ '' placeholder in the template''))
          else Inr (segments @ (if literal @ rest = [] then [] else [Literal (literal @ rest)])))"
  by pat_completeness auto
termination
  by (relation "measure (\<lambda>(_, rest, _, _, _). length rest)") (auto simp: split_once_Some)

declare parse_template_from.simps [simp del]

definition parse_template :: "string \<Rightarrow> string \<Rightarrow> segment list res" where
  "parse_template template spec = parse_template_from spec template [] [] False"

definition column_transforms_new ::
  "string list \<Rightarrow> string list \<Rightarrow> string list \<Rightarrow> string list \<Rightarrow> column_transforms res"
where
  "column_transforms_new datatypes translations merges removals =
     try_res (fold_res (\<lambda>spec m. try_res (spec_split spec ''--datatype'') (\<lambda>(column, name).
                try_res (column_type_parse name) (\<lambda>ty. Inr (m(column \<mapsto> ty))))) datatypes Map.empty) (\<lambda>ts.
     try_res (fold_res (\<lambda>spec m. try_res (spec_split spec ''--translate'') (\<lambda>(source, target).
                if target = [] then Inl (Config (''--translate '' @ [CHR 0x27] @ spec @ [CHR 0x27]
                       @ '' has an empty target name''))
                else Inr (m(source \<mapsto> target)))) translations Map.empty) (\<lambda>renames.
     try_res (map_res (\<lambda>spec. try_res (spec_split spec ''--merge-attributes'') (\<lambda>(target, template).
                try_res (parse_template template spec) (\<lambda>segs.
                  Inr \<lparr>mr_target = target, mr_segments = segs\<rparr>))) merges) (\<lambda>rules.
       Inr \<lparr>ct_types = ts, ct_renames = renames, ct_merges = rules, ct_removals = removals\<rparr>)))"

definition target_name :: "column_transforms \<Rightarrow> string \<Rightarrow> string" where
  "target_name t column = (case ct_renames t column of None \<Rightarrow> column | Some n \<Rightarrow> n)"

definition is_removed :: "column_transforms \<Rightarrow> string \<Rightarrow> bool" where
  "is_removed t column = list_ex (\<lambda>n. n = column) (ct_removals t)"

text \<open>\<open>render\<close>: a string substitutes as itself, null as nothing, the rest as JSON text.\<close>

fun render_value :: "(json \<Rightarrow> string) \<Rightarrow> json \<Rightarrow> string" where
  "render_value show_json (JString t) = t"
| "render_value show_json JNull = []"
| "render_value show_json v = show_json v"

fun render_segment :: "(json \<Rightarrow> string) \<Rightarrow> (string, json) btree \<Rightarrow> segment \<Rightarrow> string" where
  "render_segment show_json source (Literal t) = t"
| "render_segment show_json source (Column name) =
     (case bt_get source name of Some v \<Rightarrow> render_value show_json v | None \<Rightarrow> [])"

definition apply_merges ::
  "(json \<Rightarrow> string) \<Rightarrow> merge_rule list \<Rightarrow> (string, json) btree \<Rightarrow> (string, json) btree \<Rightarrow> (string, json) btree"
where
  "apply_merges show_json rules source out =
     fold (\<lambda>r. bt_insert (mr_target r)
       (JString (concat (map (render_segment show_json source) (mr_segments r))))) rules out"

section \<open>Fields\<close>

text \<open>\<open>str::parse::<i64>\<close>.\<close>

definition parse_i64 :: "string \<Rightarrow> int option" where
  "parse_i64 s =
     (let (neg, ds) = (case s of
            [] \<Rightarrow> (False, [])
          | c # cs \<Rightarrow> if c = CHR ''-'' then (True, cs) else if c = CHR ''+'' then (False, cs) else (False, s));
          n = int (undec ds); i = (if neg then - n else n)
      in if ds \<noteq> [] \<and> list_all is_digit ds \<and> - (2^63) \<le> i \<and> i < 2^63 then Some i else None)"

definition bad_value :: "string \<Rightarrow> string \<Rightarrow> string \<Rightarrow> nat \<Rightarrow> error" where
  "bad_value field column expected row =
     Parse (''column '' @ [CHR 0x27] @ column @ [CHR 0x27] @ '' value '' @ [CHR 0x27] @ field @ [CHR 0x27]
       @ '' is not a valid '' @ expected @ '' (requested by --datatype '' @ column @ ''='' @ expected @ '')'')
       (Some row) None"

definition coerce ::
  "(string \<Rightarrow> real option) \<Rightarrow> string \<Rightarrow> column_type \<Rightarrow> string \<Rightarrow> nat \<Rightarrow> json res"
where
  "coerce parse_f64 field kind column row =
     (case kind of
        StringType \<Rightarrow> Inr (JString field)
      | NumberType \<Rightarrow>
          if field = [] then Inr JNull
          else (case parse_i64 field of
                  Some i \<Rightarrow> Inr (JInt i)
                | None \<Rightarrow> (case parse_f64 field of
                            Some x \<Rightarrow> Inr (JFloat x)
                          | None \<Rightarrow> Inl (bad_value field column ''number'' row)))
      | BooleanType \<Rightarrow>
          if field = [] then Inr JNull
          else if field = ''true'' \<or> field = ''1'' then Inr (JBool True)
          else if field = ''false'' \<or> field = ''0'' then Inr (JBool False)
          else Inl (bad_value field column ''boolean'' row))"

definition looks_numeric :: "string \<Rightarrow> bool" where
  "looks_numeric token =
     (let digits = (case token of
            [] \<Rightarrow> token
          | c # cs \<Rightarrow> if c = CHR ''+'' \<or> c = CHR ''-'' then cs else token);
          integer_part = takeWhile (\<lambda>c. c \<notin> {CHR ''.'', CHR ''e'', CHR ''E''}) digits
      in \<not> (length integer_part > 1 \<and> hd integer_part = CHR ''0''))"

definition infer_scalar :: "(string \<Rightarrow> real option) \<Rightarrow> string \<Rightarrow> json" where
  "infer_scalar parse_f64 field =
     (if field = [] then JNull
      else if field = ''true'' then JBool True
      else if field = ''false'' then JBool False
      else if field = ''null'' then JNull
      else if looks_numeric field then
        (case parse_i64 field of
           Some i \<Rightarrow> JInt i
         | None \<Rightarrow> (case parse_f64 field of Some x \<Rightarrow> JFloat x | None \<Rightarrow> JString field))
      else JString field)"

section \<open>Rows\<close>

definition decode_field ::
  "(string \<Rightarrow> real option) \<Rightarrow> column_transforms \<Rightarrow> nat \<Rightarrow> string \<times> string \<Rightarrow> (string, json) btree
   \<Rightarrow> (string, json) btree res"
where
  "decode_field parse_f64 t row nf source = (let (name, field) = nf in
     try_res
       (if is_reserved_string_field (target_name t name) then Inr (JString field)
        else (case ct_types t name of
                Some kind \<Rightarrow> coerce parse_f64 field kind name row
              | None \<Rightarrow> Inr (infer_scalar parse_f64 field)))
       (\<lambda>v. Inr (bt_insert name v source)))"

definition row_object ::
  "(json \<Rightarrow> string) \<Rightarrow> column_transforms \<Rightarrow> (string, json) btree \<Rightarrow> json"
where
  "row_object show_json t source =
     JObject (apply_merges show_json (ct_merges t) source
       (fold (\<lambda>(name, v) obj. if is_removed t name then obj else bt_insert (target_name t name) v obj)
          source []))"

definition read_row ::
  "(json \<Rightarrow> string) \<Rightarrow> (string \<Rightarrow> real option) \<Rightarrow> column_transforms \<Rightarrow> string list \<Rightarrow> nat \<Rightarrow> string list
   \<Rightarrow> json res"
where
  "read_row show_json parse_f64 t headers row cells =
     try_res (fold_res (decode_field parse_f64 t row) (zip headers cells) [])
       (\<lambda>source. Inr (row_object show_json t source))"

fun read_rows ::
  "(json \<Rightarrow> string) \<Rightarrow> (string \<Rightarrow> real option) \<Rightarrow> column_transforms \<Rightarrow> string list \<Rightarrow> nat
   \<Rightarrow> (string + string list) list \<Rightarrow> json res list"
where
  "read_rows show_json parse_f64 t headers row [] = []"
| "read_rows show_json parse_f64 t headers row (Inl err # records) =
     [Inl (Parse (''invalid delimited row: '' @ err) (Some (row + 1)) None)]"
| "read_rows show_json parse_f64 t headers row (Inr cells # records) =
     (case read_row show_json parse_f64 t headers (row + 1) cells of
        Inl e \<Rightarrow> [Inl e]
      | Inr d \<Rightarrow> Inr d # read_rows show_json parse_f64 t headers (row + 1) records)"

definition read_delimited ::
  "(json \<Rightarrow> string) \<Rightarrow> (string \<Rightarrow> real option) \<Rightarrow> column_transforms \<Rightarrow> string + string list
   \<Rightarrow> (string + string list) list \<Rightarrow> json res list"
where
  "read_delimited show_json parse_f64 t headers records =
     (case headers of
        Inl err \<Rightarrow> [Inl (Parse (''invalid delimited header: '' @ err) (Some 1) None)]
      | Inr hs \<Rightarrow> read_rows show_json parse_f64 t hs 1 records)"

section \<open>Properties\<close>

text \<open>The text of a parsed template.\<close>

fun segment_text :: "segment \<Rightarrow> string" where
  "segment_text (Literal t) = t"
| "segment_text (Column c) = ''['' @ c @ '']''"

definition segment_ok :: "segment \<Rightarrow> bool" where
  "segment_ok s \<longleftrightarrow> (case s of Literal t \<Rightarrow> t \<noteq> [] \<and> CHR ''['' \<notin> set t
                       | Column c \<Rightarrow> c \<noteq> [] \<and> CHR '']'' \<notin> set c)"

lemma parse_template_from_text:
  assumes "parse_template_from spec rest literal segments saw = Inr out"
    and "\<forall>s \<in> set segments. segment_ok s" "saw \<longrightarrow> (\<exists>c. Column c \<in> set segments)" "literal = []"
  shows "concat (map segment_text out) = concat (map segment_text segments) @ rest
    \<and> (\<forall>s \<in> set out. segment_ok s) \<and> (\<exists>c. Column c \<in> set out)"
  using assms
proof (induction spec rest literal segments saw rule: parse_template_from.induct)
  case (1 spec rest literal segments saw)
  show ?case
  proof (cases "split_once (CHR ''['') rest")
    case None
    then have "CHR ''['' \<notin> set rest" by (simp add: split_once_None)
    then show ?thesis
      using 1(2-5) None
      by (auto simp: parse_template_from.simps [of spec rest] segment_ok_def split: if_splits)
  next
    case (Some ba)
    obtain before after where ba: "ba = (before, after)" by (cases ba)
    obtain column rest1 where c: "split_once (CHR '']'') after = Some (column, rest1)" "column \<noteq> []"
      using 1(2) Some ba
      by (auto simp: parse_template_from.simps [of spec rest] split: option.splits if_splits)
    let ?segs = "segments @ (if literal @ before = [] then [] else [Literal (literal @ before)]) @ [Column column]"
    have r: "parse_template_from spec rest1 [] ?segs True = Inr out"
      using 1(2) Some ba c by (simp add: parse_template_from.simps [of spec rest])
    have parts: "rest = before @ CHR ''['' # after" "CHR ''['' \<notin> set before"
      "after = column @ CHR '']'' # rest1" "CHR '']'' \<notin> set column"
      using Some ba c(1) by (simp_all add: split_once_Some)
    have ok: "\<forall>s \<in> set ?segs. segment_ok s"
      using 1(3,5) parts(2,4) c(2) by (simp add: segment_ok_def)
    have col: "True \<longrightarrow> (\<exists>c. Column c \<in> set ?segs)" by auto
    have pieces: "concat (map segment_text ?segs) = concat (map segment_text segments) @ before @ ''['' @ column @ '']''"
      using 1(5) by simp
    have "concat (map segment_text out) = concat (map segment_text ?segs) @ rest1
        \<and> (\<forall>s \<in> set out. segment_ok s) \<and> (\<exists>c. Column c \<in> set out)"
      by (rule 1(1) [OF Some ba [symmetric] c(1) refl c(2) r ok col refl])
    then show ?thesis unfolding pieces by (simp add: parts(1,3))
  qed
qed

text \<open>
  An accepted merge template is read losslessly: its segments put together are the
  template again, every column reference is non-empty and at least one is there, and no
  literal piece is empty or holds an opening bracket.
\<close>

theorem parse_template_lossless:
  assumes "parse_template template spec = Inr segs"
  shows "concat (map segment_text segs) = template \<and> (\<forall>s \<in> set segs. segment_ok s)
    \<and> (\<exists>c. Column c \<in> set segs)"
  using parse_template_from_text [OF assms [unfolded parse_template_def]] by simp

lemma parse_template_lossless_witness:
  "parse_template ''[first]_[last]'' ''_key=[first]_[last]''
     = Inr [Column ''first'', Literal ''_'', Column ''last'']
   \<and> concat (map segment_text [Column ''first'', Literal ''_'', Column ''last'']) = ''[first]_[last]''"
proof -
  have p: "parse_template ''[first]_[last]'' ''_key=[first]_[last]''
     = Inr [Column ''first'', Literal ''_'', Column ''last'']"
    by (simp add: parse_template_def parse_template_from.simps)
  show ?thesis using p parse_template_lossless [OF p] by blast
qed

lemma bt_wf_fold_insert:
  "bt_wf m \<Longrightarrow> bt_wf (fold (\<lambda>x m. bt_insert (k x) (v x) m) xs m)"
  by (induction xs arbitrary: m) auto

lemma apply_merges_wf: "bt_wf out \<Longrightarrow> bt_wf (apply_merges show_json rules source out)"
  by (simp add: apply_merges_def bt_wf_fold_insert)

text \<open>What holds of every attribute before the merges holds after them, if it holds of strings.\<close>

lemma apply_merges_attribute:
  assumes "bt_wf out" "\<And>k v. bt_get out k = Some v \<Longrightarrow> P k v" "\<And>k s. P k (JString s)"
    and "bt_get (apply_merges show_json rules source out) k = Some v"
  shows "P k v"
  using assms
proof (induction rules arbitrary: out)
  case Nil
  then show ?case by (simp add: apply_merges_def)
next
  case (Cons r rules)
  let ?out = "bt_insert (mr_target r) (JString (concat (map (render_segment show_json source) (mr_segments r)))) out"
  have "apply_merges show_json (r # rules) source out = apply_merges show_json rules source ?out"
    by (simp add: apply_merges_def)
  moreover have "bt_get ?out j = Some w \<Longrightarrow> P j w" for j w
    using Cons.prems(1-3) by (auto split: if_splits)
  ultimately show ?case
    using Cons.IH [of ?out] Cons.prems(1,3,4) by auto
qed

definition reserved_strings :: "column_transforms \<Rightarrow> (string, json) btree \<Rightarrow> bool" where
  "reserved_strings t source \<longleftrightarrow> bt_wf source \<and>
     (\<forall>k v. bt_get source k = Some v \<longrightarrow> is_reserved_string_field (target_name t k) \<longrightarrow> (\<exists>s. v = JString s))"

lemma decode_field_reserved:
  "reserved_strings t source \<Longrightarrow> decode_field pf t row nf source = Inr source' \<Longrightarrow> reserved_strings t source'"
  by (cases nf) (auto simp: decode_field_def reserved_strings_def res_simps split: if_splits)

lemma rename_attribute:
  assumes "bt_wf obj0" "\<forall>k v. bt_get obj0 k = Some v \<longrightarrow> P k v"
    and "\<forall>(k, v) \<in> set source. P (target_name t k) v"
  defines "obj \<equiv> fold (\<lambda>(name, v) obj. if is_removed t name then obj else bt_insert (target_name t name) v obj) source obj0"
  shows "bt_wf obj \<and> (\<forall>k v. bt_get obj k = Some v \<longrightarrow> P k v)"
  unfolding obj_def using assms(1-3)
proof (induction source arbitrary: obj0)
  case Nil
  then show ?case by simp
next
  case (Cons nv source)
  obtain n v where nv: "nv = (n, v)" by (cases nv)
  let ?obj = "if is_removed t n then obj0 else bt_insert (target_name t n) v obj0"
  have "bt_wf ?obj" "\<forall>k v. bt_get ?obj k = Some v \<longrightarrow> P k v"
    using Cons.prems nv by simp_all
  then show ?case using Cons.IH [of ?obj] Cons.prems(3) nv by simp
qed

text \<open>
  Attributes that the server requires to be strings are strings: whatever the columns look
  like and however they are typed, renamed, removed and merged, every \<open>_key\<close>, \<open>_from\<close>, \<open>_to\<close>
  and \<open>_id\<close> of every document a row yields is a JSON string.
\<close>

theorem reserved_fields_are_strings:
  assumes "read_row show_json parse_f64 t headers row cells = Inr d" "is_reserved_string_field k"
  shows "\<exists>obj. d = JObject obj \<and> (\<forall>v. bt_get obj k = Some v \<longrightarrow> (\<exists>s. v = JString s))"
proof -
  obtain source where src: "fold_res (decode_field parse_f64 t row) (zip headers cells) [] = Inr source"
    and d: "d = row_object show_json t source"
    using assms(1) by (auto simp: read_row_def res_simps)
  have r: "reserved_strings t source"
  proof (rule fold_res_invariant [OF src])
    show "reserved_strings t []" by (simp add: reserved_strings_def)
  qed (rule decode_field_reserved)
  let ?P = "\<lambda>k v. is_reserved_string_field k \<longrightarrow> (\<exists>s. v = JString s)"
  let ?obj0 = "fold (\<lambda>(name, v) obj. if is_removed t name then obj else bt_insert (target_name t name) v obj) source []"
  have "\<forall>(j, v) \<in> set source. ?P (target_name t j) v"
    using r by (auto simp: reserved_strings_def bt_get_in_set)
  then have o: "bt_wf ?obj0 \<and> (\<forall>k v. bt_get ?obj0 k = Some v \<longrightarrow> ?P k v)"
    by (intro rename_attribute) simp_all
  have "?P k v" if g: "bt_get (apply_merges show_json (ct_merges t) source ?obj0) k = Some v" for v
    by (rule apply_merges_attribute [OF _ _ _ g]) (use o in simp_all)
  then show ?thesis using assms(2) by (simp add: d row_object_def)
qed

lemma reserved_fields_are_strings_witness:
  "\<exists>obj. read_row (\<lambda>_. ''?'') (\<lambda>_. None) \<lparr>ct_types = Map.empty, ct_renames = [''id'' \<mapsto> ''_key''],
       ct_merges = [], ct_removals = []\<rparr> [''id'', ''n''] 2 [''00789'', ''5''] = Inr (JObject obj)
     \<and> bt_get obj ''_key'' = Some (JString ''00789'') \<and> bt_get obj ''n'' = Some (JInt 5)"
proof -
  let ?t = "\<lparr>ct_types = Map.empty, ct_renames = [''id'' \<mapsto> ''_key''], ct_merges = [], ct_removals = []\<rparr>"
  have r: "read_row (\<lambda>_. ''?'') (\<lambda>_. None) ?t [''id'', ''n''] 2 [''00789'', ''5''] =
      Inr (JObject [(''_key'', JString ''00789''), (''n'', JInt 5)])"
    by code_simp
  have k: "is_reserved_string_field ''_key''"
    by (simp add: is_reserved_string_field_def reserved_string_fields_def)
  have "\<exists>s. bt_get [(''_key'', JString ''00789''), (''n'', JInt 5)] ''_key'' = Some (JString s)"
    using reserved_fields_are_strings [OF r k] by (simp add: bt_get_def)
  then show ?thesis using r by (simp add: bt_get_def)
qed

text \<open>
  An identifier with leading zeros is never turned into a number: inference keeps it, in a
  merge as well, as the text it is; a text that is the decimal form of a 64-bit integer
  becomes that integer.
\<close>

theorem infer_scalar_identifiers:
  "(\<forall>c rest. is_digit c \<longrightarrow> infer_scalar pf (CHR ''0'' # c # rest) = JString (CHR ''0'' # c # rest))
   \<and> (\<forall>n. n < 2^63 \<longrightarrow> infer_scalar pf (dec n) = JInt (int n))"
proof (intro conjI allI impI)
  fix c :: char and rest :: string assume c: "is_digit c"
  have "c \<notin> {CHR ''.'', CHR ''e'', CHR ''E''}" using c by (auto simp: is_digit_def)
  then show "infer_scalar pf (CHR ''0'' # c # rest) = JString (CHR ''0'' # c # rest)"
    by (simp add: infer_scalar_def looks_numeric_def)
next
  fix n :: nat assume n: "n < 2^63"
  have d: "\<forall>c \<in> set (dec n). is_digit c" using dec_digits by blast
  have dots: "takeWhile (\<lambda>c. c \<notin> {CHR ''.'', CHR ''e'', CHR ''E''}) (dec n) = dec n"
    using d by (auto simp: takeWhile_eq_all_conv is_digit_def)
  obtain x xs where x: "dec n = x # xs" "is_digit x" using d by (cases "dec n") auto
  have sign: "x \<noteq> CHR ''+''" "x \<noteq> CHR ''-''" "x \<noteq> CHR ''t''" "x \<noteq> CHR ''f''" "x \<noteq> CHR ''n''"
    using x(2) by (auto simp: is_digit_def)
  have lead: "xs = [] \<or> x \<noteq> CHR ''0''" using x(1) dec_no_leading_zero [of n x xs] by auto
  have neg: "(case dec n of [] \<Rightarrow> (False, [])
        | c # cs \<Rightarrow> if c = CHR ''-'' then (True, cs) else if c = CHR ''+'' then (False, cs) else (False, dec n))
      = (False, dec n)"
    using x(1) sign by simp
  have i64: "parse_i64 (dec n) = Some (int n)"
    unfolding parse_i64_def neg Let_def prod.case using n d by (simp add: list_all_iff)
  have unsigned: "(case dec n of [] \<Rightarrow> dec n
        | c # cs \<Rightarrow> if c = CHR ''+'' \<or> c = CHR ''-'' then cs else dec n) = dec n"
    using x(1) sign by simp
  have num: "looks_numeric (dec n)"
    unfolding looks_numeric_def unsigned Let_def dots using x(1) lead by auto
  have words: "dec n \<noteq> ''true''" "dec n \<noteq> ''false''" "dec n \<noteq> ''null''"
    using x(1) sign by auto
  show "infer_scalar pf (dec n) = JInt (int n)"
    unfolding infer_scalar_def using words num i64 by simp
qed

lemma infer_scalar_identifiers_witness:
  "infer_scalar (\<lambda>_. None) ''007'' = JString ''007'' \<and> infer_scalar (\<lambda>_. None) (dec 42) = JInt 42"
proof -
  have "is_digit (CHR ''0'')" "(42 :: nat) < 2^63" by (simp_all add: is_digit_def)
  then show ?thesis
    using infer_scalar_identifiers [of "\<lambda>_. None"] by (metis of_nat_numeral)
qed

end
