(* ===== verification/Export.thy ===== *)
theory Export
  imports LocalFs Manifest Uri Readers
begin

text \<open>
  The export pipeline, crate \<open>arangodb-export\<close>: the document encoders of \<open>encode.rs\<close>, the
  split export of \<open>split.rs\<close> and the cursor task of \<open>cursor_stream.rs\<close>.  Parameters:
  \<open>ser\<close> (\<open>serde_json::to_vec\<close>), \<open>pretty\<close> (\<open>to_string_pretty\<close>), \<open>csv\<close> (one record of the \<open>csv\<close> crate's writer),
  \<open>show_json\<close> (\<open>Value::to_string\<close>), \<open>digest\<close> (SHA-256), \<open>gz\<close> and \<open>zstd\<close> (the
  encoders of \<open>async_compression\<close>), and the operations of the store.
\<close>

section \<open>Formats and cells\<close>

datatype export_format = ExpJsonLines | ExpJsonArray | ExpCsv

definition export_format_parse :: "string \<Rightarrow> export_format res" where
  "export_format_parse name =
     (let n = to_ascii_lowercase name in
      if n = ''jsonl'' \<or> n = ''ndjson'' then Inr ExpJsonLines
      else if n = ''json'' then Inr ExpJsonArray
      else if n = ''csv'' then Inr ExpCsv
      else Inl (Config (''unknown export format '' @ [CHR 0x27] @ n @ [CHR 0x27]
             @ ''; expected jsonl, json, or csv'')))"

fun export_extension :: "export_format \<Rightarrow> string" where
  "export_extension ExpJsonLines = ''jsonl''"
| "export_extension ExpJsonArray = ''json''"
| "export_extension ExpCsv = ''csv''"

text \<open>\<open>guard\<close>: the formula triggers of a spreadsheet.\<close>

definition formula_trigger :: "char \<Rightarrow> bool" where
  "formula_trigger c \<longleftrightarrow> c \<in> {CHR ''='', CHR ''+'', CHR ''-'', CHR ''@'', CHR 0x09, CHR 0x0D}"

definition guard :: "string \<Rightarrow> string" where
  "guard v = (case v of c # _ \<Rightarrow> if formula_trigger c then CHR 0x27 # v else v | [] \<Rightarrow> v)"

definition cell :: "(json \<Rightarrow> string) \<Rightarrow> json \<Rightarrow> string \<Rightarrow> string" where
  "cell show_json document col =
     (case jget document col of
        None \<Rightarrow> []
      | Some JNull \<Rightarrow> []
      | Some (JString s) \<Rightarrow> guard s
      | Some (JBool b) \<Rightarrow> (if b then ''true'' else ''false'')
      | Some (JInt i) \<Rightarrow> show_json (JInt i)
      | Some (JFloat x) \<Rightarrow> show_json (JFloat x)
      | Some other \<Rightarrow> guard (show_json other))"

section \<open>Encoders\<close>

definition json_line :: "(json \<Rightarrow> bytes res) \<Rightarrow> json \<Rightarrow> bytes res" where
  "json_line ser d = try_res (ser d) (\<lambda>t. Inr (t @ [newline]))"

definition json_element :: "(json \<Rightarrow> bytes res) \<Rightarrow> json \<Rightarrow> bytes res" where
  "json_element ser d = ser d"

definition csv_header :: "(string list \<Rightarrow> bytes res) \<Rightarrow> string list \<Rightarrow> bytes res" where
  "csv_header csv cols = csv cols"

definition csv_row ::
  "(string list \<Rightarrow> bytes res) \<Rightarrow> (json \<Rightarrow> string) \<Rightarrow> string list \<Rightarrow> json \<Rightarrow> bytes res"
where
  "csv_row csv show_json cols d = csv (map (cell show_json d) cols)"

text \<open>A stream ends at its first error (\<open>try_stream!\<close>).\<close>

fun encode_jsonl :: "(json \<Rightarrow> bytes res) \<Rightarrow> json res list \<Rightarrow> byte_stream" where
  "encode_jsonl ser [] = []"
| "encode_jsonl ser (Inl e # docs) = [Inl e]"
| "encode_jsonl ser (Inr d # docs) =
     (case json_line ser d of Inl e \<Rightarrow> [Inl e] | Inr t \<Rightarrow> Inr t # encode_jsonl ser docs)"

fun encode_elements :: "(json \<Rightarrow> bytes res) \<Rightarrow> bool \<Rightarrow> json res list \<Rightarrow> byte_stream" where
  "encode_elements ser first [] = [Inr '']'']"
| "encode_elements ser first (Inl e # docs) = [Inl e]"
| "encode_elements ser first (Inr d # docs) =
     (case ser d of
        Inl e \<Rightarrow> [Inl e]
      | Inr t \<Rightarrow> Inr ((if first then [] else '','') @ t) # encode_elements ser False docs)"

definition encode_json_array :: "(json \<Rightarrow> bytes res) \<Rightarrow> json res list \<Rightarrow> byte_stream" where
  "encode_json_array ser docs = Inr ''['' # encode_elements ser True docs"

fun encode_rows ::
  "(string list \<Rightarrow> bytes res) \<Rightarrow> (json \<Rightarrow> string) \<Rightarrow> string list \<Rightarrow> json res list \<Rightarrow> byte_stream"
where
  "encode_rows csv show_json cols [] = []"
| "encode_rows csv show_json cols (Inl e # docs) = [Inl e]"
| "encode_rows csv show_json cols (Inr d # docs) =
     (case csv_row csv show_json cols d of
        Inl e \<Rightarrow> [Inl e] | Inr t \<Rightarrow> Inr t # encode_rows csv show_json cols docs)"

definition encode_csv ::
  "(string list \<Rightarrow> bytes res) \<Rightarrow> (json \<Rightarrow> string) \<Rightarrow> string list \<Rightarrow> json res list \<Rightarrow> byte_stream"
where
  "encode_csv csv show_json cols docs =
     (case csv_header csv cols of
        Inl e \<Rightarrow> [Inl e] | Inr t \<Rightarrow> Inr t # encode_rows csv show_json cols docs)"

definition encode ::
  "(json \<Rightarrow> bytes res) \<Rightarrow> (string list \<Rightarrow> bytes res) \<Rightarrow> (json \<Rightarrow> string) \<Rightarrow> export_format
   \<Rightarrow> string list option \<Rightarrow> json res list \<Rightarrow> byte_stream res"
where
  "encode ser csv show_json fmt cols docs =
     (case fmt of
        ExpJsonLines \<Rightarrow> Inr (encode_jsonl ser docs)
      | ExpJsonArray \<Rightarrow> Inr (encode_json_array ser docs)
      | ExpCsv \<Rightarrow>
          try_res (ok_or (Config ''CSV export requires an explicit list of fields'') cols) (\<lambda>cols.
            if cols = [] then Inl (Config ''CSV export requires at least one field'')
            else Inr (encode_csv csv show_json cols docs)))"

text \<open>\<open>run_export\<close>: one object; the progress ticker only observes.\<close>

definition run_export ::
  "(json \<Rightarrow> bytes res) \<Rightarrow> (string list \<Rightarrow> bytes res) \<Rightarrow> (json \<Rightarrow> string)
   \<Rightarrow> (byte_stream \<Rightarrow> byte_stream) \<Rightarrow> (byte_stream \<Rightarrow> byte_stream)
   \<Rightarrow> (object_path \<Rightarrow> byte_stream \<Rightarrow> 's \<Rightarrow> object_metadata res \<times> 's)
   \<Rightarrow> json res list \<Rightarrow> export_format \<Rightarrow> string list option \<Rightarrow> codec \<Rightarrow> object_path \<Rightarrow> 's
   \<Rightarrow> object_metadata res \<times> 's"
where
  "run_export ser csv show_json gz zstd put docs fmt cols cmp path s =
     (case encode ser csv show_json fmt cols docs of
        Inl e \<Rightarrow> (Inl e, s)
      | Inr encoded \<Rightarrow> put path (compress_stream gz zstd cmp encoded) s)"

section \<open>The cursor\<close>

text \<open>The cursor request, with its JSON body; \<open>None\<close> fields are left out.\<close>

record cursor_request =
  cr_query :: string
  cr_bind_vars :: "json option"
  cr_batch_size :: "nat option"
  cr_ttl :: "nat option"
  cr_stream :: bool

definition cursor_request_new :: "string \<Rightarrow> cursor_request" where
  "cursor_request_new query = \<lparr>cr_query = query, cr_bind_vars = None, cr_batch_size = None,
     cr_ttl = None, cr_stream = True\<rparr>"

definition with_bind_vars :: "json \<Rightarrow> cursor_request \<Rightarrow> cursor_request" where
  "with_bind_vars v r = r\<lparr>cr_bind_vars := Some v\<rparr>"

definition with_batch_size :: "nat \<Rightarrow> cursor_request \<Rightarrow> cursor_request" where
  "with_batch_size n r = r\<lparr>cr_batch_size := Some n\<rparr>"

definition with_ttl :: "nat \<Rightarrow> cursor_request \<Rightarrow> cursor_request" where
  "with_ttl n r = r\<lparr>cr_ttl := Some n\<rparr>"

definition cursor_request_to_value :: "cursor_request \<Rightarrow> json" where
  "cursor_request_to_value r = json_object
     ([(''query'', JString (cr_query r))]
      @ opt_field ''bindVars'' id (cr_bind_vars r)
      @ opt_field ''batchSize'' jnat (cr_batch_size r)
      @ opt_field ''ttl'' jnat (cr_ttl r)
      @ [(''options'', json_object [(''stream'', JBool (cr_stream r))])])"

definition collection_query :: "string \<Rightarrow> nat \<Rightarrow> cursor_request" where
  "collection_query collection batch_size =
     with_batch_size batch_size
       (with_bind_vars (json_object [(''@collection'', JString collection)])
         (cursor_request_new ''FOR doc IN @@collection RETURN doc''))"

text \<open>
  The task of \<open>document_stream\<close>.  The server's answers come in order as a list (an empty rest
  is an answer still awaited); the consumer takes the first \<open>accepts\<close> messages of the channel
  and then drops it.  The task's run is what it sent, the calls it made, and whether it ended.
\<close>

record cursor_batch =
  cb_result :: "json list"
  cb_has_more :: bool
  cb_id :: "string option"

datatype cursor_call = CallOpen | CallNext string | CallDelete string

fun cursor_loop ::
  "nat \<Rightarrow> cursor_batch \<Rightarrow> cursor_batch res list \<Rightarrow> json list res list \<times> cursor_call list \<times> bool"
where
  "cursor_loop 0 batch replies =
     ([], (case cb_id batch of Some i \<Rightarrow> [CallDelete i] | None \<Rightarrow> []), True)"
| "cursor_loop (Suc accepts) batch [] =
     (if \<not> cb_has_more batch then ([Inr (cb_result batch)], [], True)
      else (case cb_id batch of
              None \<Rightarrow> ([Inr (cb_result batch)], [], True)
            | Some i \<Rightarrow> ([Inr (cb_result batch)], [CallNext i], False)))"
| "cursor_loop (Suc accepts) batch (reply # replies) =
     (if \<not> cb_has_more batch then ([Inr (cb_result batch)], [], True)
      else (case cb_id batch of
              None \<Rightarrow> ([Inr (cb_result batch)], [], True)
            | Some i \<Rightarrow>
                (case reply of
                   Inl e \<Rightarrow> (Inr (cb_result batch) # take accepts [Inl e], [CallNext i], True)
                 | Inr b \<Rightarrow>
                     (let (sent, calls, done1) = cursor_loop accepts b replies
                      in (Inr (cb_result batch) # sent, CallNext i # calls, done1)))))"

definition cursor_task ::
  "nat \<Rightarrow> cursor_batch res list \<Rightarrow> json list res list \<times> cursor_call list \<times> bool"
where
  "cursor_task accepts replies =
     (case replies of
        [] \<Rightarrow> ([], [CallOpen], False)
      | Inl e # _ \<Rightarrow> (take accepts [Inl e], [CallOpen], True)
      | Inr b # rest \<Rightarrow>
          (let (sent, calls, done1) = cursor_loop accepts b rest in (sent, CallOpen # calls, done1)))"

text \<open>The stream the consumer sees: the documents of the messages, up to the first error.\<close>

fun document_stream :: "json list res list \<Rightarrow> json res list" where
  "document_stream [] = []"
| "document_stream (Inl e # items) = [Inl e]"
| "document_stream (Inr ds # items) = map Inr ds @ document_stream items"

section \<open>Parts\<close>

record part_framer =
  pf_format :: export_format
  pf_fields :: "string list option"
  pf_array_first :: bool

definition framer_new :: "export_format \<Rightarrow> string list option \<Rightarrow> part_framer res" where
  "framer_new fmt cols =
     (if fmt = ExpCsv \<and> (case cols of Some f \<Rightarrow> f = [] | None \<Rightarrow> True)
      then Inl (Config ''CSV split export requires an explicit, non-empty list of fields'')
      else Inr \<lparr>pf_format = fmt, pf_fields = cols, pf_array_first = True\<rparr>)"

definition framer_data_format :: "part_framer \<Rightarrow> data_format" where
  "framer_data_format f =
     (case pf_format f of ExpJsonLines \<Rightarrow> Jsonl | ExpJsonArray \<Rightarrow> Json | ExpCsv \<Rightarrow> Csv)"

definition framer_columns :: "part_framer \<Rightarrow> string list" where
  "framer_columns f = (case pf_fields f of Some cols \<Rightarrow> cols | None \<Rightarrow> [])"

definition framer_open :: "(string list \<Rightarrow> bytes res) \<Rightarrow> part_framer \<Rightarrow> bytes res \<times> part_framer" where
  "framer_open csv f =
     (case pf_format f of
        ExpJsonLines \<Rightarrow> (Inr [], f)
      | ExpJsonArray \<Rightarrow> (Inr ''['', f\<lparr>pf_array_first := True\<rparr>)
      | ExpCsv \<Rightarrow> (csv_header csv (framer_columns f), f))"

definition framer_record ::
  "(json \<Rightarrow> bytes res) \<Rightarrow> (string list \<Rightarrow> bytes res) \<Rightarrow> (json \<Rightarrow> string) \<Rightarrow> json \<Rightarrow> part_framer
   \<Rightarrow> bytes res \<times> part_framer"
where
  "framer_record ser csv show_json d f =
     (case pf_format f of
        ExpJsonLines \<Rightarrow> (json_line ser d, f)
      | ExpJsonArray \<Rightarrow>
          (try_res (json_element ser d) (\<lambda>t. Inr ((if pf_array_first f then [] else '','') @ t)),
           f\<lparr>pf_array_first := False\<rparr>)
      | ExpCsv \<Rightarrow> (csv_row csv show_json (framer_columns f) d, f))"

definition framer_close :: "part_framer \<Rightarrow> bytes" where
  "framer_close f =
     (case pf_format f of ExpJsonLines \<Rightarrow> [] | ExpCsv \<Rightarrow> [] | ExpJsonArray \<Rightarrow> '']'')"

record manifest_meta =
  mm_database :: string
  mm_tool_version :: string
  mm_created_at :: string
  mm_source :: "string option"

text \<open>\<open>sha256_hex\<close>: two lower-case hexadecimal digits per byte of the digest.\<close>

definition hex_digit :: "nat \<Rightarrow> char" where
  "hex_digit n = (if n < 10 then char_of (48 + n) else char_of (87 + n))"

definition hex_byte :: "char \<Rightarrow> string" where
  "hex_byte c = [hex_digit (of_char c div 16), hex_digit (of_char c mod 16)]"

definition sha256_hex :: "(bytes \<Rightarrow> bytes) \<Rightarrow> bytes \<Rightarrow> string" where
  "sha256_hex digest b = concat (map hex_byte (digest b))"

fun map_compression :: "codec \<Rightarrow> compression" where
  "map_compression CodecNone = Uncompressed"
| "map_compression CodecGzip = Gzip"
| "map_compression CodecZstd = Zstd"

definition part_suffix :: "export_format \<Rightarrow> codec \<Rightarrow> string" where
  "part_suffix fmt cmp =
     (case codec_extension cmp of
        Some ext \<Rightarrow> export_extension fmt @ ''.'' @ ext
      | None \<Rightarrow> export_extension fmt)"

definition part_path :: "string \<Rightarrow> export_format \<Rightarrow> codec \<Rightarrow> nat \<Rightarrow> string" where
  "part_path base fmt cmp part = base @ ''.part-'' @ dec_pad 5 part @ ''.'' @ part_suffix fmt cmp"

definition write_part ::
  "(bytes \<Rightarrow> bytes) \<Rightarrow> (byte_stream \<Rightarrow> byte_stream) \<Rightarrow> (byte_stream \<Rightarrow> byte_stream)
   \<Rightarrow> (object_path \<Rightarrow> byte_stream \<Rightarrow> 's \<Rightarrow> object_metadata res \<times> 's)
   \<Rightarrow> string \<Rightarrow> nat \<Rightarrow> bytes \<Rightarrow> codec \<Rightarrow> part_framer \<Rightarrow> manifest \<Rightarrow> 's \<Rightarrow> manifest res \<times> 's"
where
  "write_part digest gz zstd put base part payload cmp f m s =
     (let path = part_path base (pf_format f) cmp part in
      case read_all (compress_stream gz zstd cmp (once payload)) of
        Inl e \<Rightarrow> (Inl e, s)
      | Inr compressed \<Rightarrow>
          (case put (path_new path) (once compressed) s of
             (Inl e, s1) \<Rightarrow> (Inl e, s1)
           | (Inr written, s1) \<Rightarrow>
               (Inr (manifest_push
                  \<lparr>a_path = path, a_kind = Data, a_format = framer_data_format f,
                   a_compression = map_compression cmp, a_byte_size = om_size written,
                   a_checksum = Some \<lparr>cs_algorithm = ''sha256'', cs_value = sha256_hex digest compressed\<rparr>,
                   a_collection = None, a_view = None, a_database = None, a_part = Some part\<rparr> m), s1)))"

text \<open>A progress snapshot: cumulative object bytes and parts written.\<close>

definition emit_part_progress :: "manifest \<Rightarrow> nat \<Rightarrow> nat \<times> (nat \<times> nat)" where
  "emit_part_progress m written =
     (let w = (if m_artifacts m = [] then written else written + a_byte_size (last (m_artifacts m)))
      in (w, (w, length (m_artifacts m))))"

record split_state =
  sp_framer :: part_framer
  sp_buffer :: bytes
  sp_records :: nat
  sp_part :: nat
  sp_written :: nat
  sp_manifest :: manifest
  sp_events :: "(nat \<times> nat) list"

text \<open>Closing the current part: the close bytes, the write, the progress snapshot.\<close>

definition flush_part ::
  "(bytes \<Rightarrow> bytes) \<Rightarrow> (byte_stream \<Rightarrow> byte_stream) \<Rightarrow> (byte_stream \<Rightarrow> byte_stream)
   \<Rightarrow> (object_path \<Rightarrow> byte_stream \<Rightarrow> 's \<Rightarrow> object_metadata res \<times> 's)
   \<Rightarrow> string \<Rightarrow> codec \<Rightarrow> split_state \<Rightarrow> 's \<Rightarrow> split_state res \<times> 's"
where
  "flush_part digest gz zstd put base cmp st s =
     (case write_part digest gz zstd put base (sp_part st)
             (sp_buffer st @ framer_close (sp_framer st)) cmp (sp_framer st) (sp_manifest st) s of
        (Inl e, s1) \<Rightarrow> (Inl e, s1)
      | (Inr m, s1) \<Rightarrow>
          (let (w, ev) = emit_part_progress m (sp_written st)
           in (Inr (st\<lparr>sp_manifest := m, sp_written := w, sp_events := sp_events st @ [ev]\<rparr>), s1)))"

text \<open>One document of the stream.\<close>

definition split_step ::
  "(json \<Rightarrow> bytes res) \<Rightarrow> (string list \<Rightarrow> bytes res) \<Rightarrow> (json \<Rightarrow> string) \<Rightarrow> (bytes \<Rightarrow> bytes)
   \<Rightarrow> (byte_stream \<Rightarrow> byte_stream) \<Rightarrow> (byte_stream \<Rightarrow> byte_stream)
   \<Rightarrow> (object_path \<Rightarrow> byte_stream \<Rightarrow> 's \<Rightarrow> object_metadata res \<times> 's)
   \<Rightarrow> string \<Rightarrow> codec \<Rightarrow> nat \<Rightarrow> json res \<Rightarrow> split_state \<Rightarrow> 's \<Rightarrow> split_state res \<times> 's"
where
  "split_step ser csv show_json digest gz zstd put base cmp threshold item st s =
     (case item of
        Inl e \<Rightarrow> (Inl e, s)
      | Inr d \<Rightarrow>
          (case framer_record ser csv show_json d (sp_framer st) of
             (Inl e, f) \<Rightarrow> (Inl e, s)
           | (Inr t, f) \<Rightarrow>
               (let st1 = st\<lparr>sp_framer := f, sp_buffer := sp_buffer st @ t,
                             sp_records := sp_records st + 1\<rparr> in
                if threshold \<le> length (sp_buffer st1)
                then (case flush_part digest gz zstd put base cmp st1 s of
                        (Inl e, s1) \<Rightarrow> (Inl e, s1)
                      | (Inr st2, s1) \<Rightarrow>
                          (case framer_open csv (sp_framer st2) of
                             (Inl e, f2) \<Rightarrow> (Inl e, s1)
                           | (Inr b, f2) \<Rightarrow>
                               (Inr (st2\<lparr>sp_framer := f2, sp_buffer := b, sp_records := 0,
                                         sp_part := sp_part st2 + 1\<rparr>), s1)))
                else (Inr st1, s))))"

fun split_docs ::
  "(json \<Rightarrow> bytes res) \<Rightarrow> (string list \<Rightarrow> bytes res) \<Rightarrow> (json \<Rightarrow> string) \<Rightarrow> (bytes \<Rightarrow> bytes)
   \<Rightarrow> (byte_stream \<Rightarrow> byte_stream) \<Rightarrow> (byte_stream \<Rightarrow> byte_stream)
   \<Rightarrow> (object_path \<Rightarrow> byte_stream \<Rightarrow> 's \<Rightarrow> object_metadata res \<times> 's)
   \<Rightarrow> string \<Rightarrow> codec \<Rightarrow> nat \<Rightarrow> json res list \<Rightarrow> split_state \<Rightarrow> 's \<Rightarrow> split_state res \<times> 's"
where
  "split_docs ser csv show_json digest gz zstd put base cmp threshold [] st s = (Inr st, s)"
| "split_docs ser csv show_json digest gz zstd put base cmp threshold (item # docs) st s =
     (case split_step ser csv show_json digest gz zstd put base cmp threshold item st s of
        (Inl e, s1) \<Rightarrow> (Inl e, s1)
      | (Inr st1, s1) \<Rightarrow>
          split_docs ser csv show_json digest gz zstd put base cmp threshold docs st1 s1)"

definition manifest_path :: "string \<Rightarrow> string" where
  "manifest_path base = base @ ''.manifest.json''"

definition run_split_export ::
  "(json \<Rightarrow> bytes res) \<Rightarrow> (json \<Rightarrow> bytes res) \<Rightarrow> (string list \<Rightarrow> bytes res) \<Rightarrow> (json \<Rightarrow> string) \<Rightarrow> (bytes \<Rightarrow> bytes)
   \<Rightarrow> (byte_stream \<Rightarrow> byte_stream) \<Rightarrow> (byte_stream \<Rightarrow> byte_stream)
   \<Rightarrow> (object_path \<Rightarrow> byte_stream \<Rightarrow> 's \<Rightarrow> object_metadata res \<times> 's)
   \<Rightarrow> json res list \<Rightarrow> export_format \<Rightarrow> string list option \<Rightarrow> codec \<Rightarrow> string \<Rightarrow> nat
   \<Rightarrow> manifest_meta \<Rightarrow> 's \<Rightarrow> (manifest \<times> (nat \<times> nat) list) res \<times> 's"
where
  "run_split_export ser pretty csv show_json digest gz zstd put docs fmt cols cmp base max_part_bytes meta s =
     (let m0 = (manifest_new (mm_database meta) (mm_tool_version meta) (mm_created_at meta))
                 \<lparr>m_source := mm_source meta\<rparr> in
      case framer_new fmt cols of
        Inl e \<Rightarrow> (Inl e, s)
      | Inr f0 \<Rightarrow>
        (case framer_open csv f0 of
           (Inl e, f1) \<Rightarrow> (Inl e, s)
         | (Inr b, f1) \<Rightarrow>
           (case split_docs ser csv show_json digest gz zstd put base cmp (max max_part_bytes 1) docs
                   \<lparr>sp_framer = f1, sp_buffer = b, sp_records = 0, sp_part = 0, sp_written = 0,
                    sp_manifest = m0, sp_events = []\<rparr> s of
              (Inl e, s1) \<Rightarrow> (Inl e, s1)
            | (Inr st, s1) \<Rightarrow>
              (case (if 0 < sp_records st \<or> sp_part st = 0
                     then flush_part digest gz zstd put base cmp st s1 else (Inr st, s1)) of
                 (Inl e, s2) \<Rightarrow> (Inl e, s2)
               | (Inr st2, s2) \<Rightarrow>
                 (case pretty (manifest_to_value (sp_manifest st2)) of
                    Inl e \<Rightarrow> (Inl e, s2)
                  | Inr text_json \<Rightarrow>
                    (case put (path_new (manifest_path base)) (once text_json) s2 of
                       (Inl e, s3) \<Rightarrow> (Inl e, s3)
                     | (Inr _, s3) \<Rightarrow> (Inr (sp_manifest st2, sp_events st2), s3)))))))"

section \<open>What a part holds\<close>

text \<open>The text of one document and of a part, and the record the manifest has of a part.\<close>

definition doc_text ::
  "(json \<Rightarrow> bytes res) \<Rightarrow> (string list \<Rightarrow> bytes res) \<Rightarrow> (json \<Rightarrow> string) \<Rightarrow> export_format
   \<Rightarrow> string list option \<Rightarrow> json \<Rightarrow> bytes res"
where
  "doc_text ser csv show_json fmt cols d =
     (if fmt = ExpCsv then csv_row csv show_json (case cols of Some f \<Rightarrow> f | None \<Rightarrow> []) d else ser d)"

fun part_text :: "export_format \<Rightarrow> bytes \<Rightarrow> bytes list \<Rightarrow> bytes" where
  "part_text ExpJsonLines h ts = concat (map (\<lambda>t. t @ [newline]) ts)"
| "part_text ExpJsonArray h ts = ''['' @ join '','' ts"
| "part_text ExpCsv h ts = h @ concat ts"

definition part_document :: "export_format \<Rightarrow> bytes \<Rightarrow> bytes list \<Rightarrow> bytes" where
  "part_document fmt h ts = part_text fmt h ts @ (if fmt = ExpJsonArray then '']'' else [])"

definition part_stored ::
  "(bytes \<Rightarrow> bytes) \<Rightarrow> (byte_stream \<Rightarrow> byte_stream) \<Rightarrow> (byte_stream \<Rightarrow> byte_stream)
   \<Rightarrow> string \<Rightarrow> export_format \<Rightarrow> codec \<Rightarrow> (object_path \<Rightarrow> bytes option) \<Rightarrow> nat \<Rightarrow> bytes \<Rightarrow> artifact \<Rightarrow> bool"
where
  "part_stored digest gz zstd base fmt cmp look i payload a \<longleftrightarrow>
     (\<exists>c. read_all (compress_stream gz zstd cmp (once payload)) = Inr c
        \<and> look (path_new (part_path base fmt cmp i)) = Some c
        \<and> a = \<lparr>a_path = part_path base fmt cmp i, a_kind = Data,
               a_format = (case fmt of ExpJsonLines \<Rightarrow> Jsonl | ExpJsonArray \<Rightarrow> Json | ExpCsv \<Rightarrow> Csv),
               a_compression = map_compression cmp, a_byte_size = length c,
               a_checksum = Some \<lparr>cs_algorithm = ''sha256'', cs_value = sha256_hex digest c\<rparr>,
               a_collection = None, a_view = None, a_database = None, a_part = Some i\<rparr>)"

text \<open>A finished part reached the threshold with its last record and not before.\<close>

definition part_cut :: "export_format \<Rightarrow> bytes \<Rightarrow> nat \<Rightarrow> bytes list \<Rightarrow> bool" where
  "part_cut fmt h threshold g \<longleftrightarrow> g \<noteq> [] \<and> threshold \<le> length (part_text fmt h g)
     \<and> (butlast g = [] \<or> length (part_text fmt h (butlast g)) < threshold)"

lemma join_snoc: "join sep (xs @ [x]) = (if xs = [] then x else join sep xs @ sep @ x)"
  by (induction sep xs rule: join.induct) auto

lemma part_text_snoc:
  "part_text fmt h (ts @ [t]) =
     part_text fmt h ts @ (case fmt of ExpJsonLines \<Rightarrow> t @ [newline]
        | ExpJsonArray \<Rightarrow> (if ts = [] then t else '','' @ t) | ExpCsv \<Rightarrow> t)"
  by (cases fmt) (simp_all add: join_snoc)

text \<open>The framer of an export never changes but for its flag.\<close>

definition framer_at :: "export_format \<Rightarrow> string list option \<Rightarrow> bytes list \<Rightarrow> part_framer \<Rightarrow> bool" where
  "framer_at fmt cols ts f \<longleftrightarrow> pf_format f = fmt \<and> pf_fields f = cols
     \<and> (fmt = ExpJsonArray \<longrightarrow> pf_array_first f = (ts = []))"

lemma framer_open_spec:
  assumes "framer_at fmt cols ts f" "framer_open csv f = (Inr b, f1)"
  shows "framer_at fmt cols [] f1
    \<and> (fmt = ExpCsv \<longrightarrow> csv (case cols of Some c \<Rightarrow> c | None \<Rightarrow> []) = Inr b)
    \<and> (fmt = ExpJsonLines \<longrightarrow> b = []) \<and> (fmt = ExpJsonArray \<longrightarrow> b = ''['')"
  using assms
  by (cases fmt) (auto simp: framer_at_def framer_open_def csv_header_def framer_columns_def)

lemma framer_open_text:
  assumes "framer_at fmt cols ts f" "framer_open csv f = (Inr b, f1)"
    and "fmt = ExpCsv \<longrightarrow> csv (case cols of Some c \<Rightarrow> c | None \<Rightarrow> []) = Inr h"
  shows "framer_at fmt cols [] f1 \<and> b = part_text fmt h []"
  using framer_open_spec [OF assms(1,2)] assms(3) by (cases fmt) auto

lemma framer_record_spec:
  assumes "framer_at fmt cols ts f" "framer_record ser csv show_json d f = (Inr b, f1)"
  shows "\<exists>t. doc_text ser csv show_json fmt cols d = Inr t \<and> framer_at fmt cols (ts @ [t]) f1
    \<and> part_text fmt h ts @ b = part_text fmt h (ts @ [t])"
  using assms
  by (cases fmt)
    (auto simp: framer_at_def framer_record_def json_line_def json_element_def doc_text_def
      csv_row_def framer_columns_def res_simps part_text_snoc simp del: part_text.simps)

lemma framer_close_spec: "framer_at fmt cols ts f \<Longrightarrow> part_text fmt h g @ framer_close f = part_document fmt h g"
  by (cases fmt) (simp_all add: framer_at_def framer_close_def part_document_def)

section \<open>The export over a store\<close>

text \<open>
  The names an export writes end in suffixes of the base path that hold no separator and are
  not the special names; a store that accepted an object under such a name can be read there,
  and distinct suffixes are distinct objects.
\<close>

definition name_suffix :: "string \<Rightarrow> bool" where
  "name_suffix a \<longleftrightarrow> CHR ''/'' \<notin> set a \<and> 2 < length a"

locale named_store = object_store put put_absent get head delete key obj wf
  for put :: "object_path \<Rightarrow> byte_stream \<Rightarrow> 's \<Rightarrow> object_metadata res \<times> 's"
    and put_absent get head delete and key :: "object_path \<Rightarrow> 'k" and obj wf +
  assumes key_suffix: "key (path_new (b @ x)) = key (path_new (b @ y)) \<Longrightarrow>
        name_suffix x \<Longrightarrow> name_suffix y \<Longrightarrow> x = y"
    and put_readable: "wf s \<Longrightarrow> put p bs s = (Inr m, s') \<Longrightarrow> wf t \<Longrightarrow> obj t (key p) = Some c \<Longrightarrow>
        \<exists>cs. get p None t = Inr cs \<and> read_all cs = Inr c"

lemma part_suffix_free: "CHR ''/'' \<notin> set (part_suffix fmt cmp)"
  by (cases fmt; cases cmp) (simp_all add: part_suffix_def)

lemma part_name_suffix: "name_suffix (''.part-'' @ dec_pad 5 i @ ''.'' @ part_suffix fmt cmp)"
  using part_suffix_free [of fmt cmp]
  by (auto simp: name_suffix_def is_digit_def dest: dec_pad_digits)

lemma manifest_name_suffix: "name_suffix ''.manifest.json''"
  by (simp add: name_suffix_def)

text \<open>The loop invariant: closed parts, the current part, and what the store holds.\<close>

definition split_inv ::
  "(bytes \<Rightarrow> bytes) \<Rightarrow> (byte_stream \<Rightarrow> byte_stream) \<Rightarrow> (byte_stream \<Rightarrow> byte_stream)
   \<Rightarrow> string \<Rightarrow> export_format \<Rightarrow> string list option \<Rightarrow> codec \<Rightarrow> bytes \<Rightarrow> nat \<Rightarrow> (object_path \<Rightarrow> bytes option)
   \<Rightarrow> bytes list list \<Rightarrow> bytes list \<Rightarrow> split_state \<Rightarrow> bool"
where
  "split_inv digest gz zstd base fmt cols cmp h threshold look gs cur st \<longleftrightarrow>
     framer_at fmt cols cur (sp_framer st) \<and> sp_buffer st = part_text fmt h cur
     \<and> sp_records st = length cur \<and> sp_part st = length gs
     \<and> length (m_artifacts (sp_manifest st)) = length gs
     \<and> (cur = [] \<or> length (part_text fmt h cur) < threshold)
     \<and> (\<forall>g \<in> set gs. part_cut fmt h threshold g)
     \<and> (\<forall>i < length gs. part_stored digest gz zstd base fmt cmp look i (part_document fmt h (gs ! i))
                            (m_artifacts (sp_manifest st) ! i))"

context named_store
begin

text \<open>What can be fetched under a path the store once accepted.\<close>

definition look :: "'s \<Rightarrow> object_path \<Rightarrow> bytes option" where
  "look s p =
     (if \<forall>t c. wf t \<longrightarrow> obj t (key p) = Some c \<longrightarrow> (\<exists>cs. get p None t = Inr cs \<and> read_all cs = Inr c)
      then obj s (key p) else None)"

lemma look_put:
  assumes "wf s" "put p bs s = (Inr m, s')"
  shows "look s' p = obj s' (key p)"
  using put_readable [OF assms] by (simp add: look_def)

lemma look_frame: "obj s' (key p) = obj s (key p) \<Longrightarrow> look s' p = look s p"
  by (simp only: look_def)

lemma look_Some:
  assumes "look s p = Some c" "wf s"
  shows "obj s (key p) = Some c \<and> (\<exists>cs. get p None s = Inr cs \<and> read_all cs = Inr c)"
  using assms by (auto simp: look_def split: if_splits)

lemma part_stored_get:
  assumes "part_stored digest gz zstd base fmt cmp (look s) i b a" "wf s"
  shows "part_stored digest gz zstd base fmt cmp (\<lambda>p. obj s (key p)) i b a
    \<and> (\<exists>c cs. get (path_new (a_path a)) None s = Inr cs \<and> read_all cs = Inr c
         \<and> read_all (compress_stream gz zstd cmp (once b)) = Inr c)"
proof -
  obtain c where c: "read_all (compress_stream gz zstd cmp (once b)) = Inr c"
    "look s (path_new (part_path base fmt cmp i)) = Some c" "a_path a = part_path base fmt cmp i"
    using assms(1) by (auto simp: part_stored_def)
  then show ?thesis
    using look_Some [OF c(2) assms(2)] assms(1) unfolding part_stored_def by auto
qed

lemma part_key_inj: "key (path_new (part_path base fmt cmp i)) = key (path_new (part_path base fmt cmp j)) \<longleftrightarrow> i = j"
  using key_suffix [of base "''.part-'' @ dec_pad 5 i @ ''.'' @ part_suffix fmt cmp"
      "''.part-'' @ dec_pad 5 j @ ''.'' @ part_suffix fmt cmp"]
    part_name_suffix [of i fmt cmp] part_name_suffix [of j fmt cmp]
  by (auto simp: part_path_def)

lemma manifest_key: "key (path_new (manifest_path base)) \<noteq> key (path_new (part_path base fmt cmp i))"
  using key_suffix [of base "''.manifest.json''" "''.part-'' @ dec_pad 5 i @ ''.'' @ part_suffix fmt cmp"]
    part_name_suffix [of i fmt cmp] manifest_name_suffix
  by (auto simp: part_path_def manifest_path_def)

lemma part_stored_frame:
  assumes "part_stored digest gz zstd base fmt cmp (look s) i b a"
    and "\<And>p. key p \<noteq> key q \<Longrightarrow> obj s' (key p) = obj s (key p)"
    and "key (path_new (part_path base fmt cmp i)) \<noteq> key q"
  shows "part_stored digest gz zstd base fmt cmp (look s') i b a"
  using assms(1) look_frame [OF assms(2) [OF assms(3)]] by (simp only: part_stored_def)

lemma write_part_spec:
  assumes "wf s" "framer_at fmt cols ts f"
    and "write_part digest gz zstd put base i payload cmp f m s = (Inr m', s')"
  shows "wf s' \<and> (\<exists>a. m' = m\<lparr>m_artifacts := m_artifacts m @ [a]\<rparr>
      \<and> part_stored digest gz zstd base fmt cmp (look s') i payload a)
    \<and> (\<forall>k. k \<noteq> key (path_new (part_path base fmt cmp i)) \<longrightarrow> obj s' k = obj s k)"
proof -
  let ?p = "path_new (part_path base fmt cmp i)"
  obtain c w where c: "read_all (compress_stream gz zstd cmp (once payload)) = Inr c"
    "put ?p (once c) s = (Inr w, s')"
    using assms(2,3)
    by (auto simp: write_part_def Let_def framer_at_def split: sum.splits prod.splits)
  have put_facts: "obj s' (key ?p) = Some c" "w = \<lparr>om_path = ?p, om_size = length c\<rparr>"
    using put_ok [OF assms(1) c(2)] by simp_all
  then show ?thesis
    using put_wf [OF assms(1) c(2)] put_frame [OF assms(1) c(2)] look_put [OF assms(1) c(2)] assms(2,3) c
    by (auto simp: write_part_def Let_def framer_at_def manifest_push_def part_stored_def
        framer_data_format_def)
qed

lemma flush_spec:
  assumes "wf s" "framer_at fmt cols cur (sp_framer st)" "sp_buffer st = part_text fmt h cur"
    and "sp_part st = length gs" "length (m_artifacts (sp_manifest st)) = length gs"
    and stored: "\<forall>i < length gs. part_stored digest gz zstd base fmt cmp (look s) i
           (part_document fmt h (gs ! i)) (m_artifacts (sp_manifest st) ! i)"
    and flush: "flush_part digest gz zstd put base cmp st s = (Inr st', s')"
  shows "wf s' \<and> sp_framer st' = sp_framer st \<and> sp_part st' = sp_part st
    \<and> length (m_artifacts (sp_manifest st')) = Suc (length gs)
    \<and> (\<forall>i < Suc (length gs). part_stored digest gz zstd base fmt cmp (look s') i
         (part_document fmt h ((gs @ [cur]) ! i)) (m_artifacts (sp_manifest st') ! i))"
proof -
  have payload: "sp_buffer st @ framer_close (sp_framer st) = part_document fmt h cur"
    using framer_close_spec [OF assms(2)] assms(3) by simp
  obtain m where m: "write_part digest gz zstd put base (length gs) (part_document fmt h cur) cmp
      (sp_framer st) (sp_manifest st) s = (Inr m, s')"
    "sp_framer st' = sp_framer st" "sp_part st' = sp_part st" "sp_manifest st' = m"
    using flush [unfolded flush_part_def payload assms(4)]
    by (auto simp: Let_def split: sum.splits prod.splits)
  obtain a where w: "wf s'" "m = (sp_manifest st)\<lparr>m_artifacts := m_artifacts (sp_manifest st) @ [a]\<rparr>"
    "part_stored digest gz zstd base fmt cmp (look s') (length gs) (part_document fmt h cur) a"
    "\<And>k. k \<noteq> key (path_new (part_path base fmt cmp (length gs))) \<Longrightarrow> obj s' k = obj s k"
    using write_part_spec [OF assms(1,2) m(1)] by blast
  have "part_stored digest gz zstd base fmt cmp (look s') i (part_document fmt h (gs ! i))
      (m_artifacts (sp_manifest st) ! i)" if "i < length gs" for i
    by (rule part_stored_frame [where s = s and q = "path_new (part_path base fmt cmp (length gs))"])
      (use that stored w(4) in \<open>auto simp: part_key_inj\<close>)
  then show ?thesis
    using w(1-3) m(2-4) assms(5) by (auto simp: nth_append less_Suc_eq)
qed

lemma split_step_spec:
  assumes "wf s" "split_inv digest gz zstd base fmt cols cmp h threshold (look s) gs cur st"
    and hdr: "fmt = ExpCsv \<longrightarrow> csv (case cols of Some c \<Rightarrow> c | None \<Rightarrow> []) = Inr h"
    and step: "split_step ser csv show_json digest gz zstd put base cmp threshold item st s = (Inr st', s')"
  shows "\<exists>d t gs' cur'. item = Inr d \<and> doc_text ser csv show_json fmt cols d = Inr t \<and> wf s'
    \<and> concat gs' @ cur' = concat gs @ cur @ [t]
    \<and> split_inv digest gz zstd base fmt cols cmp h threshold (look s') gs' cur' st'"
proof -
  note inv = assms(2) [unfolded split_inv_def]
  obtain d where d: "item = Inr d" using step by (cases item) (auto simp: split_step_def)
  obtain b f where b: "framer_record ser csv show_json d (sp_framer st) = (Inr b, f)"
    using step d by (auto simp: split_step_def split: sum.splits prod.splits)
  obtain t where t: "doc_text ser csv show_json fmt cols d = Inr t" "framer_at fmt cols (cur @ [t]) f"
    "part_text fmt h cur @ b = part_text fmt h (cur @ [t])"
    using framer_record_spec [OF _ b, of fmt cols cur h] inv by blast
  let ?st = "st\<lparr>sp_framer := f, sp_buffer := sp_buffer st @ b, sp_records := sp_records st + 1\<rparr>"
  have buf: "sp_buffer ?st = part_text fmt h (cur @ [t])" using inv t(3) by simp
  show ?thesis
  proof (cases "threshold \<le> length (sp_buffer ?st)")
    case False
    then have st': "st' = ?st" "s' = s"
      using step d b by (auto simp: split_step_def Let_def)
    have "split_inv digest gz zstd base fmt cols cmp h threshold (look s) gs (cur @ [t]) ?st"
      using inv t(2) buf False unfolding split_inv_def by simp
    then show ?thesis using d t(1) assms(1) st' by (intro exI [of _ d] exI [of _ t] exI [of _ gs] exI [of _ "cur @ [t]"]) simp
  next
    case True
    obtain st2 f2 b2 where fl: "flush_part digest gz zstd put base cmp ?st s = (Inr st2, s')"
      and op: "framer_open csv (sp_framer st2) = (Inr b2, f2)"
      and st': "st' = st2\<lparr>sp_framer := f2, sp_buffer := b2, sp_records := 0, sp_part := sp_part st2 + 1\<rparr>"
      using step d b True by (auto simp: split_step_def Let_def split: sum.splits prod.splits)
    have f: "wf s' \<and> sp_framer st2 = sp_framer ?st \<and> sp_part st2 = sp_part ?st
      \<and> length (m_artifacts (sp_manifest st2)) = Suc (length gs)
      \<and> (\<forall>i < Suc (length gs). part_stored digest gz zstd base fmt cmp (look s') i
         (part_document fmt h ((gs @ [cur @ [t]]) ! i)) (m_artifacts (sp_manifest st2) ! i))"
      by (rule flush_spec [OF assms(1) _ buf _ _ _ fl, where cols = cols]) (use inv t(2) in simp_all)
    have o: "framer_at fmt cols [] f2 \<and> b2 = part_text fmt h []"
      using framer_open_text [OF _ op hdr, of "cur @ [t]"] t(2) f by simp
    have cut: "part_cut fmt h threshold (cur @ [t])"
      using True [unfolded buf] inv by (simp add: part_cut_def)
    have "split_inv digest gz zstd base fmt cols cmp h threshold (look s') (gs @ [cur @ [t]]) [] st'"
      using inv f o cut unfolding split_inv_def st' by simp
    then show ?thesis
      using d t(1) f by (intro exI [of _ d] exI [of _ t] exI [of _ "gs @ [cur @ [t]]"] exI [of _ "[]"]) simp
  qed
qed

lemma split_docs_spec:
  assumes "wf s" "split_inv digest gz zstd base fmt cols cmp h threshold (look s) gs cur st"
    and hdr: "fmt = ExpCsv \<longrightarrow> csv (case cols of Some c \<Rightarrow> c | None \<Rightarrow> []) = Inr h"
    and run: "split_docs ser csv show_json digest gz zstd put base cmp threshold docs st s = (Inr st', s')"
  shows "\<exists>ds ts gs' cur'. docs = map Inr ds \<and> map (doc_text ser csv show_json fmt cols) ds = map Inr ts
    \<and> wf s' \<and> concat gs' @ cur' = concat gs @ cur @ ts
    \<and> split_inv digest gz zstd base fmt cols cmp h threshold (look s') gs' cur' st'"
  using assms(1,2) run
proof (induction docs arbitrary: st s gs cur)
  case Nil
  then show ?case by (intro exI [of _ "[]"] exI [of _ gs] exI [of _ cur]) simp
next
  case (Cons item docs)
  obtain st1 s1 where step: "split_step ser csv show_json digest gz zstd put base cmp threshold item st s = (Inr st1, s1)"
    and rest: "split_docs ser csv show_json digest gz zstd put base cmp threshold docs st1 s1 = (Inr st', s')"
    using Cons.prems(3) by (auto split: sum.splits prod.splits)
  obtain d t gs1 cur1 where one: "item = Inr d" "doc_text ser csv show_json fmt cols d = Inr t" "wf s1"
    "concat gs1 @ cur1 = concat gs @ cur @ [t]"
    "split_inv digest gz zstd base fmt cols cmp h threshold (look s1) gs1 cur1 st1"
    using split_step_spec [OF Cons.prems(1,2) hdr step] by blast
  obtain ds ts gs2 cur2 where more: "docs = map Inr ds"
    "map (doc_text ser csv show_json fmt cols) ds = map Inr ts" "wf s'"
    "concat gs2 @ cur2 = concat gs1 @ cur1 @ ts"
    "split_inv digest gz zstd base fmt cols cmp h threshold (look s') gs2 cur2 st'"
    using Cons.IH [OF one(3,5) rest] by blast
  have "concat gs2 @ cur2 = concat gs @ cur @ t # ts"
    using more(4) one(4) by (metis append.assoc append_Cons append_Nil)
  then show ?case
    using one(1,2) more by (intro exI [of _ "d # ds"] exI [of _ "t # ts"] exI [of _ gs2] exI [of _ cur2]) simp
qed

end

context named_store
begin

lemma run_split_export_spec:
  assumes "wf s"
    and run: "run_split_export ser pretty csv show_json digest gz zstd put docs fmt cols cmp base limit meta s
      = (Inr (m, events), s')"
  shows "\<exists>h ds groups. wf s' \<and> docs = map Inr ds
    \<and> map (doc_text ser csv show_json fmt cols) ds = map Inr (concat groups)
    \<and> (fmt = ExpCsv \<longrightarrow> csv (case cols of Some c \<Rightarrow> c | None \<Rightarrow> []) = Inr h)
    \<and> groups \<noteq> [] \<and> (groups = [[]] \<or> (\<forall>g \<in> set groups. g \<noteq> []))
    \<and> (\<forall>g \<in> set (butlast groups). part_cut fmt h (max limit 1) g)
    \<and> length (m_artifacts m) = length groups
    \<and> (\<forall>i < length groups. part_stored digest gz zstd base fmt cmp (look s') i
         (part_document fmt h (groups ! i)) (m_artifacts m ! i))
    \<and> (\<exists>t. pretty (manifest_to_value m) = Inr t \<and> obj s' (key (path_new (manifest_path base))) = Some t)"
proof -
  let ?m0 = "(manifest_new (mm_database meta) (mm_tool_version meta) (mm_created_at meta))\<lparr>m_source := mm_source meta\<rparr>"
  let ?th = "max limit 1"
  obtain f0 b f1 st1 s1 st2 s2 t w where new: "framer_new fmt cols = Inr f0"
    and op: "framer_open csv f0 = (Inr b, f1)"
    and loop: "split_docs ser csv show_json digest gz zstd put base cmp ?th docs
       \<lparr>sp_framer = f1, sp_buffer = b, sp_records = 0, sp_part = 0, sp_written = 0,
        sp_manifest = ?m0, sp_events = []\<rparr> s = (Inr st1, s1)"
    and fl: "(if 0 < sp_records st1 \<or> sp_part st1 = 0 then flush_part digest gz zstd put base cmp st1 s1
             else (Inr st1, s1)) = (Inr st2, s2)"
    and t: "pretty (manifest_to_value (sp_manifest st2)) = Inr t"
    and w: "put (path_new (manifest_path base)) (once t) s2 = (Inr w, s')" and m: "m = sp_manifest st2"
    using run unfolding run_split_export_def Let_def by (auto split: sum.splits prod.splits)
  have f0: "framer_at fmt cols [] f0"
    using new by (auto simp: framer_new_def framer_at_def split: if_splits)
  define h where "h = (if fmt = ExpCsv then b else [])"
  have hdr: "fmt = ExpCsv \<longrightarrow> csv (case cols of Some c \<Rightarrow> c | None \<Rightarrow> []) = Inr h"
    using framer_open_spec [OF f0 op] by (simp add: h_def)
  have o: "framer_at fmt cols [] f1 \<and> b = part_text fmt h []" by (rule framer_open_text [OF f0 op hdr])
  have start: "split_inv digest gz zstd base fmt cols cmp h ?th (look s) [] []
     \<lparr>sp_framer = f1, sp_buffer = b, sp_records = 0, sp_part = 0, sp_written = 0,
      sp_manifest = ?m0, sp_events = []\<rparr>"
    using o by (simp add: split_inv_def manifest_new_def)
  obtain ds ts gs cur where docs: "docs = map Inr ds"
    "map (doc_text ser csv show_json fmt cols) ds = map Inr ts" "wf s1" "concat gs @ cur = ts"
    and inv: "split_inv digest gz zstd base fmt cols cmp h ?th (look s1) gs cur st1"
    using split_docs_spec [OF assms(1) start hdr loop] by auto
  note inv = inv [unfolded split_inv_def]
  let ?groups = "if 0 < sp_records st1 \<or> sp_part st1 = 0 then gs @ [cur] else gs"
  have st2: "wf s2 \<and> length (m_artifacts (sp_manifest st2)) = length ?groups
    \<and> (\<forall>i < length ?groups. part_stored digest gz zstd base fmt cmp (look s2) i
         (part_document fmt h (?groups ! i)) (m_artifacts (sp_manifest st2) ! i))"
  proof (cases "0 < sp_records st1 \<or> sp_part st1 = 0")
    case True
    have fl2: "flush_part digest gz zstd put base cmp st1 s1 = (Inr st2, s2)" using fl True by simp
    have "wf s2 \<and> sp_framer st2 = sp_framer st1 \<and> sp_part st2 = sp_part st1
      \<and> length (m_artifacts (sp_manifest st2)) = Suc (length gs)
      \<and> (\<forall>i < Suc (length gs). part_stored digest gz zstd base fmt cmp (look s2) i
         (part_document fmt h ((gs @ [cur]) ! i)) (m_artifacts (sp_manifest st2) ! i))"
      by (rule flush_spec [OF docs(3) _ _ _ _ _ fl2, where cols = cols]) (use inv in simp_all)
    then show ?thesis using True by simp
  next
    case False
    then show ?thesis using fl inv docs(3) by auto
  qed
  have conc: "concat ?groups = ts" using docs(4) inv by auto
  have ne: "?groups \<noteq> []" "?groups = [[]] \<or> (\<forall>g \<in> set ?groups. g \<noteq> [])"
    using inv by (auto simp: part_cut_def)
  have cut: "\<forall>g \<in> set (butlast ?groups). part_cut fmt h ?th g"
    using inv by (auto dest: in_set_butlastD)
  have stored: "part_stored digest gz zstd base fmt cmp (look s') i (part_document fmt h (?groups ! i))
      (m_artifacts m ! i)" if "i < length ?groups" for i
    unfolding m
  proof (rule part_stored_frame)
    show "part_stored digest gz zstd base fmt cmp (look s2) i (part_document fmt h (?groups ! i))
      (m_artifacts (sp_manifest st2) ! i)" using st2 that by blast
    show "key (path_new (part_path base fmt cmp i)) \<noteq> key (path_new (manifest_path base))"
      by (rule manifest_key [symmetric])
    show "obj s' (key p) = obj s2 (key p)" if "key p \<noteq> key (path_new (manifest_path base))" for p
      using put_frame [OF _ w that] st2 by blast
  qed
  have man: "obj s' (key (path_new (manifest_path base))) = Some t" using put_ok [OF _ w] st2 by simp
  show ?thesis
  proof (intro exI conjI)
    show "wf s'" using put_wf [OF _ w] st2 by blast
    show "docs = map Inr ds" by (rule docs(1))
    show "map (doc_text ser csv show_json fmt cols) ds = map Inr (concat ?groups)" using docs(2) conc by simp
    show "fmt = ExpCsv \<longrightarrow> csv (case cols of Some c \<Rightarrow> c | None \<Rightarrow> []) = Inr h" by (rule hdr)
    show "length (m_artifacts m) = length ?groups" using st2 m by simp
    show "\<forall>i<length ?groups. part_stored digest gz zstd base fmt cmp (look s') i
         (part_document fmt h (?groups ! i)) (m_artifacts m ! i)" using stored by blast
    show "pretty (manifest_to_value m) = Inr t" using t m by simp
  qed (use ne cut man in simp_all)
qed

end

section \<open>On the local file system\<close>

lemma split_on_suffix:
  "c \<notin> set x \<Longrightarrow> split_on c (b @ x) = butlast (split_on c b) @ [last (split_on c b) @ x]"
proof (induction b)
  case Nil
  then show ?case by (simp add: split_on_free)
next
  case (Cons a b)
  then show ?case by (cases "split_on c b") auto
qed

lemma fs_key_suffix:
  assumes "name_suffix x"
  shows "fs_key (path_new (b @ x)) =
    filter (\<lambda>c. c \<noteq> [] \<and> c \<noteq> ''.'') (butlast (split_on (CHR ''/'') b)) @ [last (split_on (CHR ''/'') b) @ x]"
proof -
  have "last (split_on (CHR ''/'') b) @ x \<noteq> ''.''"
    using assms by (auto simp: name_suffix_def append_eq_Cons_conv)
  moreover have "x \<noteq> []" using assms by (auto simp: name_suffix_def)
  ultimately show ?thesis
    using assms by (simp add: fs_key_def path_new_def path_components_def path_segments_def
        split_on_suffix name_suffix_def)
qed

interpretation lfs_named: named_store local_put_stream local_put_if_absent local_get_stream
    local_head local_delete fs_key fs_obj fs_wf
proof unfold_locales
  fix b x y
  assume "fs_key (path_new (b @ x)) = fs_key (path_new (b @ y))" "name_suffix x" "name_suffix y"
  then show "x = y" by (simp add: fs_key_suffix)
next
  fix s p bs m s' t c
  assume "local_put_stream p bs s = (Inr m, s')" and t: "fs_wf t" "fs_obj t (fs_key p) = Some c"
  then obtain k where k: "resolve p = Inr (k, Plain)" using local_put_Plain by blast
  show "\<exists>cs. local_get_stream p None t = Inr cs \<and> read_all cs = Inr c"
    using local_get_Plain [OF t(1) k, of c None] t(2) resolve_key [OF k] by (simp add: range_slice_def)
qed

section \<open>Properties\<close>

text \<open>
  C24: a split export that succeeds has written everything, once, in order: the documents of
  the stream are partitioned, in order, into the groups the parts hold; there is at least one
  part, and a part is empty only if there is nothing to export; each part object holds exactly
  the document its group makes in the format; the manifest lists the parts in order with their
  paths, their stored sizes and the checksums of what is stored, and is itself stored; and each
  part but the last was cut by the first record that reached the threshold.
\<close>

theorem split_export_complete:
  assumes "fs_wf fs"
    and "run_split_export ser pretty csv show_json digest gz zstd local_put_stream docs fmt cols cmp base limit meta fs
      = (Inr (m, events), fs')"
  shows "\<exists>h ds groups. docs = map Inr ds
    \<and> map (doc_text ser csv show_json fmt cols) ds = map Inr (concat groups)
    \<and> (fmt = ExpCsv \<longrightarrow> csv (case cols of Some c \<Rightarrow> c | None \<Rightarrow> []) = Inr h)
    \<and> groups \<noteq> [] \<and> (groups = [[]] \<or> (\<forall>g \<in> set groups. g \<noteq> []))
    \<and> (\<forall>g \<in> set (butlast groups). part_cut fmt h (max limit 1) g)
    \<and> length (m_artifacts m) = length groups
    \<and> (\<forall>i < length groups. part_stored digest gz zstd base fmt cmp (\<lambda>p. fs_obj fs' (fs_key p)) i
         (part_document fmt h (groups ! i)) (m_artifacts m ! i))
    \<and> (\<exists>t. pretty (manifest_to_value m) = Inr t
         \<and> fs_obj fs' (fs_key (path_new (manifest_path base))) = Some t)"
proof -
  obtain h ds groups where g: "fs_wf fs'" "docs = map Inr ds"
    "map (doc_text ser csv show_json fmt cols) ds = map Inr (concat groups)"
    "groups \<noteq> []" "groups = [[]] \<or> (\<forall>g \<in> set groups. g \<noteq> [])"
    "\<forall>g \<in> set (butlast groups). part_cut fmt h (max limit 1) g"
    "length (m_artifacts m) = length groups"
    and stored: "\<forall>i < length groups. part_stored digest gz zstd base fmt cmp (lfs_named.look fs') i
         (part_document fmt h (groups ! i)) (m_artifacts m ! i)"
    and hdr: "fmt = ExpCsv \<longrightarrow> csv (case cols of Some c \<Rightarrow> c | None \<Rightarrow> []) = Inr h"
    and man: "\<exists>t. pretty (manifest_to_value m) = Inr t
         \<and> fs_obj fs' (fs_key (path_new (manifest_path base))) = Some t"
    using lfs_named.run_split_export_spec [OF assms] by (elim exE conjE) (rule that; (assumption | intro exI conjI))
  have "\<forall>i < length groups. part_stored digest gz zstd base fmt cmp (\<lambda>p. fs_obj fs' (fs_key p)) i
         (part_document fmt h (groups ! i)) (m_artifacts m ! i)"
    using stored lfs_named.part_stored_get g(1) by blast
  then show ?thesis
    using g(2-7) hdr man by - (rule exI [of _ h], rule exI [of _ ds], rule exI [of _ groups], simp)
qed

text \<open>A small export: three one-character documents, two to a part.\<close>

definition tiny_ser :: "json \<Rightarrow> bytes res" where
  "tiny_ser j = (case j of JInt i \<Rightarrow> Inr [digit_char (nat i)] | _ \<Rightarrow> Inr ''{}'')"

definition tiny_meta :: manifest_meta where
  "tiny_meta = \<lparr>mm_database = ''db'', mm_tool_version = ''1'', mm_created_at = ''t'', mm_source = None\<rparr>"

definition tiny_export :: "export_format \<Rightarrow> (manifest \<times> (nat \<times> nat) list) res \<times> fs" where
  "tiny_export fmt =
     run_split_export tiny_ser tiny_ser (\<lambda>_. Inr []) (\<lambda>_. []) (\<lambda>b. b) (\<lambda>s. s) (\<lambda>s. s) local_put_stream
       [Inr (JInt 1), Inr (JInt 2), Inr (JInt 3)] fmt None CodecNone ''out/x'' 4 tiny_meta []"

lemma tiny_export_ok:
  "case fst (tiny_export ExpJsonArray) of
     Inr (m, ev) \<Rightarrow> map a_path (m_artifacts m) = [''out/x.part-00000.json'', ''out/x.part-00001.json'']
       \<and> map a_byte_size (m_artifacts m) = [5, 3] \<and> ev = [(5, 1), (8, 2)]
   | Inl e \<Rightarrow> False"
  by code_simp

lemma tiny_digits: "digit_char (Suc 0) = CHR ''1''" "digit_char 2 = CHR ''2''" "digit_char 3 = CHR ''3''"
  by code_simp+

lemma split_export_complete_witness:
  "\<exists>m ev fs'. tiny_export ExpJsonArray = (Inr (m, ev), fs') \<and> length (m_artifacts m) = 2
     \<and> (\<exists>h groups. length groups = 2 \<and> concat groups = [''1'', ''2'', ''3''] 
          \<and> part_stored (\<lambda>b. b) (\<lambda>s. s) (\<lambda>s. s) ''out/x'' ExpJsonArray CodecNone
                (\<lambda>p. fs_obj fs' (fs_key p)) 0 (part_document ExpJsonArray h (groups ! 0)) (m_artifacts m ! 0))"
proof -
  obtain m ev fs' where e: "tiny_export ExpJsonArray = (Inr (m, ev), fs')"
    and sizes: "map a_byte_size (m_artifacts m) = [5, 3]"
    using tiny_export_ok by (cases "tiny_export ExpJsonArray") (auto split: sum.splits prod.splits)
  have len: "length (m_artifacts m) = 2" using arg_cong [OF sizes, of length] by simp
  obtain h ds groups where g: "[Inr (JInt 1), Inr (JInt 2), Inr (JInt 3)] = (map Inr ds :: json res list)"
    "map (doc_text tiny_ser (\<lambda>_. Inr []) (\<lambda>_. []) ExpJsonArray None) ds = map Inr (concat groups)"
    "length (m_artifacts m) = length groups"
    "\<forall>i < length groups. part_stored (\<lambda>b. b) (\<lambda>s. s) (\<lambda>s. s) ''out/x'' ExpJsonArray CodecNone
        (\<lambda>p. fs_obj fs' (fs_key p)) i (part_document ExpJsonArray h (groups ! i)) (m_artifacts m ! i)"
    using split_export_complete [OF fs_wf_empty e [unfolded tiny_export_def]]
    by (elim exE conjE) (rule that; assumption)
  have "ds = [JInt 1, JInt 2, JInt 3]" using g(1) by (cases ds; auto simp: Cons_eq_map_conv)
  then have "map Inr (concat groups) = (map Inr [''1'', ''2'', ''3''] :: bytes res list)"
    using g(2) by (simp add: doc_text_def tiny_ser_def tiny_digits)
  then have "concat groups = [''1'', ''2'', ''3'']" by (metis inj_map_eq_map sum.inject(2) inj_onI)
  then have "length groups = 2 \<and> concat groups = [''1'', ''2'', ''3'']
     \<and> part_stored (\<lambda>b. b) (\<lambda>s. s) (\<lambda>s. s) ''out/x'' ExpJsonArray CodecNone
                (\<lambda>p. fs_obj fs' (fs_key p)) 0 (part_document ExpJsonArray h (groups ! 0)) (m_artifacts m ! 0)"
    using len g(3,4) by simp
  then show ?thesis using e len by blast
qed

text \<open>Reading one part back with the import crate's reader of the format.\<close>

definition reread ::
  "export_format \<Rightarrow> (bytes \<Rightarrow> string + json) \<Rightarrow> (bytes \<Rightarrow> (string \<times> nat) + json) \<Rightarrow> bytes \<Rightarrow> json res list"
where
  "reread fmt parse_element parse_line b =
     (if fmt = ExpJsonArray then read_array parse_element [Inr b] else read_jsonl parse_line b)"

lemma part_document_json:
  "part_document ExpJsonArray h ts = array_text ts" "part_document ExpJsonLines h ts = jsonl ts"
  by (simp_all add: part_document_def array_text_def jsonl_def)

lemma read_array_of_text:
  assumes "\<forall>t \<in> set ts. element_text t \<and> parse t = Inr (doc t)" "concat pieces = array_text ts" "[] \<notin> set pieces"
  shows "read_array parse (map Inr pieces) = map (Inr \<circ> doc) ts"
proof -
  obtain s1 where s1: "feed (array_text ts) (scanner_new, []) = Inr (s1, ts)" "scanner_finish s1 = Inr ()"
    using feed_array_text [of ts] assms(1) by blast
  then show ?thesis
    using read_array_from_scan_all [OF assms(3), of scanner_new s1 ts parse 0] assms
      parse_elements_ok [of ts parse doc 0]
    by (simp add: read_array_def scan_all_def)
qed

lemma reread_document:
  assumes "fmt \<noteq> ExpCsv"
    and "\<forall>t \<in> set ts. element_text t \<and> line_text t \<and> pe t = Inr (doc t) \<and> pl t = Inr (doc t)"
  shows "reread fmt pe pl (part_document fmt h ts) = map (Inr \<circ> doc) ts"
proof (cases fmt)
  case ExpJsonLines
  then show ?thesis
    using read_lines_of_texts [of ts pl doc 0] assms(2) by (simp add: reread_def part_document_json read_jsonl_def)
next
  case ExpJsonArray
  then show ?thesis
    using read_array_of_text [of ts pe doc "[array_text ts]"] assms(2)
    by (simp add: reread_def part_document_json array_text_def)
qed (use assms in simp)

text \<open>Texts that both readers give back.\<close>

definition reparses ::
  "(json \<Rightarrow> bytes res) \<Rightarrow> (bytes \<Rightarrow> string + json) \<Rightarrow> (bytes \<Rightarrow> (string \<times> nat) + json) \<Rightarrow> json \<Rightarrow> bool"
where
  "reparses ser pe pl d \<longleftrightarrow> (case ser d of Inl _ \<Rightarrow> True
     | Inr t \<Rightarrow> element_text t \<and> line_text t \<and> pe t = Inr d \<and> pl t = Inr d)"

lemma reparsed_texts:
  assumes "\<forall>d \<in> set ds. reparses ser pe pl d" "map ser ds = map Inr ts"
  shows "(\<forall>t \<in> set ts. element_text t \<and> line_text t \<and> pe t = Inr (projr (pe t)) \<and> pl t = Inr (projr (pe t)))
    \<and> map (projr \<circ> pe) ts = ds"
  using assms
proof (induction ds arbitrary: ts)
  case (Cons d ds)
  then obtain t us where ts: "ts = t # us" "ser d = Inr t" "map ser ds = map Inr us" by (cases ts) auto
  then show ?case using Cons.IH [of us] Cons.prems(1) by (simp add: reparses_def)
qed simp

text \<open>
  C25: what an export writes, an import reads back: after a successful split export in a JSON
  format, every part the manifest lists can be fetched, and decompressing the parts in the
  order of the manifest and reading each with the import reader of the format yields exactly
  the exported documents, in order and without an error; for documents whose text the JSON
  parser gives back, and a decompressor that undoes the compressor.
\<close>

theorem split_export_reimport:
  assumes "fs_wf fs" "fmt \<noteq> ExpCsv"
    and "run_split_export ser pretty csv show_json digest gz zstd local_put_stream docs fmt cols cmp base limit meta fs
      = (Inr (m, events), fs')"
    and "\<forall>d. Inr d \<in> set docs \<longrightarrow> reparses ser pe pl d"
    and "\<forall>b c. read_all (compress_stream gz zstd cmp (once b)) = Inr c \<longrightarrow> unpack c = b"
  shows "\<exists>contents. list_all2 (\<lambda>a c. \<exists>cs. local_get_stream (path_new (a_path a)) None fs' = Inr cs \<and> read_all cs = Inr c)
      (m_artifacts m) contents
    \<and> concat (map (reread fmt pe pl \<circ> unpack) contents) = docs"
proof -
  obtain h ds groups where g: "fs_wf fs'" "docs = map Inr ds"
    "map (doc_text ser csv show_json fmt cols) ds = map Inr (concat groups)"
    "length (m_artifacts m) = length groups"
    and stored: "\<forall>i < length groups. part_stored digest gz zstd base fmt cmp (lfs_named.look fs') i
         (part_document fmt h (groups ! i)) (m_artifacts m ! i)"
    using lfs_named.run_split_export_spec [OF assms(1,3)] by (elim exE conjE) (rule that; assumption)
  have "doc_text ser csv show_json fmt cols = ser" using assms(2) by (simp add: doc_text_def fun_eq_iff)
  then have texts: "map ser ds = map Inr (concat groups)" using g(3) by simp
  have re: "\<forall>d \<in> set ds. reparses ser pe pl d" using assms(4) g(2) by auto
  let ?doc = "\<lambda>t. projr (pe t)"
  note rp = reparsed_texts [OF re texts]
  define packed where "packed b = (SOME c. read_all (compress_stream gz zstd cmp (once b)) = Inr c)" for b
  have fetched: "\<exists>cs. local_get_stream (path_new (a_path (m_artifacts m ! i))) None fs' = Inr cs
      \<and> read_all cs = Inr (packed (part_document fmt h (groups ! i)))
      \<and> read_all (compress_stream gz zstd cmp (once (part_document fmt h (groups ! i))))
          = Inr (packed (part_document fmt h (groups ! i)))" if "i < length groups" for i
    using lfs_named.part_stored_get [OF stored [rule_format, OF that] g(1)] by (auto simp: packed_def)
  let ?contents = "map (\<lambda>g. packed (part_document fmt h g)) groups"
  have "reread fmt pe pl (unpack (packed (part_document fmt h g))) = map (Inr \<circ> ?doc) g" if gin: "g \<in> set groups" for g
  proof -
    obtain i where i: "i < length groups" "groups ! i = g" using gin by (metis in_set_conv_nth)
    have "unpack (packed (part_document fmt h g)) = part_document fmt h g"
      using assms(5) fetched [OF i(1)] i(2) by blast
    then show ?thesis
      using reread_document [OF assms(2), of g pe ?doc pl h] rp gin by (simp add: comp_def)
  qed
  then have "map (reread fmt pe pl \<circ> unpack) ?contents = map (map (Inr \<circ> ?doc)) groups" by simp
  then have "concat (map (reread fmt pe pl \<circ> unpack) ?contents) = map Inr (map (?doc) (concat groups))"
    by (simp only: map_concat) (simp add: comp_def)
  then have docs: "concat (map (reread fmt pe pl \<circ> unpack) ?contents) = docs"
    using rp g(2) by (simp only: comp_def)
  have "list_all2 (\<lambda>a c. \<exists>cs. local_get_stream (path_new (a_path a)) None fs' = Inr cs \<and> read_all cs = Inr c)
      (m_artifacts m) ?contents"
    using fetched g(4) by (auto simp: list_all2_conv_all_nth)
  then show ?thesis using docs by blast
qed

definition tiny_parse :: "bytes \<Rightarrow> json" where
  "tiny_parse t = (case t of [c] \<Rightarrow> JInt (int (of_char c - 48)) | _ \<Rightarrow> JNull)"

lemma tiny_reparses: "\<forall>d \<in> set [JInt 1, JInt 2, JInt 3]. reparses tiny_ser (\<lambda>t. Inr (tiny_parse t)) (\<lambda>t. Inr (tiny_parse t)) d"
  by code_simp

lemma split_export_reimport_witness:
  "\<exists>contents. concat (map (reread ExpJsonLines (\<lambda>t. Inr (tiny_parse t)) (\<lambda>t. Inr (tiny_parse t)) \<circ> id) contents)
     = [Inr (JInt 1), Inr (JInt 2), Inr (JInt 3)] \<and> length contents = 2"
proof -
  have "case fst (tiny_export ExpJsonLines) of Inr (m, ev) \<Rightarrow> map a_byte_size (m_artifacts m) = [4, 2] | Inl e \<Rightarrow> False"
    by code_simp
  then obtain m ev fs' where e: "tiny_export ExpJsonLines = (Inr (m, ev), fs')"
    and sizes: "map a_byte_size (m_artifacts m) = [4, 2]"
    by (cases "tiny_export ExpJsonLines") (auto split: sum.splits prod.splits)
  have len: "length (m_artifacts m) = 2" using arg_cong [OF sizes, of length] by simp
  have fmt: "ExpJsonLines \<noteq> ExpCsv" by simp
  have docs: "\<forall>d. Inr d \<in> set [Inr (JInt 1), Inr (JInt 2), Inr (JInt 3) :: json res] \<longrightarrow>
      reparses tiny_ser (\<lambda>t. Inr (tiny_parse t)) (\<lambda>t. Inr (tiny_parse t)) d"
    using tiny_reparses by auto
  have codec: "\<forall>b c. read_all (compress_stream (\<lambda>s. s) (\<lambda>s. s) CodecNone (once b)) = Inr c \<longrightarrow> id c = b"
    by (simp add: compress_stream_def)
  show ?thesis
    using split_export_reimport [OF fs_wf_empty fmt e [unfolded tiny_export_def] docs codec] len
    by (auto dest!: list_all2_lengthD simp: comp_def)
qed

lemma encode_elements_ok:
  assumes "map ser ds = map Inr ts" "[] \<notin> set ts"
  shows "\<exists>pieces. encode_elements ser first (map Inr ds) = map Inr pieces \<and> [] \<notin> set pieces
    \<and> concat pieces = (if first \<or> ts = [] then [] else '','') @ join '','' ts @ '']''"
  using assms
proof (induction ds arbitrary: ts first)
  case Nil
  then show ?case by (intro exI [of _ "['']'']"]) simp
next
  case (Cons d ds)
  then obtain t us where ts: "ts = t # us" "ser d = Inr t" "map ser ds = map Inr us" by (cases ts) auto
  obtain ps where "encode_elements ser False (map Inr ds) = map Inr ps" "[] \<notin> set ps"
    "concat ps = (if us = [] then [] else '','') @ join '','' us @ '']''"
    using Cons.IH [OF ts(3), of False] Cons.prems(2) ts(1) by auto
  moreover have "t \<noteq> []" using ts(1) Cons.prems(2) by auto
  ultimately show ?case
    using ts Cons.prems(2)
    by (intro exI [of _ "((if first then [] else '','') @ t) # ps"]) (cases us; simp)
qed

lemma encode_jsonl_ok:
  "map ser ds = map Inr ts \<Longrightarrow> encode_jsonl ser (map Inr ds) = map (\<lambda>t. Inr (t @ [newline])) ts"
proof (induction ds arbitrary: ts)
  case (Cons d ds)
  then obtain t us where "ts = t # us" "ser d = Inr t" "map ser ds = map Inr us" by (cases ts) auto
  then show ?case using Cons.IH by (simp add: json_line_def)
qed simp

text \<open>
  A single-object export can be imported again: for documents whose text the JSON parser
  gives back, the stream of the array encoder, cut as the encoder yields it, reads back with
  the array reader as exactly the documents, and the stream of the line encoder reads back
  with the line reader as exactly the documents; neither stream holds an error.
\<close>

theorem encode_reimport:
  assumes "\<forall>d \<in> set ds. reparses ser pe pl d" "map ser ds = map Inr ts"
  shows "\<exists>pieces lns. encode_json_array ser (map Inr ds) = map Inr pieces
    \<and> read_array pe (map Inr pieces) = map Inr ds
    \<and> encode_jsonl ser (map Inr ds) = map Inr lns \<and> read_jsonl pl (concat lns) = map Inr ds"
proof -
  let ?doc = "\<lambda>t. projr (pe t)"
  note rp = reparsed_texts [OF assms]
  have ne: "[] \<notin> set ts" using rp by (auto simp: line_text_def)
  obtain ps where ps: "encode_elements ser True (map Inr ds) = map Inr ps" "[] \<notin> set ps"
    "concat ps = join '','' ts @ '']''"
    using encode_elements_ok [OF assms(2) ne, of True] by auto
  have "concat (''['' # ps) = array_text ts" using ps(3) by (simp add: array_text_def)
  then have "read_array pe (map Inr (''['' # ps)) = map (Inr \<circ> ?doc) ts"
    using read_array_of_text [of ts pe ?doc "''['' # ps"] rp ps(2) by auto
  moreover have "read_jsonl pl (concat (map (\<lambda>t. t @ [newline]) ts)) = map (Inr \<circ> ?doc) ts"
    using read_lines_of_texts [of ts pl ?doc 0] rp by (simp add: read_jsonl_def jsonl_def)
  moreover have "map (Inr \<circ> ?doc) ts = map Inr ds"
  proof -
    have "map ?doc ts = ds" using rp by (simp only: comp_def)
    then show ?thesis by (simp flip: map_map)
  qed
  moreover have "encode_json_array ser (map Inr ds) = map Inr (''['' # ps)"
    using ps(1) by (simp add: encode_json_array_def)
  moreover have "encode_jsonl ser (map Inr ds) = map Inr (map (\<lambda>t. t @ [newline]) ts)"
    using encode_jsonl_ok [OF assms(2)] by (simp add: comp_def)
  ultimately show ?thesis by metis
qed

lemma encode_reimport_witness:
  "\<exists>pieces. encode_json_array tiny_ser (map Inr [JInt 1, JInt 2, JInt 3]) = map Inr pieces
     \<and> read_array (\<lambda>t. Inr (tiny_parse t)) (map Inr pieces) = map Inr [JInt 1, JInt 2, JInt 3]"
proof -
  have "map tiny_ser [JInt 1, JInt 2, JInt 3] = map Inr [''1'', ''2'', ''3'']" by code_simp
  then show ?thesis using encode_reimport [OF tiny_reparses] by blast
qed

text \<open>
  No text an export puts into a CSV cell can be taken for a formula: a string, array or
  object cell never starts with a formula trigger, while a number is written as it is.
\<close>

theorem csv_cells_inert:
  "case jget d col of
     Some (JInt i) \<Rightarrow> cell show_json d col = show_json (JInt i)
   | Some (JFloat x) \<Rightarrow> cell show_json d col = show_json (JFloat x)
   | _ \<Rightarrow> \<not> list_ex formula_trigger (take 1 (cell show_json d col))"
  by (auto simp: cell_def guard_def formula_trigger_def split: option.splits json.splits list.splits)

text \<open>A server that answers with pages of one cursor.\<close>

definition pages_of :: "string \<Rightarrow> cursor_batch list \<Rightarrow> bool" where
  "pages_of cid pages \<longleftrightarrow> pages \<noteq> [] \<and> \<not> cb_has_more (last pages)
     \<and> (\<forall>b \<in> set (butlast pages). cb_has_more b \<and> cb_id b = Some cid)"

lemma cursor_loop_pages:
  assumes "pages_of cid (b # pages)"
  shows "cursor_loop accepts b (map Inr pages) =
    (if length pages < accepts
     then (map (Inr \<circ> cb_result) (b # pages), replicate (length pages) (CallNext cid), True)
     else (map (Inr \<circ> cb_result) (take accepts (b # pages)),
           replicate accepts (CallNext cid)
             @ (case cb_id ((b # pages) ! accepts) of Some i \<Rightarrow> [CallDelete i] | None \<Rightarrow> []), True))"
  using assms
proof (induction pages arbitrary: b accepts)
  case Nil
  then show ?case by (cases accepts) (simp_all add: pages_of_def)
next
  case (Cons c pages)
  have "pages_of cid (c # pages)" "cb_has_more b" "cb_id b = Some cid"
    using Cons.prems by (auto simp: pages_of_def)
  then show ?case using Cons.IH [of c "accepts - 1"] by (cases accepts) simp_all
qed

text \<open>
  The cursor task delivers the pages of the cursor, each once and in order; it asks for
  exactly the pages it needs, and when the consumer goes away early, the last thing it does is
  to delete the cursor the server still holds.
\<close>

theorem cursor_task_pages:
  assumes "pages_of cid pages"
  shows "cursor_task accepts (map Inr pages) =
    (if length pages \<le> accepts
     then (map (Inr \<circ> cb_result) pages, CallOpen # replicate (length pages - 1) (CallNext cid), True)
     else (map (Inr \<circ> cb_result) (take accepts pages),
           CallOpen # replicate accepts (CallNext cid)
             @ (case cb_id (pages ! accepts) of Some i \<Rightarrow> [CallDelete i] | None \<Rightarrow> []), True))"
proof -
  obtain b rest where "pages = b # rest" using assms by (cases pages) (auto simp: pages_of_def)
  then show ?thesis
    using cursor_loop_pages [of cid b rest accepts] assms by (simp add: cursor_task_def Suc_le_eq)
qed

lemma cursor_task_pages_witness:
  "cursor_task 1 (map Inr [\<lparr>cb_result = [JInt 1], cb_has_more = True, cb_id = Some ''7''\<rparr>,
       \<lparr>cb_result = [JInt 2], cb_has_more = True, cb_id = Some ''7''\<rparr>,
       \<lparr>cb_result = [], cb_has_more = False, cb_id = None\<rparr>])
   = ([Inr [JInt 1]], [CallOpen, CallNext ''7'', CallDelete ''7''], True)"
  by (subst cursor_task_pages [of "''7''"]) (simp_all add: pages_of_def)

end
