(* ===== verification/Dump.thy ===== *)
theory Dump
  imports Export "HOL-Library.Word"
begin

text \<open>
  The database dump, crate \<open>arangodb-dump\<close>, with the server role of \<open>topology.rs\<close> and the
  inventory of \<open>replication.rs\<close>.  The server is the record \<open>dump_client\<close>: one function per
  request that the dump makes, over a server state of any type, each naming the database it is
  sent to.  The store is the record \<open>store_ops\<close>; text, hash and compression are the record
  \<open>dump_env\<close>.  The requests that feed a stream are made before the stream is written.
\<close>

section \<open>Server roles\<close>

datatype server_role = Single | Coordinator | DbServer | Agent | UnknownRole string

definition ascii_upper :: "char \<Rightarrow> char" where
  "ascii_upper c = (if is_lower c then char_of ((of_char c :: nat) - 32) else c)"

text \<open>\<open>str::trim\<close> on the ASCII text of a role name.\<close>

definition role_trim :: "string \<Rightarrow> string" where
  "role_trim s = (let ws = (\<lambda>c. is_ascii_whitespace c \<or> c = CHR 0x0B)
                  in rev (dropWhile ws (rev (dropWhile ws s))))"

definition server_role_parse :: "string \<Rightarrow> server_role" where
  "server_role_parse raw =
     (let t = role_trim raw; u = map ascii_upper t in
      if u = ''SINGLE'' then Single
      else if u = ''COORDINATOR'' then Coordinator
      else if u = ''DBSERVER'' \<or> u = ''PRIMARY'' then DbServer
      else if u = ''AGENT'' then Agent
      else UnknownRole t)"

fun is_cluster :: "server_role \<Rightarrow> bool" where
  "is_cluster Coordinator = True"
| "is_cluster DbServer = True"
| "is_cluster Agent = True"
| "is_cluster _ = False"

fun role_str :: "server_role \<Rightarrow> string" where
  "role_str Single = ''SINGLE''"
| "role_str Coordinator = ''COORDINATOR''"
| "role_str DbServer = ''DBSERVER''"
| "role_str Agent = ''AGENT''"
| "role_str (UnknownRole raw) = raw"

section \<open>The inventory\<close>

record inventory_collection =
  ic_parameters :: json
  ic_indexes :: "json list"

definition ic_name :: "inventory_collection \<Rightarrow> string option" where
  "ic_name c = Option.bind (jget (ic_parameters c) ''name'') as_str"

definition ic_type_id :: "inventory_collection \<Rightarrow> nat option" where
  "ic_type_id c = Option.bind (jget (ic_parameters c) ''type'') as_u64"

definition ic_is_edge :: "inventory_collection \<Rightarrow> bool" where
  "ic_is_edge c \<longleftrightarrow> ic_type_id c = Some 3"

definition ic_is_system :: "inventory_collection \<Rightarrow> bool" where
  "ic_is_system c =
     (case Option.bind (jget (ic_parameters c) ''isSystem'') as_bool of
        Some b \<Rightarrow> b
      | None \<Rightarrow> (case ic_name c of Some (x # _) \<Rightarrow> x = CHR ''_'' | _ \<Rightarrow> False))"

record inventory =
  inv_collections :: "inventory_collection list"
  inv_views :: "json list"

record dump_chunk =
  ch_body :: bytes
  ch_last_tick :: "64 word"
  ch_has_more :: bool

section \<open>Options, server, store\<close>

text \<open>The two patterns are the \<open>regex\<close> crate's; what a pattern matches is a predicate.\<close>

record filter_options =
  fo_include :: "(string \<Rightarrow> bool) option"
  fo_exclude :: "(string \<Rightarrow> bool) option"

definition filter_accepts :: "filter_options \<Rightarrow> string \<Rightarrow> bool" where
  "filter_accepts f name =
     (if (case fo_include f of Some inc \<Rightarrow> \<not> inc name | None \<Rightarrow> False) then False
      else if (case fo_exclude f of Some exc \<Rightarrow> exc name | None \<Rightarrow> False) then False
      else True)"

record dump_options =
  do_include_system :: bool
  do_overwrite :: bool
  do_all_databases :: bool
  do_filters :: filter_options
  do_compression :: codec
  do_batch_ttl :: nat
  do_chunk_size :: nat
  do_database :: string
  do_tool_version :: string
  do_created_at :: string

record 'c dump_client =
  dc_database :: string
  dc_role :: "'c \<Rightarrow> server_role res \<times> 'c"
  dc_list_databases :: "'c \<Rightarrow> string list res \<times> 'c"
  dc_batch_create :: "string \<Rightarrow> nat \<Rightarrow> 'c \<Rightarrow> string res \<times> 'c"
  dc_batch_extend :: "string \<Rightarrow> string \<Rightarrow> nat \<Rightarrow> 'c \<Rightarrow> unit res \<times> 'c"
  dc_batch_delete :: "string \<Rightarrow> string \<Rightarrow> 'c \<Rightarrow> unit res \<times> 'c"
  dc_inventory :: "string \<Rightarrow> string \<Rightarrow> bool \<Rightarrow> 'c \<Rightarrow> inventory res \<times> 'c"
  dc_chunk :: "string \<Rightarrow> string \<Rightarrow> string \<Rightarrow> 64 word \<Rightarrow> nat \<Rightarrow> 'c \<Rightarrow> dump_chunk res \<times> 'c"

record 's store_ops =
  so_put :: "object_path \<Rightarrow> byte_stream \<Rightarrow> 's \<Rightarrow> object_metadata res \<times> 's"
  so_put_absent :: "object_path \<Rightarrow> byte_stream \<Rightarrow> 's \<Rightarrow> object_metadata res \<times> 's"
  so_head :: "object_path \<Rightarrow> 's \<Rightarrow> object_metadata option res"
  so_delete :: "object_path \<Rightarrow> 's \<Rightarrow> unit res \<times> 's"

record dump_env =
  de_pretty :: "json \<Rightarrow> bytes res"
  de_digest :: "bytes \<Rightarrow> bytes"
  de_gz :: "byte_stream \<Rightarrow> byte_stream"
  de_zstd :: "byte_stream \<Rightarrow> byte_stream"

datatype dump_event = CollectionDone nat nat | DumpWarning string

text \<open>The state a dump works on: the server, the store, the manifest so far, the progress.\<close>

record ('c, 's) dump_state =
  d_server :: 'c
  d_store :: 's
  d_manifest :: manifest
  d_dumped :: "string list"
  d_collections :: nat
  d_events :: "dump_event list"

type_synonym ('c, 's, 'a) dump_act = "(('c, 's) dump_state, error, 'a) act"

definition on_server :: "('c \<Rightarrow> 'a res \<times> 'c) \<Rightarrow> ('c, 's, 'a) dump_act" where
  "on_server f st = (let (r, c) = f (d_server st) in (r, st\<lparr>d_server := c\<rparr>))"

definition on_store :: "('s \<Rightarrow> 'a res \<times> 's) \<Rightarrow> ('c, 's, 'a) dump_act" where
  "on_store f st = (let (r, s) = f (d_store st) in (r, st\<lparr>d_store := s\<rparr>))"

definition push_artifact :: "artifact \<Rightarrow> ('c, 's, unit) dump_act" where
  "push_artifact a st = (Inr (), st\<lparr>d_manifest := manifest_push a (d_manifest st)\<rparr>)"

definition emit :: "dump_event \<Rightarrow> ('c, 's, unit) dump_act" where
  "emit e st = (Inr (), st\<lparr>d_events := d_events st @ [e]\<rparr>)"

definition dump_lock_name :: string where
  "dump_lock_name = ''dump.in-progress.json''"

definition dump_manifest_name :: string where
  "dump_manifest_name = ''dump.manifest.json''"

section \<open>Preflight and the claim on the destination\<close>

definition preflight_topology ::
  "'c dump_client \<Rightarrow> (error \<Rightarrow> string) \<Rightarrow> ('c, 's, unit) dump_act"
where
  "preflight_topology cl show_error st =
     (case dc_role cl (d_server st) of
        (Inr role, c) \<Rightarrow>
          if is_cluster role
          then (Inl (Config (''refusing to dump from a cluster deployment (server role: '' @ role_str role
                  @ ''). Cluster-aware dump is not implemented yet, and the single-server path would ''
                  @ ''produce a dump whose completeness across shards is unverified. Point --endpoint at ''
                  @ ''a single server, or use ArangoDB'' @ [CHR 0x27]
                  @ ''s own arangodump for cluster deployments.'')), st\<lparr>d_server := c\<rparr>)
          else (Inr (), st\<lparr>d_server := c\<rparr>)
      | (Inl err, c) \<Rightarrow>
          emit (DumpWarning (''could not determine the server'' @ [CHR 0x27] @ ''s deployment role (''
                  @ show_error err @ ''); proceeding with the single-server dump path. If this endpoint is ''
                  @ ''a cluster coordinator, the dump may be incomplete across shards.''))
            (st\<lparr>d_server := c\<rparr>))"

definition lock_body :: "dump_options \<Rightarrow> json" where
  "lock_body opts = json_object
     [(''started_at'', JString (do_created_at opts)), (''tool_version'', JString (do_tool_version opts)),
      (''database'', JString (do_database opts))]"

definition claim_destination ::
  "'s store_ops \<Rightarrow> dump_env \<Rightarrow> dump_options \<Rightarrow> ('c, 's, unit) dump_act"
where
  "claim_destination so env opts =
     (let lock = path_new dump_lock_name; man = path_new dump_manifest_name in
      act_bind
        (if do_overwrite opts
         then (\<lambda>st. (Inr (), st\<lparr>d_store := snd (so_delete so man (snd (so_delete so lock (d_store st))))\<rparr>))
         else (\<lambda>st. case store_exists (so_head so) man (d_store st) of
                 Inl e \<Rightarrow> (Inl e, st)
               | Inr True \<Rightarrow> (Inl (Config (''destination already contains a completed dump ('' @ [CHR 0x27]
                     @ path_str man @ [CHR 0x27]
                     @ ''). Dumping here would mix the two dumps'' @ [CHR 0x27] @ '' artifacts under one ''
                     @ ''manifest. Choose an empty destination, or pass --overwrite to replace what is there.'')), st)
               | Inr False \<Rightarrow> (Inr (), st)))
        (\<lambda>_. act_bind (act_lift (de_pretty env (lock_body opts))) (\<lambda>body st.
           case so_put_absent so lock (once body) (d_store st) of
             (Inr _, s) \<Rightarrow> (Inr (), st\<lparr>d_store := s\<rparr>)
           | (Inl err, s) \<Rightarrow>
               (Inl (case err of
                  AlreadyExists _ \<Rightarrow> Config (''another dump is already writing to this destination, or an ''
                     @ ''earlier one failed and left '' @ [CHR 0x27] @ dump_lock_name @ [CHR 0x27]
                     @ '' behind. Artifacts from two dumps under one manifest would be silently inconsistent, ''
                     @ ''so this run stops. Wait for the other dump, or pass --overwrite to discard what is there.'')
                | _ \<Rightarrow> err), st\<lparr>d_store := s\<rparr>))))"

text \<open>\<open>release_destination\<close>: a failure to remove the marker is only logged.\<close>

definition release_destination :: "'s store_ops \<Rightarrow> 's \<Rightarrow> 's" where
  "release_destination so s = snd (so_delete so (path_new dump_lock_name) s)"

section \<open>Artifacts\<close>

definition structure_value :: "inventory_collection \<Rightarrow> json" where
  "structure_value coll = json_object
     [(''parameters'', ic_parameters coll), (''indexes'', JArray (ic_indexes coll))]"

definition structure_path :: "string \<Rightarrow> string \<Rightarrow> string" where
  "structure_path pre name = pre @ name @ ''.structure.json''"

definition data_path :: "string \<Rightarrow> string \<Rightarrow> codec \<Rightarrow> string" where
  "data_path pre name cmp = pre @ name @ ''.''
     @ (case codec_extension cmp of Some ext \<Rightarrow> ''data.jsonl.'' @ ext | None \<Rightarrow> ''data.jsonl'')"

definition view_path :: "string \<Rightarrow> string \<Rightarrow> string" where
  "view_path pre name = pre @ name @ ''.view.json''"

definition structure_artifact :: "string \<Rightarrow> string option \<Rightarrow> string \<Rightarrow> nat \<Rightarrow> artifact" where
  "structure_artifact pre db name n =
     \<lparr>a_path = structure_path pre name, a_kind = Structure, a_format = Json, a_compression = Uncompressed,
      a_byte_size = n, a_checksum = None, a_collection = Some name, a_view = None, a_database = db,
      a_part = None\<rparr>"

definition data_artifact ::
  "(bytes \<Rightarrow> bytes) \<Rightarrow> string \<Rightarrow> string option \<Rightarrow> string \<Rightarrow> codec \<Rightarrow> nat \<Rightarrow> bytes \<Rightarrow> artifact"
where
  "data_artifact digest pre db name cmp n hashed =
     \<lparr>a_path = data_path pre name cmp, a_kind = Data, a_format = Jsonl,
      a_compression = map_compression cmp, a_byte_size = n,
      a_checksum = Some \<lparr>cs_algorithm = ''sha256'', cs_value = sha256_hex digest hashed\<rparr>,
      a_collection = Some name, a_view = None, a_database = db, a_part = Some 0\<rparr>"

definition view_artifact :: "string \<Rightarrow> string option \<Rightarrow> string \<Rightarrow> nat \<Rightarrow> artifact" where
  "view_artifact pre db name n =
     \<lparr>a_path = view_path pre name, a_kind = View, a_format = Json, a_compression = Uncompressed,
      a_byte_size = n, a_checksum = None, a_collection = None, a_view = Some name, a_database = db,
      a_part = None\<rparr>"

definition write_structure ::
  "'s store_ops \<Rightarrow> dump_env \<Rightarrow> string \<Rightarrow> string option \<Rightarrow> string \<Rightarrow> inventory_collection \<Rightarrow> ('c, 's, unit) dump_act"
where
  "write_structure so env pre db name coll =
     act_bind (act_lift (de_pretty env (structure_value coll))) (\<lambda>b.
     act_bind (on_store (so_put so (path_new (structure_path pre name)) (once b))) (\<lambda>meta.
       push_artifact (structure_artifact pre db name (om_size meta))))"

text \<open>
  \<open>dump_data_stream\<close>: pages from tick to tick.  Ticks are 64-bit; a tick that does not grow
  ends the stream, so the loop ends whatever the server answers.
\<close>

function dump_pages ::
  "(64 word \<Rightarrow> 'c \<Rightarrow> dump_chunk res \<times> 'c) \<Rightarrow> 64 word \<Rightarrow> 'c \<Rightarrow> byte_stream \<times> 'c"
where
  "dump_pages fetch from c =
     (case fetch from c of
        (Inl e, c1) \<Rightarrow> ([Inl e], c1)
      | (Inr ch, c1) \<Rightarrow>
          (let here = (if ch_body ch = [] then [] else [Inr (ch_body ch)]); next_tick = ch_last_tick ch in
           if \<not> ch_has_more ch \<or> next_tick = 0 \<or> next_tick \<le> from then (here, c1)
           else (let (rest, c2) = dump_pages fetch next_tick c1 in (here @ rest, c2))))"
  by pat_completeness auto
termination
proof (relation "measure (\<lambda>(_, lo, _). 2^64 - unat lo)", goal_cases)
  case (2 fetch lo c r c1 ch here xa)
  then have "unat lo < unat xa" by (simp add: word_le_nat_alt)
  moreover have "unat xa < 2^64" using unsigned_less [of xa] by simp
  ultimately show ?case by simp
qed simp

declare dump_pages.simps [simp del]

text \<open>\<open>hashing\<close> hashes the chunks that pass, which are those of the compressed stream.\<close>

definition write_data ::
  "'c dump_client \<Rightarrow> 's store_ops \<Rightarrow> dump_env \<Rightarrow> dump_options \<Rightarrow> string \<Rightarrow> string \<Rightarrow> string \<Rightarrow> string option
   \<Rightarrow> string \<Rightarrow> ('c, 's, unit) dump_act"
where
  "write_data cl so env opts dbn batch pre db name st =
     (let (raw, c) = dump_pages (\<lambda>from. dc_chunk cl dbn name batch from (do_chunk_size opts)) 0 (d_server st);
          body = compress_stream (de_gz env) (de_zstd env) (do_compression opts) raw
      in act_bind (on_store (so_put so (path_new (data_path pre name (do_compression opts))) body))
           (\<lambda>meta. push_artifact (data_artifact (de_digest env) pre db name (do_compression opts)
                                     (om_size meta) (ok_bytes body)))
           (st\<lparr>d_server := c\<rparr>))"

text \<open>\<open>view_targets\<close>: sorted, without duplicates.\<close>

definition view_targets :: "json \<Rightarrow> string list" where
  "view_targets v =
     remdups_adj (sort
       ((case Option.bind (jget v ''links'') as_object of Some kvs \<Rightarrow> map fst kvs | None \<Rightarrow> [])
        @ (case Option.bind (jget v ''indexes'') as_array of
             Some is \<Rightarrow> List.map_filter (\<lambda>i. Option.bind (jget i ''collection'') as_str) is
           | None \<Rightarrow> [])))"

definition write_view ::
  "'s store_ops \<Rightarrow> dump_env \<Rightarrow> string \<Rightarrow> string option \<Rightarrow> json \<Rightarrow> ('c, 's, unit) dump_act"
where
  "write_view so env pre db v st =
     (case Option.bind (jget v ''name'') as_str of
        None \<Rightarrow> (Inl (Config ''inventory view is missing a name''), st)
      | Some name \<Rightarrow>
          (let missing = filter (\<lambda>t. t \<notin> set (d_dumped st)) (view_targets v) in
           if missing \<noteq> []
           then emit (DumpWarning (''view '' @ [CHR 0x27] @ name @ [CHR 0x27]
                  @ '' was not dumped: it targets collection(s) '' @ join '', '' missing
                  @ '' which the collection filters excluded. Restoring it would fail, so it is omitted. ''
                  @ ''Widen --include-collections (or drop --exclude-collections) to capture it.'')) st
           else act_bind (act_lift (de_pretty env v)) (\<lambda>b.
                act_bind (on_store (so_put so (path_new (view_path pre name)) (once b))) (\<lambda>meta.
                  push_artifact (view_artifact pre db name (om_size meta)))) st))"

definition data_bytes :: "manifest \<Rightarrow> nat" where
  "data_bytes m = sum_list (map a_byte_size (filter (\<lambda>a. a_kind a = Data) (m_artifacts m)))"

text \<open>One collection of the inventory.\<close>

definition dump_collection ::
  "'c dump_client \<Rightarrow> 's store_ops \<Rightarrow> dump_env \<Rightarrow> dump_options \<Rightarrow> string \<Rightarrow> string \<Rightarrow> string \<Rightarrow> string option
   \<Rightarrow> inventory_collection \<Rightarrow> ('c, 's, unit) dump_act"
where
  "dump_collection cl so env opts dbn batch pre db coll =
     (if ic_is_system coll \<and> \<not> do_include_system opts then act_return ()
      else act_bind (act_lift (ok_or (Config ''inventory collection is missing a name'') (ic_name coll))) (\<lambda>name.
        if \<not> ic_is_system coll \<and> \<not> filter_accepts (do_filters opts) name then act_return ()
        else
          act_bind (on_server (dc_batch_extend cl dbn batch (do_batch_ttl opts))) (\<lambda>_.
          act_bind (write_structure so env pre db name coll) (\<lambda>_.
          act_bind (write_data cl so env opts dbn batch pre db name) (\<lambda>_ st.
            emit (CollectionDone (data_bytes (d_manifest st)) (d_collections st + 1))
              (st\<lparr>d_dumped := name # d_dumped st, d_collections := d_collections st + 1\<rparr>))))))"

definition dump_db_into_manifest ::
  "'c dump_client \<Rightarrow> 's store_ops \<Rightarrow> dump_env \<Rightarrow> dump_options \<Rightarrow> string \<Rightarrow> string \<Rightarrow> string \<Rightarrow> string option
   \<Rightarrow> ('c, 's, unit) dump_act"
where
  "dump_db_into_manifest cl so env opts dbn batch pre db =
     act_bind (on_server (dc_inventory cl dbn batch (do_include_system opts))) (\<lambda>inv.
     act_bind (\<lambda>st. (Inr (), st\<lparr>d_dumped := []\<rparr>)) (\<lambda>_.
     act_bind (act_all (dump_collection cl so env opts dbn batch pre db) (inv_collections inv)) (\<lambda>_.
       act_all (write_view so env pre db) (inv_views inv))))"

section \<open>The dump\<close>

definition write_manifest :: "'s store_ops \<Rightarrow> dump_env \<Rightarrow> ('c, 's, manifest) dump_act" where
  "write_manifest so env st =
     act_bind (act_lift (de_pretty env (manifest_to_value (d_manifest st)))) (\<lambda>b.
     act_bind (on_store (so_put so (path_new dump_manifest_name) (once b))) (\<lambda>_.
       act_return (d_manifest st))) st"

definition start_manifest :: "string \<Rightarrow> dump_options \<Rightarrow> ('c, 's, unit) dump_act" where
  "start_manifest db opts st =
     (Inr (), st\<lparr>d_manifest := manifest_new db (do_tool_version opts) (do_created_at opts)\<rparr>)"

definition dump_with_batch ::
  "'c dump_client \<Rightarrow> 's store_ops \<Rightarrow> dump_env \<Rightarrow> dump_options \<Rightarrow> string \<Rightarrow> ('c, 's, manifest) dump_act"
where
  "dump_with_batch cl so env opts batch =
     act_bind (start_manifest (do_database opts) opts) (\<lambda>_.
     act_bind (dump_db_into_manifest cl so env opts (dc_database cl) batch [] None) (\<lambda>_.
       write_manifest so env))"

text \<open>One database of a dump of all databases; the batch is deleted only after a success.\<close>

definition dump_one_database ::
  "'c dump_client \<Rightarrow> 's store_ops \<Rightarrow> dump_env \<Rightarrow> dump_options \<Rightarrow> string \<Rightarrow> ('c, 's, unit) dump_act"
where
  "dump_one_database cl so env opts db =
     act_bind (on_server (dc_batch_create cl db (do_batch_ttl opts))) (\<lambda>batch.
     act_bind (dump_db_into_manifest cl so env opts db batch (''databases/'' @ db @ ''/'') (Some db)) (\<lambda>_ st.
       (Inr (), st\<lparr>d_server := snd (dc_batch_delete cl db batch (d_server st))\<rparr>)))"

definition run_dump_body ::
  "'c dump_client \<Rightarrow> 's store_ops \<Rightarrow> dump_env \<Rightarrow> dump_options \<Rightarrow> ('c, 's, manifest) dump_act"
where
  "run_dump_body cl so env opts =
     (if \<not> do_all_databases opts then
        act_bind (on_server (dc_batch_create cl (dc_database cl) (do_batch_ttl opts))) (\<lambda>batch st.
          (case dump_with_batch cl so env opts batch st of
             (result, st1) \<Rightarrow>
               (result, st1\<lparr>d_server := snd (dc_batch_delete cl (dc_database cl) batch (d_server st1))\<rparr>)))
      else
        act_bind (on_server (dc_list_databases cl)) (\<lambda>dbs.
        act_bind (start_manifest ''all'' opts) (\<lambda>_.
        act_bind (act_all (dump_one_database cl so env opts) dbs) (\<lambda>_.
          write_manifest so env))))"

definition run_dump ::
  "'c dump_client \<Rightarrow> 's store_ops \<Rightarrow> dump_env \<Rightarrow> (error \<Rightarrow> string) \<Rightarrow> dump_options \<Rightarrow> ('c, 's, manifest) dump_act"
where
  "run_dump cl so env show_error opts =
     act_bind (preflight_topology cl show_error) (\<lambda>_.
     act_bind (claim_destination so env opts) (\<lambda>_ st.
       (case run_dump_body cl so env opts st of
          (Inr m, st1) \<Rightarrow> (Inr m, st1\<lparr>d_store := release_destination so (d_store st1)\<rparr>)
        | (Inl e, st1) \<Rightarrow> (Inl e, st1))))"

section \<open>The dump over a store\<close>

text \<open>
  A store on which the dump's own two names are objects of their own: no artifact, whose path
  ends in a proper suffix, is one of them.
\<close>

definition artifact_suffix :: "string \<Rightarrow> bool" where
  "artifact_suffix x \<longleftrightarrow> x \<in> {''.structure.json'', ''.data.jsonl'', ''.data.jsonl.gz'', ''.data.jsonl.zst'', ''.view.json''}"

locale dump_target = named_store put put_absent get head delete key obj wf
  for put :: "object_path \<Rightarrow> byte_stream \<Rightarrow> 's \<Rightarrow> object_metadata res \<times> 's"
    and put_absent get head delete and key :: "object_path \<Rightarrow> 'k" and obj wf +
  assumes own_names: "artifact_suffix x \<Longrightarrow> key (path_new (b @ x)) \<noteq> key (path_new dump_lock_name)
        \<and> key (path_new (b @ x)) \<noteq> key (path_new dump_manifest_name)"
    and two_names: "key (path_new dump_lock_name) \<noteq> key (path_new dump_manifest_name)"

lemma artifact_paths:
  "\<exists>b x. structure_path pre name = b @ x \<and> artifact_suffix x"
  "\<exists>b x. data_path pre name cmp = b @ x \<and> artifact_suffix x"
  "\<exists>b x. view_path pre name = b @ x \<and> artifact_suffix x"
proof -
  show "\<exists>b x. structure_path pre name = b @ x \<and> artifact_suffix x"
    by (intro exI [of _ "pre @ name"] exI [of _ "''.structure.json''"])
      (simp add: structure_path_def artifact_suffix_def)
  show "\<exists>b x. view_path pre name = b @ x \<and> artifact_suffix x"
    by (intro exI [of _ "pre @ name"] exI [of _ "''.view.json''"]) (simp add: view_path_def artifact_suffix_def)
  show "\<exists>b x. data_path pre name cmp = b @ x \<and> artifact_suffix x"
    by (rule exI [of _ "pre @ name"], rule exI [of _ "drop (length (pre @ name)) (data_path pre name cmp)"])
      (cases cmp; simp add: data_path_def artifact_suffix_def)
qed

context dump_target
begin

definition ops :: "'s store_ops" where
  "ops = \<lparr>so_put = put, so_put_absent = put_absent, so_head = head, so_delete = delete\<rparr>"

definition lock_held :: "bytes \<Rightarrow> ('c, 's) dump_state \<Rightarrow> bool" where
  "lock_held b st \<longleftrightarrow> wf (d_store st) \<and> obj (d_store st) (key (path_new dump_lock_name)) = Some b"

lemma keeps_server [act_intros]: "act_keeps (lock_held b) (on_server f)"
  by (auto simp: act_keeps_def lock_held_def on_server_def Let_def split: prod.splits)

lemma keeps_push [act_intros]: "act_keeps (lock_held b) (push_artifact a)"
  by (auto simp: act_keeps_def lock_held_def push_artifact_def)

lemma keeps_emit [act_intros]: "act_keeps (lock_held b) (emit e)"
  by (auto simp: act_keeps_def lock_held_def emit_def)

lemma keeps_put:
  assumes "key p \<noteq> key (path_new dump_lock_name)"
  shows "act_keeps (lock_held b) (on_store (so_put ops p bs))"
  using assms put_frame put_wf
  by (auto simp: act_keeps_def lock_held_def on_store_def ops_def Let_def split: prod.splits)

lemma keeps_put_artifact [act_intros]:
  "act_keeps (lock_held b) (on_store (so_put ops (path_new (structure_path pre name)) bs))"
  "act_keeps (lock_held b) (on_store (so_put ops (path_new (data_path pre name cmp)) bs))"
  "act_keeps (lock_held b) (on_store (so_put ops (path_new (view_path pre name)) bs))"
  "act_keeps (lock_held b) (on_store (so_put ops (path_new dump_manifest_name) bs))"
  using artifact_paths(1) [of pre name] artifact_paths(2) [of pre name cmp] artifact_paths(3) [of pre name]
    own_names two_names
  by (metis keeps_put)+

lemma keeps_structure [act_intros]: "act_keeps (lock_held b) (write_structure ops env pre db name coll)"
  unfolding write_structure_def by (intro act_intros)



lemma keeps_data [act_intros]: "act_keeps (lock_held b) (write_data cl ops env opts dbn batch pre db name)"
proof (unfold act_keeps_def, intro allI impI)
  have k: "act_keeps (lock_held b) (act_bind (on_store (so_put ops (path_new (data_path pre name cmp)) body))
      (\<lambda>meta. push_artifact (f meta)))" for body f cmp
    by (intro act_intros)
  fix st r st1
  assume I: "lock_held b st" and w: "write_data cl ops env opts dbn batch pre db name st = (r, st1)"
  obtain raw c where p: "dump_pages (\<lambda>from. dc_chunk cl dbn name batch from (do_chunk_size opts)) 0 (d_server st) = (raw, c)"
    by (cases "dump_pages (\<lambda>from. dc_chunk cl dbn name batch from (do_chunk_size opts)) 0 (d_server st)")
  have "lock_held b (st\<lparr>d_server := c\<rparr>)" using I by (simp add: lock_held_def)
  then show "lock_held b st1"
    by (rule act_keepsD [OF k _ w [unfolded write_data_def p Let_def prod.case]])
qed

lemma keeps_view [act_intros]: "act_keeps (lock_held b) (write_view ops env pre db v)"
proof (cases "Option.bind (jget v ''name'') as_str")
  case None
  then show ?thesis unfolding write_view_def None option.case by (intro act_intros)
next
  case (Some name)
  have "act_keeps (lock_held b) (\<lambda>st. (if Q x then emit (f x) else m) st)" if "act_keeps (lock_held b) m" for Q f m x
    using that by (cases "Q x") (simp_all add: act_intros)
  note dep = act_keeps_dep [OF this]
  show ?thesis
    unfolding write_view_def Some option.case Let_def if_distrib [where f = "\<lambda>g. g _", symmetric]
    by (intro dep act_intros)
qed

end

context dump_target
begin

lemma keeps_collection [act_intros]:
  "act_keeps (lock_held b) (dump_collection cl ops env opts dbn batch pre db coll)"
proof -
  have "act_keeps (lock_held b) (\<lambda>st. emit (CollectionDone (data_bytes (d_manifest st)) (d_collections st + 1))
              (st\<lparr>d_dumped := name # d_dumped st, d_collections := d_collections st + 1\<rparr>))" for name
    by (auto simp: act_keeps_def lock_held_def emit_def)
  then show ?thesis
    unfolding dump_collection_def by (auto intro!: act_intros)
qed

lemma keeps_database [act_intros]:
  "act_keeps (lock_held b) (dump_db_into_manifest cl ops env opts dbn batch pre db)"
proof -
  have "act_keeps (lock_held b) (\<lambda>st. (Inr (), st\<lparr>d_dumped := []\<rparr>))"
    by (auto simp: act_keeps_def lock_held_def)
  then show ?thesis unfolding dump_db_into_manifest_def by (intro act_intros)
qed

lemma keeps_manifest [act_intros]: "act_keeps (lock_held b) (write_manifest ops env)"
proof -
  have "act_keeps (lock_held b) (\<lambda>st. (act_bind (act_lift (de_pretty env (manifest_to_value m))) (\<lambda>t.
     act_bind (on_store (so_put ops (path_new dump_manifest_name) (once t))) (\<lambda>_. act_return m))) st)" for m
    by (intro act_intros)
  then show ?thesis unfolding act_keeps_def write_manifest_def by blast
qed

lemma keeps_start [act_intros]: "act_keeps (lock_held b) (start_manifest db opts)"
  by (auto simp: act_keeps_def lock_held_def start_manifest_def)

lemma keeps_body: "act_keeps (lock_held b) (run_dump_body cl ops env opts)"
proof -
  have one: "act_keeps (lock_held b) (\<lambda>st. case dump_with_batch cl ops env opts batch st of
             (result, st1) \<Rightarrow>
               (result, st1\<lparr>d_server := snd (dc_batch_delete cl (dc_database cl) batch (d_server st1))\<rparr>))" for batch
  proof -
    have "act_keeps (lock_held b) (dump_with_batch cl ops env opts batch)"
      unfolding dump_with_batch_def by (intro act_intros)
    then show ?thesis by (rule act_keeps_after) (simp add: lock_held_def)
  qed
  have "act_keeps (lock_held b) (\<lambda>st. (Inr (), st\<lparr>d_server := snd (dc_batch_delete cl db batch (d_server st))\<rparr>))" for db batch
    by (auto simp: act_keeps_def lock_held_def)
  then have all: "act_keeps (lock_held b) (dump_one_database cl ops env opts db)" for db
    unfolding dump_one_database_def by (intro act_intros)
  show ?thesis
    unfolding run_dump_body_def using one all by (auto intro!: act_intros)
qed

text \<open>After a claim that went through, the lock object exists with the lock's text.\<close>

lemma preflight_store:
  "preflight_topology cl show_error st = (r, st1) \<Longrightarrow>
     d_store st1 = d_store st \<and> d_manifest st1 = d_manifest st \<and> d_server st1 = snd (dc_role cl (d_server st))"
  by (auto simp: preflight_topology_def emit_def split: prod.splits sum.splits if_splits)

lemma claim_refused:
  assumes "wf (d_store st)" "\<not> do_overwrite opts"
    and "obj (d_store st) (key (path_new dump_lock_name)) = Some b
      \<or> obj (d_store st) (key (path_new dump_manifest_name)) = Some b"
    and "claim_destination ops env opts st = (r, st1)"
  shows "\<not> is_ok r \<and> d_server st1 = d_server st \<and> d_manifest st1 = d_manifest st
    \<and> (\<forall>k. obj (d_store st1) k = obj (d_store st) k)"
proof -
  let ?lock = "path_new dump_lock_name" and ?man = "path_new dump_manifest_name"
  consider (err) e where "store_exists head ?man (d_store st) = Inl e"
    | (yes) "store_exists head ?man (d_store st) = Inr True"
    | (no) "store_exists head ?man (d_store st) = Inr False"
    by (cases "store_exists head ?man (d_store st)") auto
  then show ?thesis
  proof cases
    case no
    then have "obj (d_store st) (key ?man) = None"
      using head_none [OF assms(1), of ?man] by (auto simp: store_exists_def res_simps)
    then have l: "obj (d_store st) (key ?lock) = Some b" using assms(3) by simp
    have put: "\<not> is_ok (fst (put_absent ?lock bs (d_store st)))
        \<and> (\<forall>k. obj (snd (put_absent ?lock bs (d_store st))) k = obj (d_store st) k)" for bs
      using put_absent_exclusive [OF assms(1) l, of bs] put_absent_frame [OF assms(1), of ?lock bs]
        put_absent_keeps [OF assms(1), of ?lock bs _ _ b] l
      by (cases "put_absent ?lock bs (d_store st)") (auto simp: is_ok_def split: sum.splits, metis)
    show ?thesis
    proof (cases "de_pretty env (lock_body opts)")
      case (Inl e)
      then show ?thesis
        using assms(2,4) no by (auto simp: claim_destination_def ops_def act_bind_def Let_def)
    next
      case (Inr t)
      obtain r2 s2 where p: "put_absent ?lock (once t) (d_store st) = (r2, s2)" by fastforce
      then obtain e where "r2 = Inl e" using put [of "once t"] by (cases r2) auto
      then show ?thesis
        using assms(2,4) no Inr p put [of "once t"] by (auto simp: claim_destination_def ops_def act_bind_def Let_def)
    qed
  qed (use assms(2,4) in \<open>auto simp: claim_destination_def ops_def act_bind_def Let_def\<close>)
qed

lemma claim_holds:
  assumes "wf (d_store st)" "claim_destination ops env opts st = (Inr u, st1)"
  shows "\<exists>t. de_pretty env (lock_body opts) = Inr t \<and> lock_held t st1"
proof -
  obtain s t m s1 where w: "wf s" "de_pretty env (lock_body opts) = Inr t"
    "put_absent (path_new dump_lock_name) (once t) s = (Inr m, s1)" "d_store st1 = s1"
  proof (cases "do_overwrite opts")
    case True
    let ?s = "snd (delete (path_new dump_manifest_name) (snd (delete (path_new dump_lock_name) (d_store st))))"
    have "wf ?s" using assms(1) delete_wf by (metis prod.collapse)
    then show ?thesis using that assms(2) True
      by (auto simp: claim_destination_def ops_def act_bind_def Let_def split: sum.splits prod.splits)
  next
    case False
    then show ?thesis using that assms
      by (auto simp: claim_destination_def ops_def act_bind_def Let_def split: sum.splits prod.splits bool.splits)
  qed
  then show ?thesis
    using put_absent_ok [OF w(1,3)] put_absent_wf [OF w(1,3)] by (auto simp: lock_held_def)
qed

end

context dump_target
begin

lemma write_manifest_done:
  assumes "wf (d_store st)" "write_manifest ops env st = (Inr m, st1)"
  shows "m = d_manifest st \<and> d_manifest st1 = m \<and> wf (d_store st1)
    \<and> (\<exists>t. de_pretty env (manifest_to_value m) = Inr t
         \<and> obj (d_store st1) (key (path_new dump_manifest_name)) = Some t)"
proof -
  obtain t w s where t: "de_pretty env (manifest_to_value (d_manifest st)) = Inr t"
    "put (path_new dump_manifest_name) (once t) (d_store st) = (Inr w, s)"
    "m = d_manifest st" "st1 = st\<lparr>d_store := s\<rparr>"
    using assms(2)
    by (auto simp: write_manifest_def act_simps on_store_def ops_def Let_def)
  then show ?thesis using put_ok [OF assms(1) t(2)] put_wf [OF assms(1) t(2)] by auto
qed

lemma body_done:
  assumes "lock_held b st" "run_dump_body cl ops env opts st = (Inr m, st1)"
  shows "d_manifest st1 = m \<and> wf (d_store st1)
    \<and> (\<exists>t. de_pretty env (manifest_to_value m) = Inr t
         \<and> obj (d_store st1) (key (path_new dump_manifest_name)) = Some t)"
proof (cases "do_all_databases opts")
  case False
  obtain batch st2 st3 where s: "on_server (dc_batch_create cl (dc_database cl) (do_batch_ttl opts)) st = (Inr batch, st2)"
    "dump_with_batch cl ops env opts batch st2 = (Inr m, st3)"
    "st1 = st3\<lparr>d_server := snd (dc_batch_delete cl (dc_database cl) batch (d_server st3))\<rparr>"
    using assms(2) False by (auto simp: run_dump_body_def act_simps)
  obtain st4 where st4: "act_bind (start_manifest (do_database opts) opts)
      (\<lambda>_. dump_db_into_manifest cl ops env opts (dc_database cl) batch [] None) st2 = (Inr (), st4)"
    "write_manifest ops env st4 = (Inr m, st3)"
    using s(2) by (auto simp: dump_with_batch_def act_simps)
  have "lock_held b st2" by (rule act_keepsD [OF keeps_server assms(1) s(1)])
  moreover have "act_keeps (lock_held b) (act_bind (start_manifest (do_database opts) opts)
      (\<lambda>_. dump_db_into_manifest cl ops env opts (dc_database cl) batch [] None))"
    by (intro act_intros)
  ultimately have "lock_held b st4" using act_keepsD st4(1) by metis
  then show ?thesis using write_manifest_done [OF _ st4(2)] s(3) by (auto simp: lock_held_def)
next
  case True
  have one: "act_keeps (lock_held b) (dump_one_database cl ops env opts db)" for db
    unfolding dump_one_database_def
    by (intro act_intros) (auto simp: act_keeps_def lock_held_def)
  obtain st4 where st4: "act_bind (on_server (dc_list_databases cl)) (\<lambda>dbs.
        act_bind (start_manifest ''all'' opts) (\<lambda>_. act_all (dump_one_database cl ops env opts) dbs)) st = (Inr (), st4)"
    "write_manifest ops env st4 = (Inr m, st1)"
  proof -
    have "run_dump_body cl ops env opts = act_bind (act_bind (on_server (dc_list_databases cl)) (\<lambda>dbs.
        act_bind (start_manifest ''all'' opts) (\<lambda>_. act_all (dump_one_database cl ops env opts) dbs)))
          (\<lambda>_. write_manifest ops env)"
      using True by (simp add: run_dump_body_def act_bind_assoc)
    then obtain u st4 where "act_bind (on_server (dc_list_databases cl)) (\<lambda>dbs.
        act_bind (start_manifest ''all'' opts) (\<lambda>_. act_all (dump_one_database cl ops env opts) dbs)) st = (Inr u, st4)"
      "write_manifest ops env st4 = (Inr m, st1)"
      using assms(2) by (auto simp only: act_bind_Inr [of _ "\<lambda>_. write_manifest ops env"])
    then show ?thesis using that by simp
  qed
  have "act_keeps (lock_held b) (act_bind (on_server (dc_list_databases cl)) (\<lambda>dbs.
        act_bind (start_manifest ''all'' opts) (\<lambda>_. act_all (dump_one_database cl ops env opts) dbs)))"
    by (intro act_intros one)
  note keeps = act_keepsD [OF this]
  have "lock_held b st4" by (rule keeps [OF assms(1) st4(1)])
  then show ?thesis using write_manifest_done [OF _ st4(2)] by (auto simp: lock_held_def)
qed

lemma dump_refused:
  assumes "wf (d_store st)" "\<not> do_overwrite opts"
    and "obj (d_store st) (key (path_new dump_lock_name)) = Some b
      \<or> obj (d_store st) (key (path_new dump_manifest_name)) = Some b"
    and "run_dump cl ops env show_error opts st = (r, st')"
  shows "\<not> is_ok r \<and> d_server st' = snd (dc_role cl (d_server st)) \<and> d_manifest st' = d_manifest st
    \<and> (\<forall>k. obj (d_store st') k = obj (d_store st) k)"
proof -
  obtain r1 st1 where p: "preflight_topology cl show_error st = (r1, st1)" by fastforce
  note pre = preflight_store [OF p]
  show ?thesis
  proof (cases r1)
    case (Inl e)
    then show ?thesis using assms(4) p pre by (auto simp: run_dump_def act_bind_def)
  next
    case (Inr u)
    obtain r2 st2 where c: "claim_destination ops env opts st1 = (r2, st2)" by fastforce
    have f: "\<not> is_ok r2 \<and> d_server st2 = d_server st1 \<and> d_manifest st2 = d_manifest st1
      \<and> (\<forall>k. obj (d_store st2) k = obj (d_store st1) k)"
      by (rule claim_refused [OF _ assms(2) _ c]) (use assms(1,3) pre in simp_all)
    then obtain e where "r2 = Inl e" by (cases r2) auto
    then show ?thesis using assms(4) p pre c f Inr by (auto simp: run_dump_def act_bind_def)
  qed
qed

lemma dump_claimed:
  assumes "wf (d_store st)"
    and "preflight_topology cl show_error st = (Inr (), st1)" "claim_destination ops env opts st1 = (Inr (), st2)"
    and "run_dump cl ops env show_error opts st = (r, st')"
  shows "case r of
      Inl e \<Rightarrow> \<exists>t. de_pretty env (lock_body opts) = Inr t
         \<and> obj (d_store st') (key (path_new dump_lock_name)) = Some t
    | Inr m \<Rightarrow> d_manifest st' = m \<and> (\<exists>t. de_pretty env (manifest_to_value m) = Inr t
         \<and> obj (d_store st') (key (path_new dump_manifest_name)) = Some t)"
proof -
  have "wf (d_store st1)" using preflight_store [OF assms(2)] assms(1) by simp
  then obtain t where t: "de_pretty env (lock_body opts) = Inr t" "lock_held t st2"
    using claim_holds assms(3) by blast
  obtain r3 st3 where b: "run_dump_body cl ops env opts st2 = (r3, st3)" by fastforce
  have held: "lock_held t st3" by (rule act_keepsD [OF keeps_body t(2) b])
  show ?thesis
  proof (cases r3)
    case (Inl e)
    then have "r = Inl e" "st' = st3" using assms(2-4) b by (auto simp: run_dump_def act_bind_def)
    then show ?thesis using t(1) held by (auto simp: lock_held_def)
  next
    case (Inr m)
    then have r: "r = Inr m" "st' = st3\<lparr>d_store := release_destination ops (d_store st3)\<rparr>"
      using assms(2-4) b by (auto simp: run_dump_def act_bind_def)
    obtain u where u: "de_pretty env (manifest_to_value m) = Inr u" "d_manifest st3 = m" "wf (d_store st3)"
      "obj (d_store st3) (key (path_new dump_manifest_name)) = Some u"
      using body_done [OF t(2)] b Inr by blast
    have "obj (release_destination ops (d_store st3)) (key (path_new dump_manifest_name)) = Some u"
      using delete_frame [OF u(3), of "path_new dump_lock_name"] u(4) two_names
      by (cases "delete (path_new dump_lock_name) (d_store st3)") (auto simp: release_destination_def ops_def)
    then show ?thesis using r u by auto
  qed
qed

end

section \<open>On the local file system\<close>

lemma fs_key_plain_name:
  "CHR ''/'' \<notin> set q \<Longrightarrow> q \<noteq> [] \<Longrightarrow> q \<noteq> ''.'' \<Longrightarrow> fs_key (path_new q) = [q]"
  by (simp add: fs_key_def path_new_def path_components_def path_segments_def split_on_free)

lemma artifact_suffix_names:
  assumes "artifact_suffix x"
  shows "name_suffix x" "w @ x \<noteq> dump_lock_name" "w @ x \<noteq> dump_manifest_name"
proof -
  show "name_suffix x" using assms by (auto simp: artifact_suffix_def name_suffix_def)
  have "rev x \<noteq> take (length x) (rev dump_lock_name)" "rev x \<noteq> take (length x) (rev dump_manifest_name)"
    using assms by (auto simp: artifact_suffix_def dump_lock_name_def dump_manifest_name_def)
  moreover have "rev x = take (length x) (rev (w @ x))" by simp
  ultimately show "w @ x \<noteq> dump_lock_name" "w @ x \<noteq> dump_manifest_name" by metis+
qed

interpretation lfs_dump: dump_target local_put_stream local_put_if_absent local_get_stream
    local_head local_delete fs_key fs_obj fs_wf
proof unfold_locales
  have keys: "fs_key (path_new dump_lock_name) = [dump_lock_name]"
    "fs_key (path_new dump_manifest_name) = [dump_manifest_name]"
    by (simp_all add: fs_key_plain_name dump_lock_name_def dump_manifest_name_def)
  show "fs_key (path_new dump_lock_name) \<noteq> fs_key (path_new dump_manifest_name)"
    unfolding keys by (simp add: dump_lock_name_def dump_manifest_name_def)
  fix x b
  assume x: "artifact_suffix x"
  show "fs_key (path_new (b @ x)) \<noteq> fs_key (path_new dump_lock_name)
      \<and> fs_key (path_new (b @ x)) \<noteq> fs_key (path_new dump_manifest_name)"
    using artifact_suffix_names [OF x] by (simp add: keys fs_key_suffix)
qed

definition lfs_ops :: "fs store_ops" where
  "lfs_ops = \<lparr>so_put = local_put_stream, so_put_absent = local_put_if_absent, so_head = local_head,
     so_delete = local_delete\<rparr>"

lemma lfs_ops [simp]: "lfs_dump.ops = lfs_ops"
  by (simp add: lfs_dump.ops_def lfs_ops_def)

section \<open>Properties\<close>

text \<open>
  C34: two dumps never mix in one destination: where a dump is in progress, or died and left
  its marker, or where a finished dump lies, a dump that is not told to overwrite fails; it
  has written nothing there, and of the server it has asked nothing but its role.
\<close>

theorem dump_exclusive:
  assumes "fs_wf (d_store st)" "\<not> do_overwrite opts"
    and "fs_obj (d_store st) (fs_key (path_new dump_lock_name)) = Some b
      \<or> fs_obj (d_store st) (fs_key (path_new dump_manifest_name)) = Some b"
    and "run_dump cl lfs_ops env show_error opts st = (r, st')"
  shows "\<not> is_ok r \<and> d_server st' = snd (dc_role cl (d_server st)) \<and> d_manifest st' = d_manifest st
    \<and> (\<forall>k. fs_obj (d_store st') k = fs_obj (d_store st) k)"
  using lfs_dump.dump_refused [OF assms(1,2,3)] assms(4) by simp

text \<open>
  C35: what a claimed destination shows is the truth: once the destination is claimed, a dump
  that fails leaves its marker there, with the text it was claimed with, however it fails; a
  dump that succeeds leaves the manifest it returns.
\<close>

theorem dump_marker_truthful:
  assumes "fs_wf (d_store st)"
    and "preflight_topology cl show_error st = (Inr (), st1)" "claim_destination lfs_ops env opts st1 = (Inr (), st2)"
    and "run_dump cl lfs_ops env show_error opts st = (r, st')"
  shows "case r of
      Inl e \<Rightarrow> \<exists>t. de_pretty env (lock_body opts) = Inr t
         \<and> fs_obj (d_store st') (fs_key (path_new dump_lock_name)) = Some t
    | Inr m \<Rightarrow> d_manifest st' = m \<and> (\<exists>t. de_pretty env (manifest_to_value m) = Inr t
         \<and> fs_obj (d_store st') (fs_key (path_new dump_manifest_name)) = Some t)"
  using lfs_dump.dump_claimed [OF assms(1,2)] assms(3,4) by simp

text \<open>A small server that logs its calls: one collection of two chunks; database b has no inventory.\<close>

definition tiny_inventory :: inventory where
  "tiny_inventory =
     \<lparr>inv_collections = [\<lparr>ic_parameters = json_object [(''name'', JString ''users''), (''type'', JInt 2)],
                         ic_indexes = []\<rparr>],
      inv_views = []\<rparr>"

definition tiny_client :: "string list dump_client" where
  "tiny_client =
     \<lparr>dc_database = ''a'', dc_role = (\<lambda>l. (Inr Single, l @ [''role''])),
      dc_list_databases = (\<lambda>l. (Inr [''a'', ''b''], l @ [''databases''])),
      dc_batch_create = (\<lambda>db ttl l. (Inr ''7'', l @ [''create '' @ db])),
      dc_batch_extend = (\<lambda>db b ttl l. (Inr (), l @ [''extend '' @ db])),
      dc_batch_delete = (\<lambda>db b l. (Inr (), l @ [''delete '' @ db])),
      dc_inventory = (\<lambda>db b sys l. (if db = ''b'' then Inl (Connection ''down'') else Inr tiny_inventory,
                                     l @ [''inventory '' @ db])),
      dc_chunk = (\<lambda>db coll b from n l.
         (Inr (if from = 0 then \<lparr>ch_body = ''x'', ch_last_tick = 5, ch_has_more = True\<rparr>
               else \<lparr>ch_body = ''y'', ch_last_tick = 9, ch_has_more = False\<rparr>), l @ [''dump '' @ coll]))\<rparr>"

definition tiny_env :: dump_env where
  "tiny_env = \<lparr>de_pretty = (\<lambda>j. Inr ''{}''), de_digest = (\<lambda>b. b), de_gz = (\<lambda>s. s), de_zstd = (\<lambda>s. s)\<rparr>"

definition tiny_options :: "bool \<Rightarrow> dump_options" where
  "tiny_options everything = \<lparr>do_include_system = False, do_overwrite = False, do_all_databases = everything,
     do_filters = \<lparr>fo_include = None, fo_exclude = None\<rparr>, do_compression = CodecNone, do_batch_ttl = 600,
     do_chunk_size = 100, do_database = ''a'', do_tool_version = ''1'', do_created_at = ''t''\<rparr>"

definition tiny_state :: "fs \<Rightarrow> (string list, fs) dump_state" where
  "tiny_state s = \<lparr>d_server = [], d_store = s, d_manifest = manifest_new [] [] [], d_dumped = [],
     d_collections = 0, d_events = []\<rparr>"

definition tiny_dump :: "bool \<Rightarrow> fs \<Rightarrow> manifest res \<times> (string list, fs) dump_state" where
  "tiny_dump everything s = run_dump tiny_client lfs_ops tiny_env (\<lambda>_. []) (tiny_options everything) (tiny_state s)"

lemma dump_exclusive_witness:
  "\<not> is_ok (fst (tiny_dump False [([''dump.in-progress.json''], File ''{}'')]))
   \<and> d_server (snd (tiny_dump False [([''dump.in-progress.json''], File ''{}'')])) = [''role'']"
proof -
  let ?s = "[([''dump.in-progress.json''], File ''{}'')]" 
  let ?st = "tiny_state ?s" and ?o = "tiny_options False"
  have wf: "fs_wf (d_store ?st)"
    by (auto simp: tiny_state_def fs_wf_def fs_node_def bt_wf_def bt_get_def split: if_splits)
  have o: "\<not> do_overwrite ?o" by (simp add: tiny_options_def)
  have lock: "fs_obj (d_store ?st) (fs_key (path_new dump_lock_name)) = Some ''{}''" by code_simp
  obtain r st' where run: "run_dump tiny_client lfs_ops tiny_env (\<lambda>_. []) ?o ?st = (r, st')" by fastforce
  have "\<not> is_ok r \<and> d_server st' = snd (dc_role tiny_client (d_server ?st))"
    using dump_exclusive [OF wf o disjI1 [OF lock] run] by blast
  then show ?thesis using run by (simp add: tiny_dump_def tiny_client_def tiny_state_def)
qed

lemma dump_marker_truthful_witness:
  "fs_obj (d_store (snd (tiny_dump True []))) (fs_key (path_new dump_lock_name)) = Some ''{}''
   \<and> \<not> is_ok (fst (tiny_dump True []))"
proof -
  let ?st = "tiny_state []" and ?o = "tiny_options True"
  have wf: "fs_wf (d_store ?st)" by (simp add: tiny_state_def)
  let ?st1 = "?st\<lparr>d_server := [''role'']\<rparr>"
  have p: "preflight_topology tiny_client (\<lambda>_. []) ?st = (Inr (), ?st1)"
    by (simp add: preflight_topology_def tiny_client_def tiny_state_def)
  have "is_ok (fst (claim_destination lfs_ops tiny_env ?o ?st1))" by code_simp
  then obtain st2 where c: "claim_destination lfs_ops tiny_env ?o ?st1 = (Inr (), st2)"
    by (cases "claim_destination lfs_ops tiny_env ?o ?st1") (auto simp: is_ok_iff)
  have fails: "\<not> is_ok (fst (tiny_dump True []))" by code_simp
  obtain e st' where run: "run_dump tiny_client lfs_ops tiny_env (\<lambda>_. []) ?o ?st = (Inl e, st')"
    using fails by (cases "tiny_dump True []") (auto simp: tiny_dump_def is_ok_iff split: sum.splits, metis sum.exhaust)
  show ?thesis
    using dump_marker_truthful [OF wf p c run] fails run by (simp add: tiny_dump_def tiny_env_def)
qed

text \<open>
  The promise that the snapshot is always released holds for the dump of one database only: in
  a dump of all databases, a database whose dump fails keeps its batch.
\<close>

lemma dump_all_leaks_batch:
  "\<not> is_ok (fst (tiny_dump True [])) \<and> ''create b'' \<in> set (d_server (snd (tiny_dump True [])))
   \<and> ''delete b'' \<notin> set (d_server (snd (tiny_dump True [])))"
  by code_simp

lemma dump_single_releases_batch:
  assumes "\<not> do_all_databases opts"
    and "on_server (dc_batch_create cl (dc_database cl) (do_batch_ttl opts)) st = (Inr batch, st1)"
  shows "\<exists>c. d_server (snd (run_dump_body cl so env opts st)) = snd (dc_batch_delete cl (dc_database cl) batch c)"
  using assms by (auto simp: run_dump_body_def act_bind_def split: prod.splits)

text \<open>A server that answers with the chunk after the tick it is asked from; it counts the requests.\<close>

definition chunk_after :: "(64 word \<times> bytes) list \<Rightarrow> 64 word \<Rightarrow> nat \<Rightarrow> dump_chunk res \<times> nat" where
  "chunk_after cks lo n =
     (case dropWhile (\<lambda>(t, b). t \<le> lo) cks of
        [] \<Rightarrow> (Inr \<lparr>ch_body = [], ch_last_tick = 0, ch_has_more = False\<rparr>, n + 1)
      | (t, b) # rest \<Rightarrow> (Inr \<lparr>ch_body = b, ch_last_tick = t, ch_has_more = (rest \<noteq> [])\<rparr>, n + 1))"

lemma dump_pages_suffix:
  assumes "sorted_wrt (<) (map fst (pre @ cks))" "cks \<noteq> []" "\<forall>t \<in> set (map fst pre). t \<le> lo"
    and "\<forall>t \<in> set (map fst cks). lo < t"
  shows "dump_pages (chunk_after (pre @ cks)) lo n =
    (map Inr (filter (\<lambda>b. b \<noteq> []) (map snd cks)), n + length cks)"
  using assms
proof (induction cks arbitrary: pre lo n)
  case (Cons c cks)
  obtain t b where c: "c = (t, b)" by (cases c)
  have drop: "dropWhile (\<lambda>(t, b). t \<le> lo) (pre @ c # cks) = c # cks"
  proof -
    have "dropWhile (\<lambda>(t, b). t \<le> lo) (pre @ c # cks) = dropWhile (\<lambda>(t, b). t \<le> lo) (c # cks)"
      using Cons.prems(3) by (intro dropWhile_append2) auto
    moreover have "\<not> t \<le> lo" using Cons.prems(4) c by (simp add: not_le)
    ultimately show ?thesis using c by simp
  qed
  have t: "lo < t" using Cons.prems(4) c by simp
  have ans: "chunk_after (pre @ (t, b) # cks) lo n
      = (Inr \<lparr>ch_body = b, ch_last_tick = t, ch_has_more = (cks \<noteq> [])\<rparr>, n + 1)"
    using drop c by (simp add: chunk_after_def)
  show ?case
  proof (cases "cks = []")
    case True
    then show ?thesis using ans c by (simp add: dump_pages.simps [of _ lo])
  next
    case False
    have "dump_pages (chunk_after ((pre @ [c]) @ cks)) t (n + 1) =
      (map Inr (filter (\<lambda>b. b \<noteq> []) (map snd cks)), n + 1 + length cks)"
    proof (rule Cons.IH)
      show "sorted_wrt (<) (map fst ((pre @ [c]) @ cks))" using Cons.prems(1) by simp
      show "\<forall>u \<in> set (map fst (pre @ [c])). u \<le> t" using Cons.prems(3) t c by fastforce
      show "\<forall>u \<in> set (map fst cks). t < u" using Cons.prems(1) c by (simp add: sorted_wrt_append)
    qed (rule False)
    moreover have "t \<noteq> 0" using t by auto
    ultimately show ?thesis
      using ans c t False by (simp add: dump_pages.simps [of _ lo] Let_def not_le)
  qed
qed simp

text \<open>
  C36: the pages of a collection are complete: for a server that holds a collection as chunks
  with growing ticks and answers each request with the chunk that follows the tick asked for,
  the stream is exactly the non-empty chunks, in order, and the server is asked once for each.
\<close>

theorem dump_pages_complete:
  assumes "sorted_wrt (<) (map fst cks)" "0 \<notin> set (map fst cks)"
  shows "dump_pages (chunk_after cks) 0 0 =
    (map Inr (filter (\<lambda>b. b \<noteq> []) (map snd cks)), max 1 (length cks))"
proof (cases "cks = []")
  case True
  then show ?thesis by (simp add: dump_pages.simps chunk_after_def)
next
  case False
  have "\<forall>t \<in> set (map fst cks). 0 < t" using assms(2) by (metis word_gt_0)
  then show ?thesis using dump_pages_suffix [of "[]" cks 0 0] assms(1) False
    by (cases cks) simp_all
qed

lemma dump_pages_complete_witness:
  "dump_pages (chunk_after [(5, ''x''), (9, []), (11, ''y'')]) 0 0 = ([Inr ''x'', Inr ''y''], 3)"
  by (subst dump_pages_complete) simp_all

end
