(* ===== verification/Restore.thy ===== *)
theory Restore
  imports Dump "HOL-Library.Multiset"
begin

text \<open>
  The restore, crate \<open>arangodb-restore\<close>.  The server is the record \<open>restore_client\<close>, one
  function per request over a server state of any type; the dump is read through the \<open>get\<close> of
  its store, which does not change; the checkpoint lives in a store of its own.  Parameters:
  \<open>parse\<close> (\<open>serde_json::from_slice\<close>) and \<open>unpack\<close> (a decoder of \<open>async_compression\<close> run to
  its end).
\<close>

section \<open>Options, server, state\<close>

record 'c restore_client =
  rt_database :: string
  rt_create_database :: "string \<Rightarrow> 'c \<Rightarrow> unit res \<times> 'c"
  rt_restore_collection :: "string \<Rightarrow> json \<Rightarrow> json list \<Rightarrow> bool \<Rightarrow> 'c \<Rightarrow> unit res \<times> 'c"
  rt_restore_data :: "string \<Rightarrow> string \<Rightarrow> bytes \<Rightarrow> 'c \<Rightarrow> unit res \<times> 'c"
  rt_create_index :: "string \<Rightarrow> string \<Rightarrow> json \<Rightarrow> 'c \<Rightarrow> unit res \<times> 'c"
  rt_drop_view :: "string \<Rightarrow> string \<Rightarrow> 'c \<Rightarrow> unit res \<times> 'c"
  rt_create_view :: "string \<Rightarrow> json \<Rightarrow> 'c \<Rightarrow> unit res \<times> 'c"

record 'k checkpoint_config =
  cc_put :: "object_path \<Rightarrow> byte_stream \<Rightarrow> 'k \<Rightarrow> object_metadata res \<times> 'k"
  cc_head :: "object_path \<Rightarrow> 'k \<Rightarrow> object_metadata option res"
  cc_get :: "object_path \<Rightarrow> byte_range option \<Rightarrow> 'k \<Rightarrow> byte_stream res"
  cc_path :: object_path

record 'k restore_options =
  ro_overwrite :: bool
  ro_create_database :: "string option"
  ro_checkpoint :: "'k checkpoint_config option"

record restore_summary =
  rs_collections :: nat
  rs_restored :: nat
  rs_skipped :: nat
  rs_views :: nat

text \<open>The dump's store and the two parameters of reading.\<close>

record dump_source =
  src_get :: "object_path \<Rightarrow> byte_stream res"
  src_unpack :: "codec \<Rightarrow> byte_stream \<Rightarrow> bytes res"
  src_parse :: "bytes \<Rightarrow> json res"

record ('c, 'k) restore_state =
  r_server :: 'c
  r_ckstore :: 'k
  r_checkpoint :: restore_checkpoint
  r_restored :: nat
  r_skipped :: nat
  r_views :: nat
  r_events :: "nat list"

type_synonym ('c, 'k, 'a) restore_act = "(('c, 'k) restore_state, error, 'a) act"

definition ask :: "('c \<Rightarrow> 'a res \<times> 'c) \<Rightarrow> ('c, 'k, 'a) restore_act" where
  "ask f st = (let (r, c) = f (r_server st) in (r, st\<lparr>r_server := c\<rparr>))"

section \<open>Reading the dump\<close>

fun storage_compression :: "compression \<Rightarrow> codec" where
  "storage_compression Uncompressed = CodecNone"
| "storage_compression Gzip = CodecGzip"
| "storage_compression Zstd = CodecZstd"

text \<open>A stream error inside a reader is an I/O error of no particular kind.\<close>

definition read_object :: "dump_source \<Rightarrow> object_path \<Rightarrow> codec \<Rightarrow> bytes res" where
  "read_object src p cmp =
     try_res (src_get src p) (\<lambda>cs.
       if cmp = CodecNone
       then (case read_all cs of Inl _ \<Rightarrow> Inl (Io OtherIo) | Inr b \<Rightarrow> Inr b)
       else src_unpack src cmp cs)"

text \<open>\<open>String::from_utf8\<close>: well-formed UTF-8, no overlong forms, no surrogates.\<close>

definition byte_in :: "char \<Rightarrow> nat \<Rightarrow> nat \<Rightarrow> bool" where
  "byte_in c lo hi \<longleftrightarrow> lo \<le> (of_char c :: nat) \<and> (of_char c :: nat) \<le> hi"

fun utf8_ok :: "bytes \<Rightarrow> bool" where
  "utf8_ok [] = True"
| "utf8_ok (a # rest) =
     (if byte_in a 0 0x7F then utf8_ok rest
      else (case rest of
        [] \<Rightarrow> False
      | b # rest1 \<Rightarrow>
          if byte_in a 0xC2 0xDF \<and> byte_in b 0x80 0xBF then utf8_ok rest1
          else (case rest1 of
            [] \<Rightarrow> False
          | c # rest2 \<Rightarrow>
              if byte_in c 0x80 0xBF \<and>
                 ((byte_in a 0xE0 0xE0 \<and> byte_in b 0xA0 0xBF) \<or> (byte_in a 0xE1 0xEC \<and> byte_in b 0x80 0xBF)
                  \<or> (byte_in a 0xED 0xED \<and> byte_in b 0x80 0x9F) \<or> (byte_in a 0xEE 0xEF \<and> byte_in b 0x80 0xBF))
              then utf8_ok rest2
              else (case rest2 of
                [] \<Rightarrow> False
              | d # rest3 \<Rightarrow>
                  byte_in c 0x80 0xBF \<and> byte_in d 0x80 0xBF \<and>
                  ((byte_in a 0xF0 0xF0 \<and> byte_in b 0x90 0xBF) \<or> (byte_in a 0xF1 0xF3 \<and> byte_in b 0x80 0xBF)
                   \<or> (byte_in a 0xF4 0xF4 \<and> byte_in b 0x80 0x8F))
                  \<and> utf8_ok rest3))))"

definition read_manifest :: "dump_source \<Rightarrow> manifest res" where
  "read_manifest src =
     try_res (read_object src (path_new dump_manifest_name) CodecNone) (\<lambda>b.
       if utf8_ok b then from_json (src_parse src) manifest_of_value b
       else Inl (Config ''manifest is not valid UTF-8''))"

definition validate :: "manifest \<Rightarrow> unit res" where
  "validate m =
     (if is_encrypted (m_encryption m)
      then Inl (Config (''refusing to restore an encrypted dump (encryption: ''
             @ enc_algorithm (m_encryption m) @ ''); this is not supported''))
      else (case find (\<lambda>a. a_kind a = Data \<and> a_format a = Vpack) (m_artifacts m) of
              Some bad \<Rightarrow> Inl (Config (''refusing to restore VelocyPack data ('' @ [CHR 0x27] @ a_path bad
                     @ [CHR 0x27] @ ''); only JSONL is supported''))
            | None \<Rightarrow> Inr ()))"

record collection_group =
  cg_name :: string
  cg_database :: "string option"
  cg_structure_path :: string
  cg_data_paths :: "string list"

definition group_new :: "string \<Rightarrow> string option \<Rightarrow> collection_group" where
  "group_new name db = \<lparr>cg_name = name, cg_database = db, cg_structure_path = [], cg_data_paths = []\<rparr>"

definition group_add :: "artifact \<Rightarrow> collection_group \<Rightarrow> collection_group" where
  "group_add a g =
     (case a_kind a of
        Structure \<Rightarrow> g\<lparr>cg_structure_path := a_path a\<rparr>
      | Data \<Rightarrow> g\<lparr>cg_data_paths := cg_data_paths g @ [a_path a]\<rparr>
      | _ \<Rightarrow> g)"

fun group_insert :: "string \<Rightarrow> artifact \<Rightarrow> collection_group list \<Rightarrow> collection_group list" where
  "group_insert name a [] = [group_add a (group_new name (a_database a))]"
| "group_insert name a (g # gs) =
     (if cg_name g = name \<and> cg_database g = a_database a then group_add a g # gs
      else g # group_insert name a gs)"

definition group_by_collection :: "manifest \<Rightarrow> collection_group list" where
  "group_by_collection m =
     foldl (\<lambda>gs a. case a_collection a of None \<Rightarrow> gs | Some name \<Rightarrow> group_insert name a gs) []
       (m_artifacts m)"

record structure_doc =
  st_parameters :: json
  st_indexes :: "json list"
  st_is_edge :: bool

definition read_structure :: "dump_source \<Rightarrow> collection_group \<Rightarrow> structure_doc res" where
  "read_structure src g =
     (if cg_structure_path g = []
      then Inl (Config (''collection '' @ [CHR 0x27] @ cg_name g @ [CHR 0x27]
             @ '' has no structure artifact in the manifest''))
      else try_res (read_object src (path_new (cg_structure_path g)) CodecNone) (\<lambda>b.
           try_res (src_parse src b) (\<lambda>v.
           try_res (ok_or (Config (''structure artifact is missing '' @ [CHR 0x27] @ ''parameters'' @ [CHR 0x27]))
                      (jget v ''parameters'')) (\<lambda>params.
             Inr \<lparr>st_parameters = params,
                  st_indexes = (case Option.bind (jget v ''indexes'') as_array of Some is \<Rightarrow> is | None \<Rightarrow> []),
                  st_is_edge = (Option.bind (jget params ''type'') as_u64 = Some 3)\<rparr>))))"

definition read_data :: "dump_source \<Rightarrow> string \<Rightarrow> manifest \<Rightarrow> bytes res" where
  "read_data src p m =
     read_object src (path_new p)
       (case find (\<lambda>a. a_path a = p) (m_artifacts m) of
          Some a \<Rightarrow> storage_compression (a_compression a) | None \<Rightarrow> CodecNone)"

record view_artifact_doc =
  va_name :: string
  va_database :: "string option"
  va_definition :: json

definition is_search_alias :: "view_artifact_doc \<Rightarrow> bool" where
  "is_search_alias v \<longleftrightarrow> Option.bind (jget (va_definition v) ''type'') as_str = Some ''search-alias''"

definition or_empty :: "string option \<Rightarrow> string" where
  "or_empty d = (case d of Some s \<Rightarrow> s | None \<Rightarrow> [])"

definition view_unit_id :: "view_artifact_doc \<Rightarrow> string" where
  "view_unit_id v = or_empty (va_database v) @ ''::view::'' @ va_name v"

definition unit_id :: "collection_group \<Rightarrow> string" where
  "unit_id g = or_empty (cg_database g) @ ''::'' @ cg_name g"

definition read_view :: "dump_source \<Rightarrow> artifact \<Rightarrow> view_artifact_doc res" where
  "read_view src a =
     try_res (read_object src (path_new (a_path a)) CodecNone) (\<lambda>b.
     try_res (src_parse src b) (\<lambda>v.
     try_res (ok_or (Config (''view artifact '' @ [CHR 0x27] @ a_path a @ [CHR 0x27]
                 @ '' has no name in the manifest or its definition''))
        (case a_view a of Some n \<Rightarrow> Some n | None \<Rightarrow> Option.bind (jget v ''name'') as_str)) (\<lambda>name.
       Inr \<lparr>va_name = name, va_database = a_database a, va_definition = v\<rparr>)))"

definition read_views :: "dump_source \<Rightarrow> manifest \<Rightarrow> view_artifact_doc list res" where
  "read_views src m = map_res (read_view src) (filter (\<lambda>a. a_kind a = View) (m_artifacts m))"

section \<open>Checkpoints\<close>

definition load_restore_checkpoint ::
  "(bytes \<Rightarrow> json res) \<Rightarrow> 'k checkpoint_config \<Rightarrow> 'k \<Rightarrow> restore_checkpoint option res"
where
  "load_restore_checkpoint parse cc k =
     try_res (store_exists (cc_head cc) (cc_path cc) k) (\<lambda>present.
       if \<not> present then Inr None
       else try_res (cc_get cc (cc_path cc) None k) (\<lambda>cs.
            try_res (read_all cs) (\<lambda>b.
            try_res (from_json parse restore_checkpoint_of_value b) (\<lambda>c. Inr (Some c)))))"

text \<open>A checkpoint that cannot be written is only logged.\<close>

definition persist_restore_checkpoint ::
  "(json \<Rightarrow> bytes res) \<Rightarrow> 'k checkpoint_config \<Rightarrow> restore_checkpoint \<Rightarrow> 'k \<Rightarrow> 'k"
where
  "persist_restore_checkpoint ser cc c k =
     (case ser (restore_checkpoint_to_value c) of
        Inl _ \<Rightarrow> k
      | Inr b \<Rightarrow> snd (cc_put cc (cc_path cc) (once b) k))"

text \<open>\<open>record\<close>.\<close>

definition record_unit ::
  "(json \<Rightarrow> bytes res) \<Rightarrow> 'k restore_options \<Rightarrow> string \<Rightarrow> ('c, 'k, unit) restore_act"
where
  "record_unit ser opts i st =
     (case ro_checkpoint opts of
        None \<Rightarrow> (Inr (), st)
      | Some cc \<Rightarrow>
          (let c = (r_checkpoint st)\<lparr>rc_completed := rc_completed (r_checkpoint st) @ [i]\<rparr>
           in (Inr (), st\<lparr>r_checkpoint := c,
                 r_ckstore := persist_restore_checkpoint ser cc c (r_ckstore st)\<rparr>)))"

definition unit_done :: "'k restore_options \<Rightarrow> ('c, 'k) restore_state \<Rightarrow> string \<Rightarrow> bool" where
  "unit_done opts st i \<longleftrightarrow> ro_checkpoint opts \<noteq> None \<and> checkpoint_contains (r_checkpoint st) i"

section \<open>The phases\<close>

definition unit_database :: "'c restore_client \<Rightarrow> 'k restore_options \<Rightarrow> string option \<Rightarrow> string" where
  "unit_database cl opts db =
     (case db of
        Some d \<Rightarrow> d
      | None \<Rightarrow> (case ro_create_database opts of Some t \<Rightarrow> t | None \<Rightarrow> rt_database cl))"

definition create_collection ::
  "'c restore_client \<Rightarrow> 'k restore_options \<Rightarrow> collection_group \<times> structure_doc \<Rightarrow> ('c, 'k, unit) restore_act"
where
  "create_collection cl opts u st = (let (g, s) = u in
     if unit_done opts st (unit_id g) then (Inr (), st)
     else ask (rt_restore_collection cl (unit_database cl opts (cg_database g)) (st_parameters s) []
                 (ro_overwrite opts)) st)"

definition restore_view ::
  "'c restore_client \<Rightarrow> (error \<Rightarrow> string) \<Rightarrow> 'k restore_options \<Rightarrow> view_artifact_doc \<Rightarrow> ('c, 'k, unit) restore_act"
where
  "restore_view cl show_error opts v =
     (let db = unit_database cl opts (va_database v) in
      act_bind (if ro_overwrite opts then ask (rt_drop_view cl db (va_name v)) else act_return ()) (\<lambda>_ st.
        case ask (rt_create_view cl db (va_definition v)) st of
          (Inr u, st1) \<Rightarrow> (Inr u, st1)
        | (Inl err, st1) \<Rightarrow>
            (Inl (Config (''failed to create view '' @ [CHR 0x27] @ va_name v @ [CHR 0x27] @ '': ''
               @ show_error err @ ''. A view'' @ [CHR 0x27] @ ''s target collections must exist before it is ''
               @ ''created; if the dump was taken with collection filters, the view'' @ [CHR 0x27]
               @ ''s targets may not be in it.'')), st1)))"

text \<open>One view of phase 2 or 4.\<close>

definition view_step ::
  "'c restore_client \<Rightarrow> (error \<Rightarrow> string) \<Rightarrow> (json \<Rightarrow> bytes res) \<Rightarrow> 'k restore_options \<Rightarrow> view_artifact_doc
   \<Rightarrow> ('c, 'k, unit) restore_act"
where
  "view_step cl show_error ser opts v st =
     (if unit_done opts st (view_unit_id v) then (Inr (), st)
      else act_bind (restore_view cl show_error opts v) (\<lambda>_ st1.
             record_unit ser opts (view_unit_id v) (st1\<lparr>r_views := r_views st1 + 1\<rparr>)) st)"

definition implicit_index :: "json \<Rightarrow> bool" where
  "implicit_index i =
     (let k = (case Option.bind (jget i ''type'') as_str of Some s \<Rightarrow> s | None \<Rightarrow> [])
      in k = ''primary'' \<or> k = ''edge'')"

definition load_collection_data ::
  "'c restore_client \<Rightarrow> dump_source \<Rightarrow> manifest \<Rightarrow> string \<Rightarrow> collection_group \<Rightarrow> structure_doc
   \<Rightarrow> ('c, 'k, unit) restore_act"
where
  "load_collection_data cl src m db g s =
     act_bind (act_all (\<lambda>p. act_bind (act_lift (read_data src p m)) (\<lambda>b.
                 ask (rt_restore_data cl db (cg_name g) b))) (cg_data_paths g)) (\<lambda>_.
       act_all (\<lambda>i. if implicit_index i then act_return ()
                     else ask (rt_create_index cl db (cg_name g) i)) (st_indexes s))"

definition data_step ::
  "'c restore_client \<Rightarrow> dump_source \<Rightarrow> (json \<Rightarrow> bytes res) \<Rightarrow> 'k restore_options \<Rightarrow> manifest
   \<Rightarrow> collection_group \<times> structure_doc \<Rightarrow> ('c, 'k, unit) restore_act"
where
  "data_step cl src ser opts m u st = (let (g, s) = u in
     if unit_done opts st (unit_id g) then (Inr (), st\<lparr>r_skipped := r_skipped st + 1\<rparr>)
     else act_bind (load_collection_data cl src m (unit_database cl opts (cg_database g)) g s) (\<lambda>_ st1.
          act_bind (record_unit ser opts (unit_id g)) (\<lambda>_ st2.
            (Inr (), st2\<lparr>r_events := r_events st2 @ [r_restored st2 + r_skipped st2]\<rparr>))
            (st1\<lparr>r_restored := r_restored st1 + 1\<rparr>)) st)"

text \<open>
  \<open>units.sort_by_key\<close>, a stable sort by the pair of the database's index and the edge flag; the
  pair is coded as one number.
\<close>

fun position :: "('a \<Rightarrow> bool) \<Rightarrow> 'a list \<Rightarrow> nat option" where
  "position f [] = None"
| "position f (x # xs) = (if f x then Some 0 else map_option Suc (position f xs))"

definition database_order :: "(collection_group \<times> structure_doc) list \<Rightarrow> string option list" where
  "database_order us =
     foldl (\<lambda>ds u. if cg_database (fst u) \<in> set ds then ds else ds @ [cg_database (fst u)]) [] us"

definition unit_key :: "string option list \<Rightarrow> collection_group \<times> structure_doc \<Rightarrow> nat" where
  "unit_key ds u =
     2 * (case position (\<lambda>d. d = cg_database (fst u)) ds of Some i \<Rightarrow> i | None \<Rightarrow> 0)
       + (if st_is_edge (snd u) then 1 else 0)"

definition order_units ::
  "(collection_group \<times> structure_doc) list \<Rightarrow> (collection_group \<times> structure_doc) list"
where
  "order_units us = sort_key (unit_key (database_order us)) us"

text \<open>The first half of the run: everything read from the dump before the server is asked.\<close>

definition read_dump ::
  "dump_source \<Rightarrow> (manifest \<times> (collection_group \<times> structure_doc) list \<times> view_artifact_doc list) res"
where
  "read_dump src =
     try_res (read_manifest src) (\<lambda>m.
     try_res (validate m) (\<lambda>_.
     try_res (map_res (\<lambda>g. try_res (read_structure src g) (\<lambda>s. Inr (g, s))) (group_by_collection m)) (\<lambda>us.
     try_res (read_views src m) (\<lambda>vs. Inr (m, us, vs)))))"

definition target_databases ::
  "'k restore_options \<Rightarrow> (collection_group \<times> structure_doc) list \<Rightarrow> string list"
where
  "target_databases opts us =
     (if list_ex (\<lambda>u. cg_database (fst u) \<noteq> None) us
      then List.map_filter id (database_order us)
      else (case ro_create_database opts of Some d \<Rightarrow> [d] | None \<Rightarrow> []))"

definition open_checkpoint ::
  "dump_source \<Rightarrow> 'k restore_options \<Rightarrow> string \<Rightarrow> 'k \<Rightarrow> restore_checkpoint res"
where
  "open_checkpoint src opts fp k =
     (case ro_checkpoint opts of
        None \<Rightarrow> Inr (restore_checkpoint_new fp)
      | Some cc \<Rightarrow>
          try_res (load_restore_checkpoint (src_parse src) cc k) (\<lambda>existing.
            case existing of
              None \<Rightarrow> Inr (restore_checkpoint_new fp)
            | Some c \<Rightarrow>
                if rc_manifest c \<noteq> fp
                then Inl (Config (''restore checkpoint does not match this dump (manifest fingerprint ''
                       @ ''mismatch); use a fresh checkpoint path or the dump the checkpoint was created for''))
                else Inr c))"

definition run_phases ::
  "'c restore_client \<Rightarrow> dump_source \<Rightarrow> (error \<Rightarrow> string) \<Rightarrow> (json \<Rightarrow> bytes res) \<Rightarrow> 'k restore_options
   \<Rightarrow> manifest \<Rightarrow> (collection_group \<times> structure_doc) list \<Rightarrow> view_artifact_doc list \<Rightarrow> ('c, 'k, unit) restore_act"
where
  "run_phases cl src show_error ser opts m units vs =
     act_bind (act_all (create_collection cl opts) units) (\<lambda>_.
     act_bind (act_all (view_step cl show_error ser opts) (filter (\<lambda>v. \<not> is_search_alias v) vs)) (\<lambda>_.
     act_bind (act_all (data_step cl src ser opts m) units) (\<lambda>_.
       act_all (view_step cl show_error ser opts) (filter is_search_alias vs))))"

definition run_restore ::
  "'c restore_client \<Rightarrow> dump_source \<Rightarrow> (error \<Rightarrow> string) \<Rightarrow> (json \<Rightarrow> bytes res) \<Rightarrow> 'k restore_options
   \<Rightarrow> ('c, 'k, restore_summary) restore_act"
where
  "run_restore cl src show_error ser opts =
     act_bind (act_lift (read_dump src)) (\<lambda>(m, us, vs).
     act_bind (act_all (\<lambda>d. ask (rt_create_database cl d)) (target_databases opts us)) (\<lambda>_.
     act_bind (\<lambda>st. act_lift (open_checkpoint src opts (fingerprint m) (r_ckstore st)) st) (\<lambda>c.
     act_bind (\<lambda>st. (Inr (), st\<lparr>r_checkpoint := c, r_restored := 0, r_skipped := 0, r_views := 0\<rparr>)) (\<lambda>_.
     act_bind (run_phases cl src show_error ser opts m (order_units us) vs) (\<lambda>_ st.
       (Inr \<lparr>rs_collections = length us, rs_restored = r_restored st, rs_skipped = r_skipped st,
             rs_views = r_views st\<rparr>, st))))))"

section \<open>What a restore asks of the server\<close>

text \<open>A server that logs the calls and fails when it is told to.\<close>

datatype restore_call =
    CreateDatabase string
  | RestoreCollection string json "json list" bool
  | RestoreData string string bytes
  | CreateIndex string string json
  | DropView string string
  | CreateView string json

definition logged ::
  "(restore_call list \<Rightarrow> error option) \<Rightarrow> restore_call \<Rightarrow> restore_call list \<Rightarrow> unit res \<times> restore_call list"
where
  "logged fails c l = ((case fails (l @ [c]) of Some e \<Rightarrow> Inl e | None \<Rightarrow> Inr ()), l @ [c])"

definition log_client :: "string \<Rightarrow> (restore_call list \<Rightarrow> error option) \<Rightarrow> restore_call list restore_client" where
  "log_client own fails =
     \<lparr>rt_database = own,
      rt_create_database = (\<lambda>d. logged fails (CreateDatabase d)),
      rt_restore_collection = (\<lambda>d p is ow. logged fails (RestoreCollection d p is ow)),
      rt_restore_data = (\<lambda>d c b. logged fails (RestoreData d c b)),
      rt_create_index = (\<lambda>d c i. logged fails (CreateIndex d c i)),
      rt_drop_view = (\<lambda>d n. logged fails (DropView d n)),
      rt_create_view = (\<lambda>d v. logged fails (CreateView d v))\<rparr>"

text \<open>The plan of a restore: the calls it makes when none fails.\<close>

definition pending :: "'k restore_options \<Rightarrow> string list \<Rightarrow> string \<Rightarrow> bool" where
  "pending opts D i \<longleftrightarrow> ro_checkpoint opts = None \<or> i \<notin> set D"

definition plan_database :: "string \<Rightarrow> 'k restore_options \<Rightarrow> string option \<Rightarrow> string" where
  "plan_database own opts db =
     (case db of Some d \<Rightarrow> d | None \<Rightarrow> (case ro_create_database opts of Some t \<Rightarrow> t | None \<Rightarrow> own))"

definition create_calls ::
  "string \<Rightarrow> 'k restore_options \<Rightarrow> string list \<Rightarrow> collection_group \<times> structure_doc \<Rightarrow> restore_call list"
where
  "create_calls own opts D u =
     (if pending opts D (unit_id (fst u))
      then [RestoreCollection (plan_database own opts (cg_database (fst u))) (st_parameters (snd u)) []
              (ro_overwrite opts)] else [])"

definition view_calls ::
  "string \<Rightarrow> 'k restore_options \<Rightarrow> string list \<Rightarrow> view_artifact_doc \<Rightarrow> restore_call list"
where
  "view_calls own opts D v = (let db = plan_database own opts (va_database v) in
     if pending opts D (view_unit_id v)
     then (if ro_overwrite opts then [DropView db (va_name v)] else []) @ [CreateView db (va_definition v)]
     else [])"

definition data_calls ::
  "string \<Rightarrow> dump_source \<Rightarrow> manifest \<Rightarrow> 'k restore_options \<Rightarrow> string list \<Rightarrow> collection_group \<times> structure_doc
   \<Rightarrow> restore_call list"
where
  "data_calls own src m opts D u = (let db = plan_database own opts (cg_database (fst u)); n = cg_name (fst u) in
     if pending opts D (unit_id (fst u))
     then map (\<lambda>p. RestoreData db n (case read_data src p m of Inr b \<Rightarrow> b | Inl _ \<Rightarrow> [])) (cg_data_paths (fst u))
          @ map (CreateIndex db n) (filter (\<lambda>i. \<not> implicit_index i) (st_indexes (snd u)))
     else [])"

definition restore_plan ::
  "string \<Rightarrow> dump_source \<Rightarrow> manifest \<Rightarrow> 'k restore_options \<Rightarrow> string list
   \<Rightarrow> (collection_group \<times> structure_doc) list \<Rightarrow> view_artifact_doc list \<Rightarrow> restore_call list"
where
  "restore_plan own src m opts D us vs =
     concat (map (create_calls own opts D) (order_units us))
     @ concat (map (view_calls own opts D) (filter (\<lambda>v. \<not> is_search_alias v) vs))
     @ concat (map (data_calls own src m opts D) (order_units us))
     @ concat (map (view_calls own opts D) (filter is_search_alias vs))"

text \<open>The calls, made one after the other on top of a log, were all answered with success.\<close>

fun all_accepted :: "(restore_call list \<Rightarrow> error option) \<Rightarrow> restore_call list \<Rightarrow> restore_call list \<Rightarrow> bool" where
  "all_accepted fails l [] = True"
| "all_accepted fails l (c # cs) \<longleftrightarrow> fails (l @ [c]) = None \<and> all_accepted fails (l @ [c]) cs"

lemma all_accepted_append [simp]:
  "all_accepted fails l (p @ q) \<longleftrightarrow> all_accepted fails l p \<and> all_accepted fails (l @ p) q"
  by (induction p arbitrary: l) simp_all

lemma all_accepted_butlast: "all_accepted fails l p \<Longrightarrow> all_accepted fails l (butlast p)"
  by (cases p rule: rev_cases) simp_all

text \<open>
  An operation follows a plan: it makes the calls of the plan in order, all of them with success
  if it succeeds and a first part of them if it fails, no call after a refused one, and takes one
  predicate on the state to another.
\<close>

definition follows ::
  "(restore_call list \<Rightarrow> error option) \<Rightarrow> ((restore_call list, 'k) restore_state \<Rightarrow> bool)
   \<Rightarrow> (restore_call list, 'k, 'a) restore_act
   \<Rightarrow> restore_call list \<Rightarrow> ((restore_call list, 'k) restore_state \<Rightarrow> bool) \<Rightarrow> bool"
where
  "follows fails I m plan J \<longleftrightarrow> (\<forall>st r st1. I st \<longrightarrow> m st = (r, st1) \<longrightarrow>
     (\<exists>p. Sublist.prefix p plan \<and> r_server st1 = r_server st @ p
        \<and> all_accepted fails (r_server st) (butlast p)
        \<and> (is_ok r \<longrightarrow> p = plan \<and> all_accepted fails (r_server st) p \<and> J st1)))"

lemma followsI:
  assumes "\<And>st r st1. I st \<Longrightarrow> m st = (r, st1) \<Longrightarrow>
    \<exists>p. Sublist.prefix p plan \<and> r_server st1 = r_server st @ p
      \<and> all_accepted fails (r_server st) (butlast p)
      \<and> (is_ok r \<longrightarrow> p = plan \<and> all_accepted fails (r_server st) p \<and> J st1)"
  shows "follows fails I m plan J"
  using assms by (auto simp: follows_def)

lemma followsD:
  "follows fails I m plan J \<Longrightarrow> I st \<Longrightarrow> m st = (r, st1) \<Longrightarrow>
    \<exists>p. Sublist.prefix p plan \<and> r_server st1 = r_server st @ p
      \<and> all_accepted fails (r_server st) (butlast p)
      \<and> (is_ok r \<longrightarrow> p = plan \<and> all_accepted fails (r_server st) p \<and> J st1)"
  unfolding follows_def by (drule spec [where x = st], drule spec [where x = r], drule spec [where x = st1]) simp

lemma follows_bind:
  assumes "follows fails I m P J" "\<And>x. follows fails J (f x) Q K"
  shows "follows fails I (act_bind m f) (P @ Q) K"
proof (rule followsI)
  fix st r st2
  assume I: "I st" and run: "act_bind m f st = (r, st2)"
  obtain r1 st1 where m: "m st = (r1, st1)" by fastforce
  obtain p where p: "Sublist.prefix p P" "r_server st1 = r_server st @ p" "all_accepted fails (r_server st) (butlast p)"
    "is_ok r1 \<longrightarrow> p = P \<and> all_accepted fails (r_server st) p \<and> J st1"
    using followsD [OF assms(1) I m] by blast
  show "\<exists>p. Sublist.prefix p (P @ Q) \<and> r_server st2 = r_server st @ p
    \<and> all_accepted fails (r_server st) (butlast p)
    \<and> (is_ok r \<longrightarrow> p = P @ Q \<and> all_accepted fails (r_server st) p \<and> K st2)"
  proof (cases r1)
    case (Inl e)
    then have "r = Inl e" "st2 = st1" using run m by (auto simp: act_bind_def)
    moreover have "Sublist.prefix p (P @ Q)" using p(1) by (rule prefix_prefix)
    ultimately show ?thesis using p(2,3) by auto
  next
    case (Inr x)
    then have f: "f x st1 = (r, st2)" using run m by (simp add: act_bind_def)
    have J: "J st1" "p = P" "all_accepted fails (r_server st) p" using p(4) Inr by auto
    obtain q where q: "Sublist.prefix q Q" "r_server st2 = r_server st1 @ q" "all_accepted fails (r_server st1) (butlast q)"
      "is_ok r \<longrightarrow> q = Q \<and> all_accepted fails (r_server st1) q \<and> K st2"
      using followsD [OF assms(2) J(1) f] by blast
    have "all_accepted fails (r_server st) (butlast (p @ q))"
      using q(3) J(3) p(2,3) by (simp add: butlast_append)
    then have "Sublist.prefix (p @ q) (P @ Q)" "r_server st2 = r_server st @ p @ q"
      "all_accepted fails (r_server st) (butlast (p @ q))"
      "is_ok r \<longrightarrow> p @ q = P @ Q \<and> all_accepted fails (r_server st) (p @ q) \<and> K st2"
      using p(2) q J by (auto simp: same_prefix_prefix)
    then show ?thesis by blast
  qed
qed

lemma follows_all:
  assumes "\<And>ys x zs. xs = ys @ x # zs \<Longrightarrow> follows fails (J ys) (f x) (P x) (J (ys @ [x]))"
  shows "follows fails (J []) (act_all f xs) (concat (map P xs)) (J xs)"
proof -
  have "follows fails (J ys) (act_all f zs) (concat (map P zs)) (J xs)" if "xs = ys @ zs" for ys zs
    using that
  proof (induction zs arbitrary: ys)
    case Nil
    then show ?case by (auto intro!: followsI)
  next
    case (Cons z zs)
    have "follows fails (J (ys @ [z])) (act_all f zs) (concat (map P zs)) (J xs)"
      using Cons.IH [of "ys @ [z]"] Cons.prems by simp
    then show ?case using follows_bind [OF assms [OF Cons.prems], of "\<lambda>_. act_all f zs"] by simp
  qed
  from this [of "[]" xs] show ?thesis by simp
qed

lemma follows_ask:
  assumes "\<And>st l. J st \<Longrightarrow> J (st\<lparr>r_server := l\<rparr>)"
  shows "follows fails J (ask (logged fails c)) [c] J"
  using assms
  by (auto intro!: followsI simp: ask_def logged_def Let_def split: option.splits)

lemma follows_nothing: "follows fails J (act_return x) [] J"
  by (auto intro!: followsI)

lemma follows_lift: "follows fails J (act_lift r) [] J"
  by (auto intro!: followsI)

lemma follows_case:
  assumes "\<And>st. I st \<Longrightarrow> b st = c" "c \<Longrightarrow> follows fails I m P J" "\<not> c \<Longrightarrow> follows fails I n P J"
  shows "follows fails I (\<lambda>st. if b st then m st else n st) P J"
proof (rule followsI)
  fix st r st1
  assume "I st" "(if b st then m st else n st) = (r, st1)"
  then show "\<exists>p. Sublist.prefix p P \<and> r_server st1 = r_server st @ p \<and> all_accepted fails (r_server st) (butlast p)
    \<and> (is_ok r \<longrightarrow> p = P \<and> all_accepted fails (r_server st) p \<and> J st1)"
    using assms unfolding follows_def by (cases c) auto
qed

lemma follows_pure:
  "(\<And>st. I st \<Longrightarrow> J (g st)) \<Longrightarrow> (\<And>st. r_server (g st) = r_server st) \<Longrightarrow> follows fails I (\<lambda>st. (Inr x, g st)) [] J"
  by (auto intro!: followsI)

text \<open>What is recorded: the units found in the checkpoint, then the pending ones done since.\<close>

definition marked ::
  "'k restore_options \<Rightarrow> string list \<Rightarrow> string list \<Rightarrow> ('c, 'k) restore_state \<Rightarrow> bool"
where
  "marked opts D ids st \<longleftrightarrow> rc_completed (r_checkpoint st) =
     D @ (if ro_checkpoint opts = None then [] else filter (pending opts D) ids)"

lemma unit_done_marked:
  "marked opts D ids st \<Longrightarrow> ro_checkpoint opts = None \<or> i \<notin> set ids \<Longrightarrow> unit_done opts st i \<longleftrightarrow> \<not> pending opts D i"
  by (auto simp: marked_def unit_done_def pending_def checkpoint_contains_def)

lemma marked_server [simp]: "marked opts D ids (st\<lparr>r_server := l\<rparr>) = marked opts D ids st"
  by (simp add: marked_def)

lemma log_client [simp]:
  "unit_database (log_client own fails) opts db = plan_database own opts db"
  "rt_create_database (log_client own fails) d = logged fails (CreateDatabase d)"
  "rt_restore_collection (log_client own fails) d p is ow = logged fails (RestoreCollection d p is ow)"
  "rt_restore_data (log_client own fails) d c b = logged fails (RestoreData d c b)"
  "rt_create_index (log_client own fails) d c i = logged fails (CreateIndex d c i)"
  "rt_drop_view (log_client own fails) d n = logged fails (DropView d n)"
  "rt_create_view (log_client own fails) d v = logged fails (CreateView d v)"
  by (simp_all add: log_client_def unit_database_def plan_database_def split: option.splits)

lemma follows_logged: "follows fails (marked opts D ids) (ask (logged fails c)) [c] (marked opts D ids)"
  by (rule follows_ask) simp

lemma follows_record:
  assumes "pending opts D i"
  shows "follows fails (marked opts D ids) (record_unit ser opts i) [] (marked opts D (ids @ [i]))"
  using assms
  by (auto intro!: followsI simp: record_unit_def marked_def Let_def split: option.splits)

lemma follows_create:
  "follows fails (marked opts D []) (create_collection (log_client own fails) opts u) (create_calls own opts D u)
     (marked opts D [])"
proof -
  obtain g s where u: "u = (g, s)" by fastforce
  have "follows fails (marked opts D []) (\<lambda>st. if unit_done opts st (unit_id g) then (Inr (), st)
      else ask (logged fails (RestoreCollection (plan_database own opts (cg_database g)) (st_parameters s) []
        (ro_overwrite opts))) st) (create_calls own opts D u) (marked opts D [])"
    by (rule follows_case [where c = "\<not> pending opts D (unit_id g)"])
      (auto simp: unit_done_marked create_calls_def u intro: follows_logged follows_pure)
  then show ?thesis by (simp add: u create_collection_def [abs_def] cong: if_cong)
qed

lemma follows_skip:
  assumes "ro_checkpoint opts = None \<or> i \<notin> set ids" "pending opts D i \<Longrightarrow> follows fails (marked opts D ids) m P (marked opts D (ids @ [i]))"
    and "\<And>st. rc_completed (r_checkpoint (g st)) = rc_completed (r_checkpoint st)"
      "\<And>st. r_server (g st) = r_server st"
  shows "follows fails (marked opts D ids) (\<lambda>st. if unit_done opts st i then (Inr (), g st) else m st)
    (if pending opts D i then P else []) (marked opts D (ids @ [i]))"
proof (rule follows_case [where c = "\<not> pending opts D i"])
  show "unit_done opts st i = (\<not> pending opts D i)" if "marked opts D ids st" for st
    using unit_done_marked [OF that assms(1)] .
  show "follows fails (marked opts D ids) (\<lambda>st. (Inr (), g st)) (if pending opts D i then P else [])
    (marked opts D (ids @ [i]))" if "\<not> pending opts D i"
    using that assms(3,4) by (auto intro: follows_pure simp: marked_def)
  show "follows fails (marked opts D ids) m (if pending opts D i then P else []) (marked opts D (ids @ [i]))"
    if "\<not> \<not> pending opts D i"
    using that assms(2) by simp
qed

lemma follows_update:
  assumes "follows fails J m P K" "\<And>st. I st \<Longrightarrow> J (g st)" "\<And>st. r_server (g st) = r_server st"
  shows "follows fails I (\<lambda>st. m (g st)) P K"
  using assms unfolding follows_def by metis

lemma follows_restore_view:
  "follows fails (marked opts D ids) (restore_view (log_client own fails) show_error opts v)
     ((if ro_overwrite opts then [DropView (plan_database own opts (va_database v)) (va_name v)] else [])
      @ [CreateView (plan_database own opts (va_database v)) (va_definition v)]) (marked opts D ids)"
proof -
  let ?create = "CreateView (plan_database own opts (va_database v)) (va_definition v)"
  have create: "follows fails (marked opts D ids) (\<lambda>st. case ask (logged fails ?create) st of
          (Inr u, st1) \<Rightarrow> (Inr u, st1)
        | (Inl err, st1) \<Rightarrow> (Inl (e err), st1)) [?create] (marked opts D ids)" for e :: "error \<Rightarrow> error"
    by (auto intro!: followsI simp: ask_def logged_def Let_def split: option.splits)
  show ?thesis
    unfolding restore_view_def Let_def log_client
    by (rule follows_bind [OF _ create]) (auto intro: follows_logged follows_nothing)
qed

lemma follows_view_step:
  assumes "ro_checkpoint opts = None \<or> view_unit_id v \<notin> set ids"
  shows "follows fails (marked opts D ids) (view_step (log_client own fails) show_error ser opts v)
    (view_calls own opts D v) (marked opts D (ids @ [view_unit_id v]))"
proof -
  let ?P = "(if ro_overwrite opts then [DropView (plan_database own opts (va_database v)) (va_name v)] else [])
      @ [CreateView (plan_database own opts (va_database v)) (va_definition v)]"
  have note_view: "follows fails (marked opts D ids)
      (\<lambda>st1. record_unit ser opts (view_unit_id v) (st1\<lparr>r_views := r_views st1 + 1\<rparr>)) []
      (marked opts D (ids @ [view_unit_id v]))" if "pending opts D (view_unit_id v)"
    by (rule follows_update [OF follows_record [OF that]]) (simp_all add: marked_def)
  have "follows fails (marked opts D ids) (\<lambda>st. if unit_done opts st (view_unit_id v) then (Inr (), st)
      else act_bind (restore_view (log_client own fails) show_error opts v)
        (\<lambda>_ st1. record_unit ser opts (view_unit_id v) (st1\<lparr>r_views := r_views st1 + 1\<rparr>)) st)
      (if pending opts D (view_unit_id v) then ?P @ [] else []) (marked opts D (ids @ [view_unit_id v]))"
    by (rule follows_skip [OF assms follows_bind [OF follows_restore_view note_view]]) simp_all
  then show ?thesis by (simp add: view_step_def [abs_def] view_calls_def Let_def cong: if_cong)
qed

lemma follows_load:
  "follows fails (marked opts D ids) (load_collection_data (log_client own fails) src m db g s)
     (map (\<lambda>p. RestoreData db (cg_name g) (case read_data src p m of Inr b \<Rightarrow> b | Inl _ \<Rightarrow> [])) (cg_data_paths g)
      @ map (CreateIndex db (cg_name g)) (filter (\<lambda>i. \<not> implicit_index i) (st_indexes s)))
     (marked opts D ids)"
proof -
  let ?I = "marked opts D ids"
  let ?P = "\<lambda>p. RestoreData db (cg_name g) (case read_data src p m of Inr b \<Rightarrow> b | Inl _ \<Rightarrow> [])"
  let ?Q = "\<lambda>i. if implicit_index i then [] else [CreateIndex db (cg_name g) i]"
  have data: "follows fails ?I (act_bind (act_lift (read_data src p m)) (\<lambda>b.
      ask (rt_restore_data (log_client own fails) db (cg_name g) b))) [?P p] ?I" for p
  proof (cases "read_data src p m")
    case (Inl e)
    then show ?thesis by (auto intro!: followsI simp: act_bind_def)
  next
    case (Inr b)
    have "act_bind (act_lift (Inr b)) f = f b" for f :: "bytes \<Rightarrow> (restore_call list, 'a, unit) restore_act"
      by (simp add: act_bind_def fun_eq_iff)
    then show ?thesis using Inr by (simp add: follows_logged)
  qed
  have index: "follows fails ?I (if implicit_index i then act_return ()
      else ask (rt_create_index (log_client own fails) db (cg_name g) i)) (?Q i) ?I" for i
    by (simp add: follows_logged follows_nothing)
  have "concat (map ?Q is) = map (CreateIndex db (cg_name g)) (filter (\<lambda>i. \<not> implicit_index i) is)" for "is"
    by (induction "is") simp_all
  moreover have "concat (map (\<lambda>p. [?P p]) ps) = map ?P ps" for ps by (induction ps) simp_all
  moreover note follows_bind [OF follows_all [where xs = "cg_data_paths g" and J = "\<lambda>_. ?I"
          and P = "\<lambda>p. [?P p]", OF data]
      follows_all [where xs = "st_indexes s" and J = "\<lambda>_. ?I" and P = ?Q, OF index]]
  ultimately show ?thesis unfolding load_collection_data_def by simp
qed

lemma follows_data_step:
  assumes "ro_checkpoint opts = None \<or> unit_id (fst u) \<notin> set ids"
  shows "follows fails (marked opts D ids) (data_step (log_client own fails) src ser opts m u)
    (data_calls own src m opts D u) (marked opts D (ids @ [unit_id (fst u)]))"
proof -
  obtain g s where u: "u = (g, s)" by fastforce
  let ?J = "marked opts D (ids @ [unit_id g])"
  let ?db = "plan_database own opts (cg_database g)"
  let ?P = "map (\<lambda>p. RestoreData ?db (cg_name g) (case read_data src p m of Inr b \<Rightarrow> b | Inl _ \<Rightarrow> []))
        (cg_data_paths g)
      @ map (CreateIndex ?db (cg_name g)) (filter (\<lambda>i. \<not> implicit_index i) (st_indexes s))"
  have emit: "follows fails ?J (\<lambda>st2. (Inr (), st2\<lparr>r_events := r_events st2 @ [r_restored st2 + r_skipped st2]\<rparr>)) [] ?J"
    by (rule follows_pure) (simp_all add: marked_def)
  have note_unit: "follows fails (marked opts D ids) (\<lambda>st1. act_bind (record_unit ser opts (unit_id g))
      (\<lambda>_ st2. (Inr (), st2\<lparr>r_events := r_events st2 @ [r_restored st2 + r_skipped st2]\<rparr>))
      (st1\<lparr>r_restored := r_restored st1 + 1\<rparr>)) ([] @ []) ?J" if "pending opts D (unit_id g)"
    by (rule follows_update [OF follows_bind [OF follows_record [OF that] emit]]) (simp_all add: marked_def)
  have "follows fails (marked opts D ids) (\<lambda>st. if unit_done opts st (unit_id g)
      then (Inr (), st\<lparr>r_skipped := r_skipped st + 1\<rparr>)
      else act_bind (load_collection_data (log_client own fails) src m (plan_database own opts (cg_database g)) g s)
        (\<lambda>_ st1. act_bind (record_unit ser opts (unit_id g))
          (\<lambda>_ st2. (Inr (), st2\<lparr>r_events := r_events st2 @ [r_restored st2 + r_skipped st2]\<rparr>))
          (st1\<lparr>r_restored := r_restored st1 + 1\<rparr>)) st)
      (if pending opts D (unit_id g) then ?P @ [] @ [] else []) ?J"
    by (rule follows_skip [OF _ follows_bind [OF follows_load note_unit]]) (use assms u in simp_all)
  then show ?thesis by (simp add: u data_step_def [abs_def] data_calls_def Let_def cong: if_cong)
qed

definition unit_ids ::
  "(collection_group \<times> structure_doc) list \<Rightarrow> view_artifact_doc list \<Rightarrow> string list"
where
  "unit_ids us vs = map (\<lambda>u. unit_id (fst u)) us @ map view_unit_id vs"

lemma follows_views:
  assumes "ro_checkpoint opts = None \<or> distinct (ids @ map view_unit_id vs)"
  shows "follows fails (marked opts D ids) (act_all (view_step (log_client own fails) show_error ser opts) vs)
    (concat (map (view_calls own opts D) vs)) (marked opts D (ids @ map view_unit_id vs))"
proof -
  have "follows fails (marked opts D (ids @ map view_unit_id ys)) (view_step (log_client own fails) show_error ser opts v)
    (view_calls own opts D v) (marked opts D (ids @ map view_unit_id (ys @ [v])))" if "vs = ys @ v # zs" for ys v zs
    using follows_view_step [of opts v "ids @ map view_unit_id ys"] assms that by (cases "ro_checkpoint opts") simp_all
  from follows_all [where J = "\<lambda>ys. marked opts D (ids @ map view_unit_id ys)", OF this] show ?thesis by simp
qed

lemma follows_units:
  assumes "ro_checkpoint opts = None \<or> distinct (ids @ map (\<lambda>u. unit_id (fst u)) us)"
  shows "follows fails (marked opts D ids) (act_all (data_step (log_client own fails) src ser opts m) us)
    (concat (map (data_calls own src m opts D) us)) (marked opts D (ids @ map (\<lambda>u. unit_id (fst u)) us))"
proof -
  let ?ids = "map (\<lambda>u. unit_id (fst u))"
  have "follows fails (marked opts D (ids @ ?ids ys)) (data_step (log_client own fails) src ser opts m u)
    (data_calls own src m opts D u) (marked opts D (ids @ ?ids (ys @ [u])))" if "us = ys @ u # zs" for ys u zs
    using follows_data_step [of opts u "ids @ ?ids ys"] assms that by (cases "ro_checkpoint opts") simp_all
  from follows_all [where J = "\<lambda>ys. marked opts D (ids @ ?ids ys)", OF this] show ?thesis by simp
qed

lemma order_units_set: "set (order_units us) = set us" "mset (order_units us) = mset us"
  by (simp_all add: order_units_def)

lemma follows_creates:
  "follows fails (marked opts D []) (act_all (create_collection (log_client own fails) opts) us)
     (concat (map (create_calls own opts D) us)) (marked opts D [])"
  using follows_all [where J = "\<lambda>_. marked opts D []", OF follows_create] .

lemma act_bind_lift: "act_bind (act_lift (Inr x)) f = f x"
  by (simp add: act_bind_def fun_eq_iff)

lemma act_bind_after: "act_bind m f st = (r, st2) \<Longrightarrow> m st = (Inr x, st1) \<Longrightarrow> f x st1 = (r, st2)"
  by (simp add: act_bind_def)

lemma follows_phases:
  assumes "ro_checkpoint opts = None \<or> distinct (unit_ids us vs)"
  shows "follows fails (marked opts D []) (run_phases (log_client own fails) src show_error ser opts m (order_units us) vs)
    (restore_plan own src m opts D us vs)
    (\<lambda>st. ro_checkpoint opts \<noteq> None \<longrightarrow> set (unit_ids us vs) \<subseteq> set (rc_completed (r_checkpoint st)))"
proof -
  let ?us = "order_units us" and ?early = "filter (\<lambda>v. \<not> is_search_alias v) vs" and ?late = "filter is_search_alias vs"
  let ?ids = "map view_unit_id ?early @ map (\<lambda>u. unit_id (fst u)) ?us @ map view_unit_id ?late"
  have "mset (map view_unit_id ?early) + mset (map view_unit_id ?late) = mset (map view_unit_id vs)"
    by (induction vs) simp_all
  then have ids: "mset ?ids = mset (unit_ids us vs)"
    by (simp add: unit_ids_def order_units_def) 

  then have ok: "ro_checkpoint opts = None \<or> distinct ?ids" using assms by (metis mset_eq_imp_distinct_iff)
  then have steps: "follows fails (marked opts D []) (run_phases (log_client own fails) src show_error ser opts m ?us vs)
      (restore_plan own src m opts D us vs) (marked opts D ?ids)"
    unfolding run_phases_def restore_plan_def
    by (intro follows_bind [OF follows_creates] follows_bind [OF follows_views [of opts "[]", unfolded append_Nil]]
        follows_bind [OF follows_units] follows_views [of opts "map view_unit_id ?early @ map (\<lambda>u. unit_id (fst u)) ?us" ?late,
          unfolded append_assoc])
      auto
  have "set (unit_ids us vs) \<subseteq> set (rc_completed (r_checkpoint st))"
    if "marked opts D ?ids st" "ro_checkpoint opts \<noteq> None" for st :: "(restore_call list, 'a) restore_state"
  proof -
    have "set ?ids = set (unit_ids us vs)" using ids by (metis set_mset_mset)
    then show ?thesis using that by (auto simp: marked_def pending_def)
  qed
  then show ?thesis using steps unfolding follows_def by meson
qed

lemma follows_databases:
  "follows fails (\<lambda>st. r_ckstore st = k) (act_all (\<lambda>d. ask (rt_create_database (log_client own fails) d)) ds)
    (map CreateDatabase ds) (\<lambda>st. r_ckstore st = k)"
proof -
  have "concat (map (\<lambda>d. [CreateDatabase d]) ds) = map CreateDatabase ds" by (induction ds) simp_all
  moreover have "follows fails (\<lambda>st. r_ckstore st = k) (ask (logged fails c)) [c] (\<lambda>st. r_ckstore st = k)" for c
    by (rule follows_ask) simp
  ultimately show ?thesis
    using follows_all [where J = "\<lambda>_ st. r_ckstore st = k" and P = "\<lambda>d. [CreateDatabase d]" and xs = ds
        and f = "\<lambda>d. ask (rt_create_database (log_client own fails) d)"] by simp
qed

lemma follows_cong:
  assumes "\<And>st. I st \<Longrightarrow> m st = n st" "follows fails I n P J"
  shows "follows fails I m P J"
  using assms unfolding follows_def by auto

text \<open>The whole run, from a readable dump and a checkpoint that fits it.\<close>

lemma follows_restore:
  assumes "read_dump src = Inr (m, us, vs)" "open_checkpoint src opts (fingerprint m) k = Inr c"
    and "ro_checkpoint opts = None \<or> distinct (unit_ids us vs)"
  shows "follows fails (\<lambda>st. r_ckstore st = k) (run_restore (log_client own fails) src show_error ser opts)
    (map CreateDatabase (target_databases opts us) @ restore_plan own src m opts (rc_completed c) us vs)
    (\<lambda>st. ro_checkpoint opts \<noteq> None \<longrightarrow> set (unit_ids us vs) \<subseteq> set (rc_completed (r_checkpoint st)))"
proof -
  let ?plan = "restore_plan own src m opts (rc_completed c) us vs"
  let ?recorded = "\<lambda>st. ro_checkpoint opts \<noteq> None \<longrightarrow> set (unit_ids us vs) \<subseteq> set (rc_completed (r_checkpoint st))"
  let ?phases = "act_bind (run_phases (log_client own fails) src show_error ser opts m (order_units us) vs)
    (\<lambda>_ st. (Inr \<lparr>rs_collections = length us, rs_restored = r_restored st, rs_skipped = r_skipped st,
             rs_views = r_views st\<rparr>, st))"
  let ?start = "\<lambda>c st. st\<lparr>r_checkpoint := c, r_restored := 0, r_skipped := 0, r_views := 0\<rparr>"
  let ?tail = "act_bind (\<lambda>st. act_lift (open_checkpoint src opts (fingerprint m) (r_ckstore st)) st) (\<lambda>c.
       act_bind (\<lambda>st. (Inr (), ?start c st)) (\<lambda>_. ?phases))"
  have "follows fails (marked opts (rc_completed c) []) ?phases (?plan @ []) ?recorded"
    by (rule follows_bind [OF follows_phases [OF assms(3)]]) (auto intro!: followsI)
  then have "follows fails (marked opts (rc_completed c) []) ?phases ?plan ?recorded" by simp
  then have "follows fails (\<lambda>st. r_ckstore st = k) (\<lambda>st. ?phases (?start c st)) ?plan ?recorded"
    by (rule follows_update)
      (simp_all add: marked_def)
  then have "follows fails (\<lambda>st. r_ckstore st = k) ?tail ?plan ?recorded"
    by (rule follows_cong [rotated]) (simp add: act_bind_def assms(2))
  then have "follows fails (\<lambda>st. r_ckstore st = k)
      (act_bind (act_all (\<lambda>d. ask (rt_create_database (log_client own fails) d)) (target_databases opts us)) (\<lambda>_. ?tail))
      (map CreateDatabase (target_databases opts us) @ ?plan) ?recorded"
    by (rule follows_bind [OF follows_databases])
  then show ?thesis
    unfolding run_restore_def assms(1) act_bind_lift prod.case .
qed

section \<open>What the checkpoint vouches for\<close>

text \<open>
  What each unit asks for, in blocks of calls that follow each other: a collection is created,
  then, later, loaded and indexed; a view is created, after it was dropped where that is wanted.
\<close>

definition duties ::
  "string \<Rightarrow> dump_source \<Rightarrow> manifest \<Rightarrow> 'k restore_options \<Rightarrow> string list
   \<Rightarrow> (collection_group \<times> structure_doc) list \<Rightarrow> view_artifact_doc list \<Rightarrow> (string \<times> restore_call list list) list"
where
  "duties own src m opts D us vs =
     map (\<lambda>u. (unit_id (fst u), [create_calls own opts D u, data_calls own src m opts D u])) us
     @ map (\<lambda>v. (view_unit_id v, [view_calls own opts D v])) vs"

text \<open>The calls are in the log one after the other, and the server answered each with success.\<close>

definition granted :: "(restore_call list \<Rightarrow> error option) \<Rightarrow> restore_call list \<Rightarrow> restore_call list \<Rightarrow> bool" where
  "granted fails l calls \<longleftrightarrow> (\<exists>before after. l = before @ calls @ after \<and> all_accepted fails before calls)"

lemma granted_more: "granted fails l calls \<Longrightarrow> granted fails (l @ l1) calls"
  unfolding granted_def by (metis append_assoc)

lemma granted_concat:
  assumes "all_accepted fails l (concat (map f xs))" "x \<in> set xs"
  shows "granted fails (l @ concat (map f xs)) (f x)"
proof -
  obtain ys zs where "xs = ys @ x # zs" using split_list [OF assms(2)] by blast
  then show ?thesis using assms(1) unfolding granted_def
    by (intro exI [of _ "l @ concat (map f ys)"] exI [of _ "concat (map f zs)"]) simp
qed

definition justified ::
  "(restore_call list \<Rightarrow> error option) \<Rightarrow> restore_call list list \<Rightarrow> (string \<times> restore_call list list) list
   \<Rightarrow> string list \<Rightarrow> (restore_call list, 'k) restore_state \<Rightarrow> bool"
where
  "justified fails pre du D st \<longleftrightarrow> set D \<subseteq> set (rc_completed (r_checkpoint st))
     \<and> (\<forall>calls \<in> set pre. granted fails (r_server st) calls)
     \<and> (\<forall>i \<in> set (rc_completed (r_checkpoint st)). i \<in> set D
          \<or> (\<exists>blocks. (i, blocks) \<in> set du \<and> (\<forall>calls \<in> set blocks. granted fails (r_server st) calls)))"

lemma justified_more:
  assumes "justified fails pre du D st" "r_server st1 = r_server st @ l" "r_checkpoint st1 = r_checkpoint st"
  shows "justified fails pre du D st1"
proof -
  have "granted fails (r_server st1) calls" if "granted fails (r_server st) calls" for calls
    using granted_more [OF that] assms(2) by simp
  then show ?thesis using assms(1,3) unfolding justified_def by metis
qed

lemma justified_ask [act_intros]: "act_keeps (justified fails pre du D) (ask (logged fails c))"
  by (auto simp: act_keeps_def ask_def logged_def intro: justified_more)

lemma justified_pending:
  "justified fails pre du D st \<Longrightarrow> \<not> unit_done opts st i \<Longrightarrow> pending opts D i"
  by (auto simp: justified_def unit_done_def pending_def)

lemma justified_record:
  assumes "justified fails pre du D st" "(i, blocks) \<in> set du" "\<forall>calls \<in> set blocks. granted fails (r_server st) calls"
    and "record_unit ser opts i st = (r, st1)"
  shows "justified fails pre du D st1"
  using assms by (auto simp: justified_def record_unit_def Let_def split: option.splits; blast)

text \<open>An operation that does its calls and then records its unit.\<close>

lemma justified_step:
  assumes "(i, blocks) \<in> set du" "act_keeps (justified fails pre du D) m"
    and "\<And>st st1. justified fails pre du D st \<Longrightarrow> \<not> unit_done opts st i \<Longrightarrow> m st = (Inr (), st1) \<Longrightarrow>
      \<forall>calls \<in> set blocks. granted fails (r_server st1) calls"
    and "\<And>st. r_server (g st) = r_server st \<and> r_checkpoint (g st) = r_checkpoint st"
    and "\<And>st. r_server (h st) = r_server st \<and> r_checkpoint (h st) = r_checkpoint st"
    and "act_keeps (justified fails pre du D) n"
  shows "act_keeps (justified fails pre du D) (\<lambda>st. if unit_done opts st i then (Inr (), h st)
    else act_bind m (\<lambda>_ st1. act_bind (record_unit ser opts i) (\<lambda>_. n) (g st1)) st)"
proof -
  have same: "justified fails pre du D (f st) = justified fails pre du D st"
    if "\<And>st. r_server (f st) = r_server st \<and> r_checkpoint (f st) = r_checkpoint st"
    for f :: "(restore_call list, 'a) restore_state \<Rightarrow> _" and st
    using that by (simp add: justified_def)
  show ?thesis unfolding act_keeps_def
  proof (intro allI impI)
    fix st r st2
    assume J: "justified fails pre du D st" and run: "(if unit_done opts st i then (Inr (), h st)
      else act_bind m (\<lambda>_ st1. act_bind (record_unit ser opts i) (\<lambda>_. n) (g st1)) st) = (r, st2)"
    show "justified fails pre du D st2"
    proof (cases "unit_done opts st i")
      case True
      then show ?thesis using J run same [OF assms(5)] by auto
    next
      case False
      obtain r1 st1 where m: "m st = (r1, st1)" by fastforce
      have J1: "justified fails pre du D st1" using act_keepsD [OF assms(2) J m] .
      show ?thesis
      proof (cases r1)
        case (Inl e)
        then show ?thesis using J1 m run False by (simp add: act_bind_def)
      next
        case (Inr x)
        have "\<forall>calls \<in> set blocks. granted fails (r_server (g st1)) calls" using assms(3) [OF J False] m Inr assms(4) by simp
        moreover obtain r3 st3 where rec: "record_unit ser opts i (g st1) = (r3, st3)" by fastforce
        ultimately have J3: "justified fails pre du D st3"
          using justified_record [OF _ assms(1) _ rec] J1 same [OF assms(4)] by blast
        have "r3 = Inr ()" using rec by (auto simp: record_unit_def Let_def split: option.splits)
        then have "n st3 = (r, st2)" using run False m Inr rec by (simp add: act_bind_def)
        then show ?thesis using act_keepsD [OF assms(6) J3] by blast
      qed
    qed
  qed
qed

lemma follows_granted:
  assumes "follows fails I m plan J" "I st" "m st = (Inr x, st1)"
  shows "granted fails (r_server st1) plan"
  using followsD [OF assms] unfolding granted_def by (intro exI [of _ "r_server st"] exI [of _ "[]"]) auto

lemma marked_here: "marked opts (rc_completed (r_checkpoint st)) [] st"
  by (simp add: marked_def)

lemma justified_data_step:
  assumes "(unit_id (fst u), [create_calls own opts D u, data_calls own src m opts D u]) \<in> set du"
    and "create_calls own opts D u \<in> set pre"
  shows "act_keeps (justified fails pre du D) (data_step (log_client own fails) src ser opts m u)"
proof -
  obtain g s where u: "u = (g, s)" by fastforce
  let ?load = "load_collection_data (log_client own fails) src m (plan_database own opts (cg_database g)) g s"
  have "act_keeps (justified fails pre du D) (\<lambda>st. if unit_done opts st (unit_id g)
      then (Inr (), st\<lparr>r_skipped := r_skipped st + 1\<rparr>)
      else act_bind ?load (\<lambda>_ st1. act_bind (record_unit ser opts (unit_id g))
        (\<lambda>_ st2. (Inr (), st2\<lparr>r_events := r_events st2 @ [r_restored st2 + r_skipped st2]\<rparr>))
        (st1\<lparr>r_restored := r_restored st1 + 1\<rparr>)) st)"
  proof (rule justified_step [OF assms(1) [unfolded u fst_conv]])
    show keep: "act_keeps (justified fails pre du D) ?load"
      unfolding load_collection_data_def by (auto intro!: act_intros)
    show "act_keeps (justified fails pre du D) (\<lambda>st2. (Inr (), st2\<lparr>r_events := r_events st2 @ [r_restored st2 + r_skipped st2]\<rparr>))"
      by (simp add: act_keeps_def justified_def)
    show "\<forall>calls \<in> set [create_calls own opts D (g, s), data_calls own src m opts D (g, s)]. granted fails (r_server st1) calls"
      if "justified fails pre du D st" "\<not> unit_done opts st (unit_id g)" "?load st = (Inr (), st1)" for st st1
    proof -
      have "granted fails (r_server st1) (data_calls own src m opts D (g, s))"
        using follows_granted [OF follows_load marked_here that(3)] justified_pending [OF that(1,2)]
        by (simp add: data_calls_def Let_def)
      moreover have "justified fails pre du D st1" using act_keepsD [OF keep that(1,3)] .
      then have "granted fails (r_server st1) (create_calls own opts D (g, s))"
        using assms(2) u by (simp add: justified_def)
      ultimately show ?thesis by simp
    qed
  qed simp_all
  then show ?thesis by (simp add: u data_step_def [abs_def] cong: if_cong)
qed

lemma record_unit_return: "act_bind (record_unit ser opts i) act_return = record_unit ser opts i"
  by (auto simp: act_bind_def record_unit_def fun_eq_iff Let_def split: option.splits)

lemma justified_view_step:
  assumes "(view_unit_id v, [view_calls own opts D v]) \<in> set du"
  shows "act_keeps (justified fails pre du D) (view_step (log_client own fails) show_error ser opts v)"
proof -
  let ?view = "restore_view (log_client own fails) show_error opts v"
  have "act_keeps (justified fails pre du D) (\<lambda>st. if unit_done opts st (view_unit_id v) then (Inr (), st)
      else act_bind ?view (\<lambda>_ st1. act_bind (record_unit ser opts (view_unit_id v)) (\<lambda>_. act_return ())
        (st1\<lparr>r_views := r_views st1 + 1\<rparr>)) st)"
  proof (rule justified_step [OF assms, where h = "\<lambda>st. st"])
    have "act_keeps (justified fails pre du D) (\<lambda>st. case ask (logged fails c) st of
        (Inr u, st1) \<Rightarrow> (Inr u, st1) | (Inl err, st1) \<Rightarrow> (Inl (e err), st1))" for c and e :: "error \<Rightarrow> error"
      by (auto simp: act_keeps_def ask_def logged_def intro: justified_more split: option.splits)
    then show "act_keeps (justified fails pre du D) ?view"
      unfolding restore_view_def Let_def by (auto intro!: act_intros)
    show "\<forall>calls \<in> set [view_calls own opts D v]. granted fails (r_server st1) calls"
      if "justified fails pre du D st" "\<not> unit_done opts st (view_unit_id v)" "?view st = (Inr (), st1)" for st st1
      using follows_granted [OF follows_restore_view marked_here that(3)] justified_pending [OF that(1,2)]
      by (simp add: view_calls_def Let_def)
  qed (simp_all add: act_intros)
  then show ?thesis by (simp add: view_step_def [abs_def] record_unit_return cong: if_cong)
qed

lemma justified_create: "act_keeps (justified fails pre du D) (create_collection (log_client own fails) opts u)"
proof -
  have "act_keeps (justified fails pre du D) (\<lambda>st. if unit_done opts st i then (Inr (), st) else ask (logged fails c) st)" for i c
    using act_keepsD [OF justified_ask] by (auto simp: act_keeps_def)
  then show ?thesis by (simp add: create_collection_def [abs_def] case_prod_beta cong: if_cong)
qed

lemma justified_phases:
  assumes "justified fails [] (duties own src m opts D us vs) D st" "rc_completed (r_checkpoint st) = D"
    and "run_phases (log_client own fails) src show_error ser opts m (order_units us) vs st = (r, st')"
  shows "justified fails [] (duties own src m opts D us vs) D st'"
proof -
  let ?du = "duties own src m opts D us vs" and ?pre = "map (create_calls own opts D) (order_units us)"
  let ?create = "act_all (create_collection (log_client own fails) opts) (order_units us)"
  let ?views = "\<lambda>f. act_all (view_step (log_client own fails) show_error ser opts) (filter f vs)"
  let ?rest = "act_bind (?views (\<lambda>v. \<not> is_search_alias v)) (\<lambda>_.
     act_bind (act_all (data_step (log_client own fails) src ser opts m) (order_units us)) (\<lambda>_. ?views is_search_alias))"
  obtain r1 st1 where create: "?create st = (r1, st1)" by fastforce
  have J1: "justified fails [] ?du D st1"
    by (rule act_keepsD [OF act_keeps_all [OF justified_create] assms(1) create])
  show ?thesis
  proof (cases r1)
    case (Inl e)
    then show ?thesis using J1 create assms(3) by (simp add: run_phases_def act_bind_def)
  next
    case (Inr x)
    have "marked opts D [] st" by (simp add: marked_def assms(2))
    then have log1: "r_server st1 = r_server st @ concat ?pre" and ok: "all_accepted fails (r_server st) (concat ?pre)"
      using followsD [OF follows_creates _ create] Inr by auto
    have "granted fails (r_server st1) (create_calls own opts D u)" if "u \<in> set (order_units us)" for u
      unfolding log1 by (rule granted_concat [OF ok that])
    then have "\<forall>calls \<in> set ?pre. granted fails (r_server st1) calls" by simp
    then have J: "justified fails ?pre ?du D st1" using J1 by (simp add: justified_def)
    have keep: "act_keeps (justified fails ?pre ?du D) ?rest"
      by (intro act_keeps_bind act_keeps_all justified_view_step justified_data_step)
        (auto simp: duties_def order_units_set)
    have "?rest st1 = (r, st')" by (rule act_bind_after [OF assms(3) [unfolded run_phases_def] create [unfolded Inr]])
    then have "justified fails ?pre ?du D st'" by (rule act_keepsD [OF keep J])
    then show ?thesis by (simp add: justified_def)
  qed
qed

lemma justified_restore:
  assumes "read_dump src = Inr (m, us, vs)" "open_checkpoint src opts (fingerprint m) (r_ckstore st) = Inr c"
    and "run_restore (log_client own fails) src show_error ser opts st = (r, st')"
  shows "r_checkpoint st' = r_checkpoint st
    \<or> justified fails [] (duties own src m opts (rc_completed c) us vs) (rc_completed c) st'"
proof -
  let ?J = "justified fails [] (duties own src m opts (rc_completed c) us vs) (rc_completed c)"
  let ?I = "\<lambda>t. r_ckstore t = r_ckstore st \<and> r_checkpoint t = r_checkpoint st"
  let ?fin = "\<lambda>t. (Inr \<lparr>rs_collections = length us, rs_restored = r_restored t, rs_skipped = r_skipped t,
             rs_views = r_views t\<rparr>, t)"
  let ?start = "\<lambda>c t. t\<lparr>r_checkpoint := c, r_restored := 0, r_skipped := 0, r_views := 0\<rparr>"
  let ?run = "run_phases (log_client own fails) src show_error ser opts m (order_units us) vs"
  let ?phases = "act_bind ?run (\<lambda>_. ?fin)"
  let ?dbs = "act_all (\<lambda>d. ask (rt_create_database (log_client own fails) d)) (target_databases opts us)"
  obtain r1 st1 where dbs: "?dbs st = (r1, st1)" by fastforce
  have "act_keeps ?I (ask (logged fails x))" for x by (auto simp: act_keeps_def ask_def logged_def)
  then have "act_keeps ?I ?dbs" by (auto intro: act_intros)
  from act_keepsD [OF this _ dbs] have I: "?I st1" by simp
  show ?thesis
  proof (cases r1)
    case (Inl e)
    then show ?thesis using assms I dbs by (simp add: run_restore_def act_bind_def)
  next
    case (Inr x)
    obtain r2 st2 where run: "?run (?start c st1) = (r2, st2)" by fastforce
    have "?J (?start c st1)" by (simp add: justified_def)
    then have J: "?J st2" by (rule justified_phases [OF _ _ run]) simp
    have "?phases (?start c st1) = (r, st')"
    proof -
      let ?open = "\<lambda>t. act_lift (open_checkpoint src opts (fingerprint m) (r_ckstore t)) t"
      have dbs': "?dbs st = (Inr (), st1)" and "open": "?open st1 = (Inr c, st1)"
        using dbs Inr I assms(2) by simp_all
      note run = assms(3) [unfolded run_restore_def assms(1) act_bind_lift prod.case]
      show ?thesis by (rule act_bind_after [OF act_bind_after [OF act_bind_after [OF run dbs'] "open"] refl])
    qed
    then have "st' = st2" using run by (auto simp: act_bind_def split: sum.splits)
    then show ?thesis using J by simp
  qed
qed

section \<open>Properties\<close>

lemma validate_refuses:
  assumes "is_encrypted (m_encryption m) \<or> (\<exists>a \<in> set (m_artifacts m). a_kind a = Data \<and> a_format a = Vpack)"
  shows "\<exists>e. validate m = Inl (Config e)"
  using assms find_None_iff [of "\<lambda>a. a_kind a = Data \<and> a_format a = Vpack" "m_artifacts m"]
  by (auto simp: validate_def split: option.splits)

text \<open>
  C37: a restore asks the server for exactly its plan: the databases, then every collection
  whose unit is still to do, then the views that index documents as they arrive, then data and
  indexes collection by collection, then the views that name indexes.  Whatever the server
  answers, the calls made are a first part of the plan, and no call is made after one that was
  refused; a run that succeeds has made all of them, each with success, and has every collection
  and view in its checkpoint.  With a checkpoint this takes for granted that no two units of the
  dump share an identifier, as the code does: a collection named \<open>view::v\<close> and a view \<open>v\<close> of
  the same database would.  Without a checkpoint nothing is taken for granted.
\<close>

theorem restore_follows_plan:
  assumes "read_dump src = Inr (m, us, vs)" "open_checkpoint src opts (fingerprint m) (r_ckstore st) = Inr c"
    and "ro_checkpoint opts = None \<or> distinct (unit_ids us vs)"
    and "run_restore (log_client own fails) src show_error ser opts st = (r, st')"
  shows "\<exists>p. Sublist.prefix p (map CreateDatabase (target_databases opts us)
        @ restore_plan own src m opts (rc_completed c) us vs)
    \<and> r_server st' = r_server st @ p
    \<and> all_accepted fails (r_server st) (butlast p)
    \<and> (is_ok r \<longrightarrow> p = map CreateDatabase (target_databases opts us)
        @ restore_plan own src m opts (rc_completed c) us vs
      \<and> all_accepted fails (r_server st) p
      \<and> (ro_checkpoint opts \<noteq> None \<longrightarrow> set (unit_ids us vs) \<subseteq> set (rc_completed (r_checkpoint st'))))"
  using followsD [OF follows_restore [OF assms(1-3)] refl assms(4)] .

text \<open>
  C38: the checkpoint vouches only for what was done: however a restore ends, a unit that is in
  its checkpoint, and was not when the run began, is a collection or view of the dump, and the
  server has answered every call of it with success in this run: the one that creates the
  collection, and one after the other its data and its indexes, or those of the view.
\<close>

theorem restore_checkpoint_safe:
  assumes "read_dump src = Inr (m, us, vs)" "open_checkpoint src opts (fingerprint m) (r_ckstore st) = Inr c"
    and "run_restore (log_client own fails) src show_error ser opts st = (r, st')"
    and "i \<in> set (rc_completed (r_checkpoint st'))" "i \<notin> set (rc_completed c)"
    and "i \<notin> set (rc_completed (r_checkpoint st))"
  shows "\<exists>blocks. (i, blocks) \<in> set (duties own src m opts (rc_completed c) us vs)
    \<and> (\<forall>calls \<in> set blocks. granted fails (r_server st') calls)"
  using justified_restore [OF assms(1-3)] assms(4-6) by (auto simp: justified_def)

text \<open>
  C39: what a restore refuses is left alone: for an encrypted dump, or one with data that is
  not text, nothing is asked of the server and nothing changes; a checkpoint that belongs to
  another dump stops the run before any collection or view is touched, and stays as it is.
\<close>

theorem restore_refused:
  assumes "read_manifest src = Inr m"
    and "run_restore (log_client own fails) src show_error ser opts st = (r, st')"
  shows "(is_encrypted (m_encryption m) \<or> (\<exists>a \<in> set (m_artifacts m). a_kind a = Data \<and> a_format a = Vpack)
      \<longrightarrow> \<not> is_ok r \<and> st' = st)
    \<and> (\<forall>us vs cc c. read_dump src = Inr (m, us, vs) \<and> ro_checkpoint opts = Some cc
        \<and> load_restore_checkpoint (src_parse src) cc (r_ckstore st) = Inr (Some c)
        \<and> rc_manifest c \<noteq> fingerprint m
      \<longrightarrow> \<not> is_ok r \<and> r_ckstore st' = r_ckstore st
        \<and> Sublist.prefix (r_server st) (r_server st')
        \<and> set (r_server st') \<subseteq> set (r_server st) \<union> CreateDatabase ` set (target_databases opts us))"
proof (intro conjI impI allI; (elim conjE)?)
  assume "is_encrypted (m_encryption m) \<or> (\<exists>a \<in> set (m_artifacts m). a_kind a = Data \<and> a_format a = Vpack)"
  then obtain e where "validate m = Inl (Config e)" using validate_refuses by blast
  then have "read_dump src = Inl (Config e)" using assms(1) by (simp add: read_dump_def)
  then show "\<not> is_ok r" "st' = st" using assms(2) by (auto simp: run_restore_def act_bind_def)
next
  fix us vs cc c
  assume rd: "read_dump src = Inr (m, us, vs)" and cc: "ro_checkpoint opts = Some cc"
    "load_restore_checkpoint (src_parse src) cc (r_ckstore st) = Inr (Some c)" "rc_manifest c \<noteq> fingerprint m"
  let ?dbs = "act_all (\<lambda>d. ask (rt_create_database (log_client own fails) d)) (target_databases opts us)"
  obtain r1 st1 where dbs: "?dbs st = (r1, st1)" by fastforce
  obtain p where p: "Sublist.prefix p (map CreateDatabase (target_databases opts us))" "r_server st1 = r_server st @ p"
    using followsD [OF follows_databases refl dbs] by blast
  have asked: "set p \<subseteq> CreateDatabase ` set (target_databases opts us)"
    using set_mono_prefix [OF p(1)] by simp
  have "act_keeps (\<lambda>t. r_ckstore t = r_ckstore st) (ask (logged fails x))" for x
    by (auto simp: act_keeps_def ask_def logged_def)
  then have "act_keeps (\<lambda>t. r_ckstore t = r_ckstore st) ?dbs" by (auto intro: act_intros)
  from act_keepsD [OF this _ dbs] have k: "r_ckstore st1 = r_ckstore st" by simp
  have "\<exists>e. open_checkpoint src opts (fingerprint m) (r_ckstore st) = Inl e"
    using cc by (simp add: open_checkpoint_def)
  then have "\<not> is_ok r \<and> st' = st1"
    using assms(2) dbs k rd by (cases r1) (auto simp: run_restore_def act_bind_def)
  then show "\<not> is_ok r" "r_ckstore st' = r_ckstore st" "Sublist.prefix (r_server st) (r_server st')"
    "set (r_server st') \<subseteq> set (r_server st) \<union> CreateDatabase ` set (target_databases opts us)"
    using k asked p(2) by auto
qed

text \<open>A small dump: an edge collection, a document collection and a view; the checkpoint is one file.\<close>

definition small_manifest :: "string \<Rightarrow> manifest" where
  "small_manifest alg =
     manifest_push (view_artifact [] None ''v'' 1)
     (manifest_push (data_artifact (\<lambda>_. []) [] None ''users'' CodecNone 1 [])
     (manifest_push (structure_artifact [] None ''users'' 1)
     (manifest_push (structure_artifact [] None ''knows'' 1)
       ((manifest_new ''shop'' ''1'' ''t'')\<lparr>m_encryption := \<lparr>enc_algorithm = alg\<rparr>\<rparr>))))"

definition small_structure :: "string \<Rightarrow> int \<Rightarrow> json" where
  "small_structure name k = json_object
     [(''parameters'', json_object [(''name'', JString name), (''type'', JInt k)]),
      (''indexes'', JArray [json_object [(''type'', JString ''primary'')],
                            json_object [(''type'', JString ''ttl'')]])]"

definition small_source :: "string \<Rightarrow> dump_source" where
  "small_source alg =
     \<lparr>src_get = (\<lambda>p. Inr (once (path_str p))), src_unpack = (\<lambda>_ _. Inr []),
      src_parse = (\<lambda>b.
        if b = ''dump.manifest.json'' then Inr (manifest_to_value (small_manifest alg))
        else if b = ''users.structure.json'' then Inr (small_structure ''users'' 2)
        else if b = ''knows.structure.json'' then Inr (small_structure ''knows'' 3)
        else if b = ''old'' then Inr (restore_checkpoint_to_value (restore_checkpoint_new ''x''))
        else Inr (json_object [(''type'', JString ''arangosearch'')]))\<rparr>"

definition small_options :: "bytes option restore_options" where
  "small_options =
     \<lparr>ro_overwrite = False, ro_create_database = Some ''copy'',
      ro_checkpoint = Some \<lparr>cc_put = (\<lambda>p s k. (Inr \<lparr>om_path = p, om_size = 0\<rparr>, Some ''new'')),
        cc_head = (\<lambda>p k. Inr (map_option (\<lambda>b. \<lparr>om_path = p, om_size = 0\<rparr>) k)),
        cc_get = (\<lambda>p r k. Inr (once (case k of Some b \<Rightarrow> b | None \<Rightarrow> []))),
        cc_path = path_new ''ck''\<rparr>\<rparr>"

definition small_state :: "bytes option \<Rightarrow> (restore_call list, bytes option) restore_state" where
  "small_state k = \<lparr>r_server = [], r_ckstore = k, r_checkpoint = restore_checkpoint_new [], r_restored = 0,
     r_skipped = 0, r_views = 0, r_events = []\<rparr>"

definition small_restore ::
  "string \<Rightarrow> bytes option \<Rightarrow> nat \<Rightarrow> restore_summary res \<times> (restore_call list, bytes option) restore_state"
where
  "small_restore alg k n = run_restore (log_client ''_system'' (\<lambda>l. if length l = n then Some (Connection ''down'') else None))
     (small_source alg) (\<lambda>_. []) (\<lambda>_. Inr []) small_options (small_state k)"

lemma small_dump:
  "case read_dump (small_source ''none'') of
     Inr (m, us, vs) \<Rightarrow> distinct (unit_ids us vs)
       \<and> open_checkpoint (small_source ''none'') small_options (fingerprint m) None
           = Inr (restore_checkpoint_new (fingerprint m))
   | Inl _ \<Rightarrow> False"
  by code_simp

lemma small_dumpE:
  obtains m us vs where "read_dump (small_source ''none'') = Inr (m, us, vs)" "distinct (unit_ids us vs)"
    "open_checkpoint (small_source ''none'') small_options (fingerprint m) (r_ckstore (small_state None))
      = Inr (restore_checkpoint_new (fingerprint m))"
  using small_dump by (auto simp: small_state_def split: sum.splits)

lemma restore_follows_plan_witness:
  "case read_dump (small_source ''none'') of
     Inr (m, us, vs) \<Rightarrow> r_server (snd (small_restore ''none'' None 0))
       = map CreateDatabase (target_databases small_options us)
         @ restore_plan ''_system'' (small_source ''none'') m small_options [] us vs
   | Inl _ \<Rightarrow> False"
proof -
  obtain m us vs where d: "read_dump (small_source ''none'') = Inr (m, us, vs)" "distinct (unit_ids us vs)"
    "open_checkpoint (small_source ''none'') small_options (fingerprint m) (r_ckstore (small_state None))
      = Inr (restore_checkpoint_new (fingerprint m))"
    by (rule small_dumpE)
  obtain r st' where run: "small_restore ''none'' None 0 = (r, st')" by fastforce
  have "is_ok (fst (small_restore ''none'' None 0))" by code_simp
  then show ?thesis
    using restore_follows_plan [OF d(1,3) disjI2 [OF d(2)] run [unfolded small_restore_def]] run
    by (auto simp: d(1) restore_checkpoint_new_def small_state_def)
qed

lemma restore_checkpoint_safe_witness:
  "case read_dump (small_source ''none'') of
     Inr (m, us, vs) \<Rightarrow> \<exists>blocks. (''::view::v'', blocks) \<in> set (duties ''_system'' (small_source ''none'') m small_options [] us vs)
       \<and> (\<forall>calls \<in> set blocks. granted (\<lambda>l. if length l = 5 then Some (Connection ''down'') else None)
              (r_server (snd (small_restore ''none'' None 5))) calls)
   | Inl _ \<Rightarrow> False"
proof -
  obtain m us vs where d: "read_dump (small_source ''none'') = Inr (m, us, vs)" "distinct (unit_ids us vs)"
    "open_checkpoint (small_source ''none'') small_options (fingerprint m) (r_ckstore (small_state None))
      = Inr (restore_checkpoint_new (fingerprint m))"
    by (rule small_dumpE)
  obtain r st' where run: "small_restore ''none'' None 5 = (r, st')" by fastforce
  have "list_ex (\<lambda>i. i = ''::view::v'') (rc_completed (r_checkpoint (snd (small_restore ''none'' None 5))))"
    by code_simp
  then show ?thesis
    using restore_checkpoint_safe [OF d(1,3) run [unfolded small_restore_def], of "''::view::v''"] run
    by (simp add: d(1) restore_checkpoint_new_def small_state_def list_ex_iff)
qed

lemma small_manifest_read: "read_manifest (small_source ''aes'') = Inr (small_manifest ''aes'')"
  "read_manifest (small_source ''none'') = Inr (small_manifest ''none'')"
  by code_simp+

lemma restore_refused_witness:
  "\<not> is_ok (fst (small_restore ''aes'' None 0)) \<and> snd (small_restore ''aes'' None 0) = small_state None
   \<and> \<not> is_ok (fst (small_restore ''none'' (Some ''old'') 5))
   \<and> r_ckstore (snd (small_restore ''none'' (Some ''old'') 5)) = Some ''old''"
proof -
  obtain r1 st1 where run1: "small_restore ''aes'' None 0 = (r1, st1)" by fastforce
  have "is_encrypted (m_encryption (small_manifest ''aes''))" by code_simp
  then have 1: "\<not> is_ok r1 \<and> st1 = small_state None"
    using restore_refused [OF small_manifest_read(1) run1 [unfolded small_restore_def]] by blast
  obtain m us vs where d: "read_dump (small_source ''none'') = Inr (m, us, vs)" by (rule small_dumpE)
  have m: "m = small_manifest ''none''"
    using d small_manifest_read(2) by (auto simp: read_dump_def res_simps)
  obtain r2 st2 where run2: "small_restore ''none'' (Some ''old'') 5 = (r2, st2)" by fastforce
  obtain cc where cc: "ro_checkpoint small_options = Some cc" by (simp add: small_options_def)
  have "case ro_checkpoint small_options of None \<Rightarrow> False | Some cc \<Rightarrow>
      load_restore_checkpoint (src_parse (small_source ''none'')) cc (Some ''old'')
        = Inr (Some (restore_checkpoint_new ''x''))"
    by code_simp
  then have "load_restore_checkpoint (src_parse (small_source ''none'')) cc (r_ckstore (small_state (Some ''old'')))
        = Inr (Some (restore_checkpoint_new ''x''))"
    by (simp add: cc small_state_def)
  moreover have "rc_manifest (restore_checkpoint_new ''x'') \<noteq> fingerprint (small_manifest ''none'')" by code_simp
  ultimately have "\<not> is_ok r2 \<and> r_ckstore st2 = r_ckstore (small_state (Some ''old''))"
    using restore_refused [OF small_manifest_read(2) run2 [unfolded small_restore_def]] d cc m by blast
  then show ?thesis using 1 run1 run2 by (simp add: small_state_def)
qed

end
