(* ===== verification/Rdf.thy ===== *)
theory Rdf
  imports Export Unicode
begin

text \<open>
  The graph model of the RDF importer, \<open>model.rs\<close> and \<open>format.rs\<close> of the crate
  \<open>arangodb-rdf\<close>: terms, options, keys, vertex and edge documents.  The parsers read text
  character by character, so the text of a term is a list of scalar values; \<open>utf8\<close> gives the
  bytes that go into keys and documents.  SHA-256 is the parameter \<open>sha\<close>.
\<close>

section \<open>Terms and options\<close>

type_synonym utext = "codepoint list"

datatype rdf_resource = Iri utext | BlankNode utext

datatype rdf_term = IriTerm utext | BlankTerm utext | Literal utext "utext option" "utext option"

record rdf_triple =
  tr_subject :: rdf_resource
  tr_predicate :: utext
  tr_object :: rdf_term
  tr_graph :: "utext option"

definition quoted :: "string \<Rightarrow> string" where
  "quoted s = [CHR 0x27] @ s @ [CHR 0x27]"

datatype rdf_literal_policy = NoLiterals | VertexProperty | Materialize

definition literal_policy_parse :: "string \<Rightarrow> rdf_literal_policy res" where
  "literal_policy_parse raw =
     (let n = to_ascii_lowercase raw in
      if n \<in> {''no-literals'', ''none'', ''drop''} then Inr NoLiterals
      else if n \<in> {''vertex-property'', ''property''} then Inr VertexProperty
      else if n \<in> {''materialize'', ''vertex''} then Inr Materialize
      else Inl (Config (''unknown literal policy '' @ quoted n
        @ ''; expected no-literals, vertex-property, or materialize'')))"

datatype graph_model = Pgt | Rpt

definition graph_model_parse :: "string \<Rightarrow> graph_model res" where
  "graph_model_parse raw =
     (let n = to_ascii_lowercase raw in
      if n \<in> {''pgt'', ''property-graph'', ''lpg''} then Inr Pgt
      else if n \<in> {''rpt'', ''topology'', ''rdf''} then Inr Rpt
      else Inl (Config (''unknown graph model '' @ quoted n @ ''; expected pgt or rpt'')))"

datatype named_graph_mode = GraphIgnore | GraphProperty | GraphCollection

definition named_graph_parse :: "string \<Rightarrow> named_graph_mode res" where
  "named_graph_parse raw =
     (let n = to_ascii_lowercase raw in
      if n \<in> {''ignore'', ''none'', ''drop''} then Inr GraphIgnore
      else if n \<in> {''property'', ''edge-property''} then Inr GraphProperty
      else if n \<in> {''collection'', ''per-graph''} then Inr GraphCollection
      else Inl (Config (''unknown named-graph mode '' @ quoted n
        @ ''; expected ignore, property, or collection'')))"

datatype rdf_format = NTriples | NQuads | Turtle

definition rdf_format_parse :: "string \<Rightarrow> rdf_format res" where
  "rdf_format_parse raw =
     (let n = to_ascii_lowercase raw in
      if n \<in> {''ntriples'', ''nt'', ''n-triples''} then Inr NTriples
      else if n \<in> {''nquads'', ''nq'', ''n-quads''} then Inr NQuads
      else if n \<in> {''turtle'', ''ttl''} then Inr Turtle
      else Inl (Config (''unknown RDF format '' @ quoted n @ ''; expected ntriples, nquads, or turtle'')))"

text \<open>\<open>rsplit('.').next()\<close> is what follows the last dot, everything if there is none.\<close>

definition rdf_format_infer :: "string \<Rightarrow> rdf_format res" where
  "rdf_format_infer path =
     (let trimmed = (case strip_suffix ''.gz'' path of Some s \<Rightarrow> s
                     | None \<Rightarrow> (case strip_suffix ''.zst'' path of Some s \<Rightarrow> s | None \<Rightarrow> path));
          ext = to_ascii_lowercase (last (split_on (CHR ''.'') trimmed)) in
      if ext = ''nt'' then Inr NTriples
      else if ext = ''nq'' then Inr NQuads
      else if ext = ''ttl'' then Inr Turtle
      else Inl (Config (''cannot infer RDF format from '' @ quoted path @ ''; pass an explicit --format'')))"

record placement =
  pl_collection :: string
  pl_key :: string

record rdf_options =
  ro_vertex_collection :: string
  ro_edge_collection :: string
  ro_graph_model :: graph_model
  ro_literal_policy :: rdf_literal_policy
  ro_named_graph :: named_graph_mode
  ro_blank_scope :: "string option"

definition rdf_options_new :: "string \<Rightarrow> string \<Rightarrow> rdf_options" where
  "rdf_options_new v e =
     \<lparr>ro_vertex_collection = v, ro_edge_collection = e, ro_graph_model = Pgt, ro_literal_policy = NoLiterals,
      ro_named_graph = GraphIgnore, ro_blank_scope = None\<rparr>"

section \<open>Keys\<close>

definition hex_bytes :: "bytes \<Rightarrow> string" where
  "hex_bytes b = concat (map hex_byte b)"

definition key_input :: "string \<Rightarrow> string list \<Rightarrow> bytes" where
  "key_input domain parts = domain @ concat (map (\<lambda>p. CHR 0x00 # p) parts)"

definition hash_key :: "(bytes \<Rightarrow> bytes) \<Rightarrow> string \<Rightarrow> string list \<Rightarrow> string" where
  "hash_key sha domain parts = hex_bytes (sha (key_input domain parts))"

definition blank_node_key :: "(bytes \<Rightarrow> bytes) \<Rightarrow> utext \<Rightarrow> string option \<Rightarrow> string" where
  "blank_node_key sha label scope =
     hash_key sha ''rdf:bnode'' (case scope of Some s \<Rightarrow> [s, utf8 label] | None \<Rightarrow> [utf8 label])"

text \<open>\<open>RdfOptions::resource_key\<close>; the free function of that name has no scope.\<close>

fun scoped_resource_key :: "(bytes \<Rightarrow> bytes) \<Rightarrow> string option \<Rightarrow> rdf_resource \<Rightarrow> string" where
  "scoped_resource_key sha scope (Iri iri) = hash_key sha ''rdf:iri'' [utf8 iri]"
| "scoped_resource_key sha scope (BlankNode label) = blank_node_key sha label scope"

definition resource_key :: "(bytes \<Rightarrow> bytes) \<Rightarrow> rdf_resource \<Rightarrow> string" where
  "resource_key sha r = scoped_resource_key sha None r"

definition literal_key :: "(bytes \<Rightarrow> bytes) \<Rightarrow> utext \<Rightarrow> utext option \<Rightarrow> utext option \<Rightarrow> string" where
  "literal_key sha value dt lang =
     hash_key sha ''rdf:literal''
       [utf8 value, (case dt of Some d \<Rightarrow> utf8 d | None \<Rightarrow> []), (case lang of Some l \<Rightarrow> utf8 l | None \<Rightarrow> [])]"

definition edge_key :: "(bytes \<Rightarrow> bytes) \<Rightarrow> string \<Rightarrow> utext \<Rightarrow> string \<Rightarrow> utext option \<Rightarrow> string" where
  "edge_key sha from_id predicate to_id graph =
     hash_key sha ''rdf:edge''
       (case graph of Some g \<Rightarrow> [from_id, utf8 predicate, to_id, utf8 g] | None \<Rightarrow> [from_id, utf8 predicate, to_id])"

definition graph_slug :: "(bytes \<Rightarrow> bytes) \<Rightarrow> utext \<Rightarrow> string" where
  "graph_slug sha graph =
     utf8 (take 48 (map (\<lambda>c. if cp_alnum c then c else cp (CHR ''_'')) graph))
     @ ''_'' @ take 8 (hash_key sha ''rdf:graph'' [utf8 graph])"

section \<open>Placement and documents\<close>

definition resource_placement :: "(bytes \<Rightarrow> bytes) \<Rightarrow> rdf_options \<Rightarrow> rdf_resource \<Rightarrow> placement" where
  "resource_placement sha opts r =
     \<lparr>pl_collection = (case ro_graph_model opts of
         Pgt \<Rightarrow> ro_vertex_collection opts
       | Rpt \<Rightarrow> (case r of Iri _ \<Rightarrow> ro_vertex_collection opts @ ''_URIRef''
                 | BlankNode _ \<Rightarrow> ro_vertex_collection opts @ ''_BNode'')),
      pl_key = scoped_resource_key sha (ro_blank_scope opts) r\<rparr>"

definition literal_placement ::
  "(bytes \<Rightarrow> bytes) \<Rightarrow> rdf_options \<Rightarrow> utext \<Rightarrow> utext option \<Rightarrow> utext option \<Rightarrow> placement"
where
  "literal_placement sha opts value dt lang =
     \<lparr>pl_collection = (case ro_graph_model opts of
         Pgt \<Rightarrow> ro_vertex_collection opts | Rpt \<Rightarrow> ro_vertex_collection opts @ ''_Literal''),
      pl_key = literal_key sha value dt lang\<rparr>"

definition edge_collection_for :: "(bytes \<Rightarrow> bytes) \<Rightarrow> rdf_options \<Rightarrow> utext option \<Rightarrow> string" where
  "edge_collection_for sha opts graph =
     (case (ro_named_graph opts, graph) of
        (GraphCollection, Some g) \<Rightarrow> ro_edge_collection opts @ ''_'' @ graph_slug sha g
      | _ \<Rightarrow> ro_edge_collection opts)"

definition edge_graph :: "rdf_options \<Rightarrow> utext option \<Rightarrow> utext option" where
  "edge_graph opts graph = (case ro_named_graph opts of GraphIgnore \<Rightarrow> None | _ \<Rightarrow> graph)"

definition vertex_collections :: "rdf_options \<Rightarrow> string list" where
  "vertex_collections opts =
     (case ro_graph_model opts of
        Pgt \<Rightarrow> [ro_vertex_collection opts]
      | Rpt \<Rightarrow> [ro_vertex_collection opts @ ''_URIRef'', ro_vertex_collection opts @ ''_BNode'',
                ro_vertex_collection opts @ ''_Literal''])"

fun scoped_resource_vertex :: "(bytes \<Rightarrow> bytes) \<Rightarrow> string option \<Rightarrow> rdf_resource \<Rightarrow> json" where
  "scoped_resource_vertex sha scope (Iri iri) =
     json_object [(''_key'', JString (scoped_resource_key sha scope (Iri iri))), (''iri'', JString (utf8 iri))]"
| "scoped_resource_vertex sha scope (BlankNode label) =
     json_object ([(''_key'', JString (scoped_resource_key sha scope (BlankNode label))),
       (''blank_node'', JBool True), (''label'', JString (utf8 label))] @ opt_field ''scope'' JString scope)"

definition resource_vertex :: "(bytes \<Rightarrow> bytes) \<Rightarrow> rdf_resource \<Rightarrow> json" where
  "resource_vertex sha r = scoped_resource_vertex sha None r"

definition literal_vertex :: "(bytes \<Rightarrow> bytes) \<Rightarrow> utext \<Rightarrow> utext option \<Rightarrow> utext option \<Rightarrow> json" where
  "literal_vertex sha value dt lang =
     json_object ([(''_key'', JString (literal_key sha value dt lang)), (''literal'', JString (utf8 value))]
       @ opt_field ''datatype'' (JString \<circ> utf8) dt @ opt_field ''language'' (JString \<circ> utf8) lang)"

definition placement_id :: "placement \<Rightarrow> string" where
  "placement_id p = pl_collection p @ ''/'' @ pl_key p"

definition edge_document ::
  "(bytes \<Rightarrow> bytes) \<Rightarrow> placement \<Rightarrow> placement \<Rightarrow> utext \<Rightarrow> utext option \<Rightarrow> json"
where
  "edge_document sha a b predicate graph =
     json_object ([(''_key'', JString (edge_key sha (placement_id a) predicate (placement_id b) graph)),
       (''_from'', JString (placement_id a)), (''_to'', JString (placement_id b)),
       (''predicate'', JString (utf8 predicate))] @ opt_field ''graph'' (JString \<circ> utf8) graph)"

section \<open>Keys identify terms\<close>

lemma key_input_inj:
  assumes "key_input d ps = key_input e qs"
    and "CHR 0x00 \<notin> set d" "CHR 0x00 \<notin> set e"
    and "\<forall>p \<in> set ps. CHR 0x00 \<notin> set p" "\<forall>q \<in> set qs. CHR 0x00 \<notin> set q"
  shows "d = e \<and> ps = qs"
  using assms
proof (induction ps arbitrary: d e qs)
  case Nil
  then show ?case by (cases qs) (auto simp: key_input_def)
next
  case (Cons p ps)
  show ?case
  proof (cases qs)
    case Nil
    then show ?thesis using Cons.prems(1,3) by (auto simp: key_input_def)
  next
    case (Cons q qs')
    have "d @ CHR 0x00 # key_input p ps = e @ CHR 0x00 # key_input q qs'"
      using Cons.prems(1) Cons by (simp add: key_input_def)
    then have "d = e \<and> key_input p ps = key_input q qs'"
      by (rule split_once_unique) (use Cons.prems in simp_all)
    then show ?thesis using Cons.IH [of p q qs'] Cons.prems Cons by simp
  qed
qed

lemma hex_byte_inj: "hex_byte a = hex_byte b \<Longrightarrow> a = b"
proof -
  have digit: "hex_digit m = hex_digit n \<Longrightarrow> m = n" if "m < 16" "n < 16" for m n :: nat
  proof -
    assume eq: "hex_digit m = hex_digit n"
    have v: "(of_char (hex_digit k) :: nat) = (if k < 10 then 48 + k else 87 + k)" if "k < 16" for k
      using that by (simp add: hex_digit_def)
    have "(if m < 10 then 48 + m else 87 + m) = (if n < 10 then 48 + n else 87 + n)"
      by (simp only: v [OF that(1), symmetric] v [OF that(2), symmetric] eq)
    then show "m = n" using that by (simp split: if_splits)
  qed
  assume eq: "hex_byte a = hex_byte b"
  have lt: "(of_char c :: nat) div 16 < 16" for c :: char
    using nat_of_char_less_256 [of c] by linarith
  have "(of_char a :: nat) div 16 = of_char b div 16" "(of_char a :: nat) mod 16 = of_char b mod 16"
    using eq digit [OF lt lt] digit [of "of_char a mod 16" "of_char b mod 16"] by (simp_all add: hex_byte_def)
  then have "(of_char a :: nat) = of_char b" by (metis mod_mult_div_eq)
  then show "a = b" by simp
qed

lemma hex_bytes_inj: "hex_bytes a = hex_bytes b \<Longrightarrow> a = b"
proof (induction a arbitrary: b)
  case Nil
  then show ?case by (cases b) (simp_all add: hex_bytes_def hex_byte_def)
next
  case (Cons x a)
  then obtain y b' where b: "b = y # b'" by (cases b) (simp_all add: hex_bytes_def hex_byte_def)
  then have "hex_byte x = hex_byte y \<and> hex_bytes a = hex_bytes b'"
    using Cons.prems by (simp add: hex_bytes_def hex_byte_def)
  then show ?case using Cons.IH b hex_byte_inj by blast
qed

lemma hex_bytes_chars: "c \<in> set (hex_bytes b) \<Longrightarrow> c \<noteq> CHR ''/'' \<and> c \<noteq> CHR 0x00"
proof -
  have "hex_digit n \<noteq> CHR ''/'' \<and> hex_digit n \<noteq> CHR 0x00" if "n < 16" for n :: nat
  proof -
    have "(of_char (hex_digit n) :: nat) = (if n < 10 then 48 + n else 87 + n)"
      using that by (simp add: hex_digit_def)
    then have "(of_char (hex_digit n) :: nat) \<noteq> of_char (CHR ''/'')"
      "(of_char (hex_digit n) :: nat) \<noteq> of_char (CHR 0x00)" by (auto split: if_splits)
    then show ?thesis by (metis of_char_eq_iff)
  qed
  moreover have "(of_char c :: nat) div 16 < 16" for c :: char
    using nat_of_char_less_256 [of c] by linarith
  moreover assume "c \<in> set (hex_bytes b)"
  ultimately show ?thesis by (auto simp: hex_bytes_def hex_byte_def)
qed

text \<open>What is hashed for a term: the vertex of a statement's subject or object.\<close>

fun resource_term :: "rdf_resource \<Rightarrow> rdf_term" where
  "resource_term (Iri i) = IriTerm i"
| "resource_term (BlankNode l) = BlankTerm l"

fun term_input :: "string option \<Rightarrow> rdf_term \<Rightarrow> bytes" where
  "term_input scope (IriTerm i) = key_input ''rdf:iri'' [utf8 i]"
| "term_input scope (BlankTerm l) =
     key_input ''rdf:bnode'' (case scope of Some s \<Rightarrow> [s, utf8 l] | None \<Rightarrow> [utf8 l])"
| "term_input scope (Literal v dt lang) = key_input ''rdf:literal''
     [utf8 v, (case dt of Some d \<Rightarrow> utf8 d | None \<Rightarrow> []), (case lang of Some l \<Rightarrow> utf8 l | None \<Rightarrow> [])]"

lemma resource_key_input: "scoped_resource_key sha scope r = hex_bytes (sha (term_input scope (resource_term r)))"
  by (cases r) (simp_all add: hash_key_def blank_node_key_def)

lemma literal_key_input: "literal_key sha v dt lang = hex_bytes (sha (term_input scope (Literal v dt lang)))"
  by (simp add: hash_key_def literal_key_def)

text \<open>Text without U+0000, of scalar values: what makes the separators of a key unambiguous.\<close>

definition plain :: "utext \<Rightarrow> bool" where
  "plain s \<longleftrightarrow> list_all is_scalar s \<and> 0 \<notin> set s"

fun term_plain :: "rdf_term \<Rightarrow> bool" where
  "term_plain (IriTerm i) = plain i"
| "term_plain (BlankTerm l) = plain l"
| "term_plain (Literal v dt lang) \<longleftrightarrow> plain v
     \<and> (case dt of None \<Rightarrow> True | Some d \<Rightarrow> plain d) \<and> (case lang of None \<Rightarrow> True | Some l \<Rightarrow> plain l)"

text \<open>
  An empty datatype or language is hashed like a missing one: \<open>"x"^^<>\<close>, which the parsers accept, has
  the key of \<open>"x"\<close>.  \<open>key_term\<close> is what the key knows of a term.
\<close>

definition unempty :: "'a list option \<Rightarrow> 'a list option" where
  "unempty x = (if x = Some [] then None else x)"

fun key_term :: "rdf_term \<Rightarrow> rdf_term" where
  "key_term (Literal v dt lang) = Literal v (unempty dt) (unempty lang)"
| "key_term t = t"

lemma unempty_utf8: "(case unempty d of Some x \<Rightarrow> utf8 x | None \<Rightarrow> []) = (case d of Some x \<Rightarrow> utf8 x | None \<Rightarrow> [])"
  by (auto simp: unempty_def)

lemma term_input_key_term: "term_input scope (key_term t) = term_input scope t"
  by (cases t) (simp_all add: unempty_utf8)

lemma plain_utf8: "plain s \<Longrightarrow> CHR 0x00 \<notin> set (utf8 s)"
proof (rule utf8_no_zero, rule ballI)
  fix c assume "plain s" "c \<in> set s"
  then have "is_scalar c" "c \<noteq> 0" unfolding plain_def list_all_iff by metis+
  then show "c \<noteq> 0 \<and> c < 0x110000" by (auto simp: is_scalar_def)
qed

lemma plain_inject: "plain s \<Longrightarrow> plain t \<Longrightarrow> utf8 s = utf8 t \<Longrightarrow> s = t"
  using utf8_inject by (auto simp: plain_def)

lemma plain_opt_inject:
  assumes "case s of None \<Rightarrow> True | Some d \<Rightarrow> plain d" "case t of None \<Rightarrow> True | Some d \<Rightarrow> plain d"
    and "(case s of Some d \<Rightarrow> utf8 d | None \<Rightarrow> []) = (case t of Some d \<Rightarrow> utf8 d | None \<Rightarrow> [])"
  shows "unempty s = unempty t"
proof -
  have "utf8 d \<noteq> []" if "d \<noteq> []" for d using that by (cases d) simp_all
  then show ?thesis using assms plain_inject by (auto simp: unempty_def split: option.splits) metis+
qed

lemma term_input_inj:
  assumes "term_input scope s = term_input scope t" "term_plain s" "term_plain t"
    and "\<forall>x. scope = Some x \<longrightarrow> CHR 0x00 \<notin> set x"
  shows "key_term s = key_term t"
proof -
  have zero: "CHR 0x00 \<notin> set (case d of Some x \<Rightarrow> utf8 x | None \<Rightarrow> [])"
    if "case d of None \<Rightarrow> True | Some x \<Rightarrow> plain x" for d
    using that by (auto simp: plain_utf8 split: option.splits)
  have dom: "CHR 0x00 \<notin> set ''rdf:iri''" "CHR 0x00 \<notin> set ''rdf:bnode''" "CHR 0x00 \<notin> set ''rdf:literal''"
    by simp_all
  define parts where "parts t = (case t of IriTerm i \<Rightarrow> [utf8 i]
    | BlankTerm l \<Rightarrow> (case scope of Some x \<Rightarrow> [x, utf8 l] | None \<Rightarrow> [utf8 l])
    | Literal v dt lang \<Rightarrow> [utf8 v, (case dt of Some d \<Rightarrow> utf8 d | None \<Rightarrow> []), (case lang of Some l \<Rightarrow> utf8 l | None \<Rightarrow> [])])" for t
  define domain where "domain t = (case t of IriTerm _ \<Rightarrow> ''rdf:iri'' | BlankTerm _ \<Rightarrow> ''rdf:bnode'' | Literal _ _ _ \<Rightarrow> ''rdf:literal'')" for t
  have input: "term_input scope t = key_input (domain t) (parts t)" for t
    by (cases t) (simp_all add: domain_def parts_def)
  have "\<forall>p \<in> set (parts t). CHR 0x00 \<notin> set p" "CHR 0x00 \<notin> set (domain t)" if "term_plain t" for t
    using that assms(4) zero by (cases t; auto simp: parts_def domain_def plain_utf8 split: option.splits)+
  then have eq: "domain s = domain t" "parts s = parts t"
    using key_input_inj [OF assms(1) [unfolded input]] assms(2,3) by blast+
  have literal: "key_term s = key_term t" if l: "s = Literal v dt lang" "t = Literal v' dt' lang'" for v dt lang v' dt' lang'
  proof -
    have pl: "plain v" "plain v'" "case dt of None \<Rightarrow> True | Some d \<Rightarrow> plain d" "case dt' of None \<Rightarrow> True | Some d \<Rightarrow> plain d"
      "case lang of None \<Rightarrow> True | Some d \<Rightarrow> plain d" "case lang' of None \<Rightarrow> True | Some d \<Rightarrow> plain d"
      using assms(2,3) l by simp_all
    have "utf8 v = utf8 v'" "(case dt of Some d \<Rightarrow> utf8 d | None \<Rightarrow> []) = (case dt' of Some d \<Rightarrow> utf8 d | None \<Rightarrow> [])"
      "(case lang of Some d \<Rightarrow> utf8 d | None \<Rightarrow> []) = (case lang' of Some d \<Rightarrow> utf8 d | None \<Rightarrow> [])"
      using eq(2) l by (simp_all add: parts_def)
    then show ?thesis
      using l plain_inject [OF pl(1,2)] plain_opt_inject [OF pl(3,4)] plain_opt_inject [OF pl(5,6)] by simp
  qed
  have inj: "plain a \<Longrightarrow> plain b \<Longrightarrow> utf8 a = utf8 b \<Longrightarrow> a = b" for a b by (rule plain_inject)
  show ?thesis
  proof (cases s)
    case (IriTerm i)
    then obtain j where "t = IriTerm j" using eq(1) by (cases t) (simp_all add: domain_def)
    then show ?thesis using IriTerm eq(2) assms(2,3) inj by (simp add: parts_def)
  next
    case (BlankTerm l)
    then obtain m where t: "t = BlankTerm m" using eq(1) by (cases t) (simp_all add: domain_def)
    then have "utf8 l = utf8 m" using BlankTerm eq(2) by (simp add: parts_def split: option.splits)
    then show ?thesis using BlankTerm t assms(2,3) inj by simp
  next
    case (Literal v dt lang)
    then obtain v' dt' lang' where "t = Literal v' dt' lang'" using eq(1) by (cases t) (simp_all add: domain_def)
    then show ?thesis by (rule literal [OF Literal])
  qed
qed

end
