(* ===== verification/RdfGraph.thy ===== *)
theory RdfGraph
  imports Rdf Pipeline
begin

text \<open>
  Folding triples into a graph and loading it, \<open>lib.rs\<close> of the crate \<open>arangodb-rdf\<close>.  The
  stream of triples is the list of what the parser yields.  A panic is the result \<open>None\<close>; it is
  proved never to happen.  The server is the record \<open>rdf_client\<close>: one request that ensures a
  collection and one that imports documents into it.
\<close>

section \<open>Documents by collection and key\<close>

type_synonym doc_store = "(string, (string, json) btree) btree"

definition collection_docs :: "doc_store \<Rightarrow> string \<Rightarrow> (string, json) btree" where
  "collection_docs vs c = (case bt_get vs c of Some m \<Rightarrow> m | None \<Rightarrow> [])"

definition look_doc :: "doc_store \<Rightarrow> string \<times> string \<Rightarrow> json option" where
  "look_doc vs ck = bt_get (collection_docs vs (fst ck)) (snd ck)"

definition store_doc :: "string \<Rightarrow> string \<Rightarrow> json \<Rightarrow> doc_store \<Rightarrow> doc_store" where
  "store_doc c k doc vs = bt_insert c (bt_or_insert k doc (collection_docs vs c)) vs"

definition store_vertex :: "placement \<Rightarrow> json \<Rightarrow> doc_store \<Rightarrow> doc_store" where
  "store_vertex p doc vs = store_doc (pl_collection p) (pl_key p) doc vs"

definition document_key :: "json \<Rightarrow> string" where
  "document_key doc = (case Option.bind (jget doc ''_key'') as_str of Some k \<Rightarrow> k | None \<Rightarrow> [])"

definition buffer_doc :: "string \<Rightarrow> json \<Rightarrow> doc_store \<Rightarrow> doc_store" where
  "buffer_doc c doc vs = store_doc c (document_key doc) doc vs"

text \<open>\<open>add_property\<close>; its three \<open>expect\<close>s are the three ways to \<open>None\<close>.\<close>

definition set_property :: "string \<Rightarrow> string \<Rightarrow> json \<Rightarrow> json option" where
  "set_property predicate value doc =
     Option.bind (as_object doc) (\<lambda>obj.
     Option.bind (as_object (case bt_get obj ''properties'' of Some p \<Rightarrow> p | None \<Rightarrow> JObject [])) (\<lambda>ps.
       Some (JObject (bt_insert ''properties'' (JObject (bt_insert predicate (JString value) ps)) obj))))"

definition add_property :: "placement \<Rightarrow> utext \<Rightarrow> utext \<Rightarrow> doc_store \<Rightarrow> doc_store option" where
  "add_property p predicate value vs =
     Option.bind (look_doc vs (pl_collection p, pl_key p)) (\<lambda>doc.
     Option.bind (set_property (utf8 predicate) (utf8 value) doc) (\<lambda>doc'.
       Some (bt_insert (pl_collection p) (bt_insert (pl_key p) doc' (collection_docs vs (pl_collection p))) vs)))"

section \<open>One triple\<close>

record built_edge =
  be_collection :: string
  be_document :: json

text \<open>The object of a statement as a resource; a literal is the panic of \<open>object_as_resource\<close>.\<close>

fun object_as_resource :: "rdf_term \<Rightarrow> rdf_resource option" where
  "object_as_resource (IriTerm i) = Some (Iri i)"
| "object_as_resource (BlankTerm l) = Some (BlankNode l)"
| "object_as_resource (Literal _ _ _) = None"

definition fold_triple ::
  "(bytes \<Rightarrow> bytes) \<Rightarrow> rdf_options \<Rightarrow> rdf_triple \<Rightarrow> doc_store \<Rightarrow> (built_edge option \<times> doc_store) option"
where
  "fold_triple sha opts t vs =
     (let subject = resource_placement sha opts (tr_subject t);
          vs1 = store_vertex subject (scoped_resource_vertex sha (ro_blank_scope opts) (tr_subject t)) vs;
          graph = edge_graph opts (tr_graph t);
          coll = edge_collection_for sha opts (tr_graph t);
          build_edge = (\<lambda>a b. \<lparr>be_collection = coll, be_document = edge_document sha a b (tr_predicate t) graph\<rparr>)
      in case tr_object t of
           Literal value dt lang \<Rightarrow>
             if ro_graph_model opts = Pgt \<and> ro_literal_policy opts = NoLiterals then Some (None, vs1)
             else if ro_graph_model opts = Pgt \<and> ro_literal_policy opts = VertexProperty
             then map_option (\<lambda>vs2. (None, vs2)) (add_property subject (tr_predicate t) value vs1)
             else (let p = literal_placement sha opts value dt lang
                   in Some (Some (build_edge subject p), store_vertex p (literal_vertex sha value dt lang) vs1))
         | obj \<Rightarrow>
             Option.bind (object_as_resource obj) (\<lambda>r.
               let p = resource_placement sha opts r
               in Some (Some (build_edge subject p),
                    store_vertex p (scoped_resource_vertex sha (ro_blank_scope opts) r) vs1)))"

section \<open>The parse phase\<close>

text \<open>
  Edges go to the streaming loader, or into buffers per collection.  The loader's channel
  refuses edges once the loader has stopped: after \<open>stop\<close> edges, if it stops.
\<close>

record parse_out =
  po_vertices :: doc_store
  po_sent :: "json list"
  po_buffers :: doc_store
  po_read :: nat
  po_built :: nat

definition parse_start :: parse_out where
  "parse_start = \<lparr>po_vertices = [], po_sent = [], po_buffers = [], po_read = 0, po_built = 0\<rparr>"

fun parse_phase ::
  "(bytes \<Rightarrow> bytes) \<Rightarrow> rdf_options \<Rightarrow> nat option \<Rightarrow> rdf_triple res list \<Rightarrow> parse_out
   \<Rightarrow> (error option \<times> parse_out) option"
where
  "parse_phase sha opts stop [] out = Some (None, out)"
| "parse_phase sha opts stop (Inl err # rest) out = Some (Some err, out)"
| "parse_phase sha opts stop (Inr t # rest) out =
     (let out1 = out\<lparr>po_read := po_read out + 1\<rparr> in
      case fold_triple sha opts t (po_vertices out1) of
        None \<Rightarrow> None
      | Some (None, vs) \<Rightarrow> parse_phase sha opts stop rest (out1\<lparr>po_vertices := vs\<rparr>)
      | Some (Some e, vs) \<Rightarrow>
          (let out2 = out1\<lparr>po_vertices := vs, po_built := po_built out1 + 1\<rparr> in
           if ro_named_graph opts = GraphCollection
           then parse_phase sha opts stop rest
                  (out2\<lparr>po_buffers := buffer_doc (be_collection e) (be_document e) (po_buffers out2)\<rparr>)
           else if stop = Some (length (po_sent out2)) then Some (None, out2)
           else parse_phase sha opts stop rest (out2\<lparr>po_sent := po_sent out2 @ [be_document e]\<rparr>)))"

section \<open>The import\<close>

datatype collection_kind = DocumentKind | EdgeKind

record 'c rdf_client =
  rd_ensure :: "string \<Rightarrow> collection_kind \<Rightarrow> 'c \<Rightarrow> unit res \<times> 'c"
  rd_import :: "string \<Rightarrow> json list \<Rightarrow> 'c \<Rightarrow> import_summary res \<times> 'c"

record rdf_summary =
  rdf_triples_read :: nat
  rdf_vertices_built :: nat
  rdf_edges_built :: nat
  rdf_vertices_created :: nat
  rdf_edges_created :: nat
  rdf_vertices_ignored :: nat
  rdf_edges_ignored :: nat

definition accumulate :: "import_summary \<Rightarrow> import_summary \<Rightarrow> import_summary" where
  "accumulate s totals =
     totals\<lparr>is_created := is_created totals + is_created s, is_ignored := is_ignored totals + is_ignored s,
       is_errors := is_errors totals + is_errors s, is_batches := is_batches totals + is_batches s,
       is_bytes_sent := is_bytes_sent totals + is_bytes_sent s\<rparr>"

text \<open>One import per collection, in the order of the map; \<open>before\<close> is what precedes each.\<close>

fun import_collections ::
  "'c rdf_client \<Rightarrow> (string \<Rightarrow> ('c, error, unit) act) \<Rightarrow> doc_store \<Rightarrow> import_summary \<Rightarrow> ('c, error, import_summary) act"
where
  "import_collections cl before [] totals = act_return totals"
| "import_collections cl before ((c, docs) # rest) totals =
     act_bind (before c) (\<lambda>_. act_bind (rd_import cl c (map snd docs)) (\<lambda>s.
       import_collections cl before rest (accumulate s totals)))"

text \<open>
  The streaming loader runs beside the parser and the vertex imports; its requests stand here
  where the import waits for it.  A failing vertex import does not wait for the loader.
\<close>

definition load_graph ::
  "'c rdf_client \<Rightarrow> rdf_options \<Rightarrow> parse_out \<Rightarrow> ('c, error, rdf_summary) act"
where
  "load_graph cl opts out =
     act_bind (import_collections cl (\<lambda>_. act_return ()) (po_vertices out) summary_default) (\<lambda>vt.
     act_bind
       (if ro_named_graph opts = GraphCollection
        then import_collections cl (\<lambda>c. rd_ensure cl c EdgeKind) (po_buffers out) summary_default
        else act_bind (rd_import cl (ro_edge_collection opts) (po_sent out)) (\<lambda>s.
               act_return (accumulate s summary_default))) (\<lambda>et.
       act_return \<lparr>rdf_triples_read = po_read out,
         rdf_vertices_built = sum_list (map (\<lambda>(c, docs). length docs) (po_vertices out)),
         rdf_edges_built = po_built out, rdf_vertices_created = is_created vt, rdf_edges_created = is_created et,
         rdf_vertices_ignored = is_ignored vt, rdf_edges_ignored = is_ignored et\<rparr>))"

definition import_rdf ::
  "(bytes \<Rightarrow> bytes) \<Rightarrow> 'c rdf_client \<Rightarrow> rdf_options \<Rightarrow> nat option \<Rightarrow> rdf_triple res list \<Rightarrow> 'c
   \<Rightarrow> (rdf_summary res \<times> 'c) option"
where
  "import_rdf sha cl opts stop triples c0 =
     (case act_bind (act_all (\<lambda>c. rd_ensure cl c DocumentKind) (vertex_collections opts)) (\<lambda>_.
             rd_ensure cl (ro_edge_collection opts) EdgeKind) c0 of
        (Inl e, c1) \<Rightarrow> Some (Inl e, c1)
      | (Inr _, c1) \<Rightarrow>
          (case parse_phase sha opts stop triples parse_start of
             None \<Rightarrow> None
           | Some (Some err, out) \<Rightarrow>
               Some (Inl err, if ro_named_graph opts = GraphCollection then c1
                              else snd (rd_import cl (ro_edge_collection opts) (po_sent out) c1))
           | Some (None, out) \<Rightarrow> Some (load_graph cl opts out c1)))"

section \<open>The document store refines a map\<close>

declare scoped_resource_vertex.simps [simp del] scoped_resource_key.simps [simp del]

definition store_wf :: "doc_store \<Rightarrow> bool" where
  "store_wf vs \<longleftrightarrow> bt_wf vs \<and> (\<forall>c. bt_wf (collection_docs vs c))"

lemma store_wf_Nil [simp]: "store_wf []" "look_doc [] ck = None"
  by (simp_all add: store_wf_def collection_docs_def look_doc_def)

lemma collection_docs_insert [simp]:
  "bt_wf vs \<Longrightarrow> collection_docs (bt_insert c m vs) d = (if d = c then m else collection_docs vs d)"
  by (simp add: collection_docs_def)

lemma store_wf_put: "store_wf vs \<Longrightarrow> bt_wf m \<Longrightarrow> store_wf (bt_insert c m vs)"
  by (simp add: store_wf_def)

lemma store_wf_doc [simp]: "store_wf vs \<Longrightarrow> store_wf (store_doc c k d vs)"
  unfolding store_doc_def by (rule store_wf_put) (simp_all add: store_wf_def)

lemma look_store_doc [simp]:
  "store_wf vs \<Longrightarrow> look_doc (store_doc c k d vs) ck =
    (if ck = (c, k) \<and> look_doc vs ck = None then Some d else look_doc vs ck)"
  by (cases ck) (auto simp: store_doc_def look_doc_def store_wf_def split: option.splits)

lemma look_put_doc:
  "store_wf vs \<Longrightarrow> look_doc (bt_insert c (bt_insert k d (collection_docs vs c)) vs) ck =
    (if ck = (c, k) then Some d else look_doc vs ck)"
  by (cases ck) (auto simp: look_doc_def store_wf_def)

text \<open>A vertex as it is created: an object without properties.\<close>

definition fresh_doc :: "json \<Rightarrow> bool" where
  "fresh_doc d \<longleftrightarrow> (\<exists>obj. d = JObject obj \<and> bt_wf obj \<and> bt_get obj ''properties'' = None)"

definition with_properties :: "(string \<times> string) list \<Rightarrow> json \<Rightarrow> json" where
  "with_properties ps d = (case d of
     JObject obj \<Rightarrow> if ps = [] then d
       else JObject (bt_insert ''properties'' (json_object (map (\<lambda>(p, v). (p, JString v)) ps)) obj)
   | _ \<Rightarrow> d)"

lemma with_properties_Nil [simp]: "with_properties [] = (\<lambda>d. d)"
  by (simp add: with_properties_def fun_eq_iff split: json.splits)

lemma set_property_more:
  assumes "fresh_doc d"
  shows "set_property p v (with_properties ps d) = Some (with_properties (ps @ [(p, v)]) d)"
proof -
  obtain obj where d: "d = JObject obj" "bt_wf obj" "bt_get obj ''properties'' = None"
    using assms by (auto simp: fresh_doc_def)
  show ?thesis
  proof (cases "ps = []")
    case True
    then show ?thesis by (simp add: d with_properties_def set_property_def json_object_def)
  next
    case False
    then show ?thesis
      using d(2) by (simp add: d(1) with_properties_def set_property_def json_object_def bt.ins_ins_same)
  qed
qed

lemma fresh_json_object: "''properties'' \<notin> fst ` set kvs \<Longrightarrow> fresh_doc (json_object kvs)"
proof -
  assume "''properties'' \<notin> fst ` set kvs"
  then have "map_of (rev kvs) ''properties'' = None" by (simp add: map_of_eq_None_iff)
  then have "bt_get (fold (\<lambda>(k, v). bt_insert k v) kvs []) ''properties'' = None"
    using jget_json_object [of kvs "''properties''"] by (simp add: json_object_def)
  moreover have "bt_wf (fold (\<lambda>(k, v). bt_insert k v) kvs [])" by (rule bt.wf_fold_ins) simp
  ultimately show ?thesis by (simp add: fresh_doc_def json_object_def)
qed

lemma fresh_vertex [simp]:
  "fresh_doc (scoped_resource_vertex sha scope r)" "fresh_doc (literal_vertex sha v dt lang)"
  by (cases r; auto simp: literal_vertex_def opt_field_def scoped_resource_vertex.simps intro!: fresh_json_object split: option.splits)+

section \<open>The graph of a list of statements\<close>

definition at_place :: "placement \<Rightarrow> string \<times> string" where
  "at_place p = (pl_collection p, pl_key p)"

definition resource_doc :: "(bytes \<Rightarrow> bytes) \<Rightarrow> rdf_options \<Rightarrow> rdf_resource \<Rightarrow> (string \<times> string) \<times> json" where
  "resource_doc sha opts r =
     (at_place (resource_placement sha opts r), scoped_resource_vertex sha (ro_blank_scope opts) r)"

text \<open>The object's place, if the model gives it one: a literal may be dropped or kept as a property.\<close>

definition object_doc ::
  "(bytes \<Rightarrow> bytes) \<Rightarrow> rdf_options \<Rightarrow> rdf_term \<Rightarrow> (placement \<times> json) option"
where
  "object_doc sha opts x = (case x of
     IriTerm i \<Rightarrow> Some (resource_placement sha opts (Iri i), scoped_resource_vertex sha (ro_blank_scope opts) (Iri i))
   | BlankTerm l \<Rightarrow>
       Some (resource_placement sha opts (BlankNode l), scoped_resource_vertex sha (ro_blank_scope opts) (BlankNode l))
   | Literal v dt lang \<Rightarrow>
       if ro_graph_model opts = Rpt \<or> ro_literal_policy opts = Materialize
       then Some (literal_placement sha opts v dt lang, literal_vertex sha v dt lang) else None)"

definition mentions :: "(bytes \<Rightarrow> bytes) \<Rightarrow> rdf_options \<Rightarrow> rdf_triple \<Rightarrow> ((string \<times> string) \<times> json) list" where
  "mentions sha opts t = resource_doc sha opts (tr_subject t)
     # (case object_doc sha opts (tr_object t) of Some (p, d) \<Rightarrow> [(at_place p, d)] | None \<Rightarrow> [])"

definition properties_of ::
  "(bytes \<Rightarrow> bytes) \<Rightarrow> rdf_options \<Rightarrow> rdf_triple \<Rightarrow> ((string \<times> string) \<times> string \<times> string) list"
where
  "properties_of sha opts t = (case tr_object t of
     Literal v dt lang \<Rightarrow>
       if ro_graph_model opts = Pgt \<and> ro_literal_policy opts = VertexProperty
       then [(at_place (resource_placement sha opts (tr_subject t)), utf8 (tr_predicate t), utf8 v)] else []
   | _ \<Rightarrow> [])"

definition edges_of :: "(bytes \<Rightarrow> bytes) \<Rightarrow> rdf_options \<Rightarrow> rdf_triple \<Rightarrow> built_edge list" where
  "edges_of sha opts t = (case object_doc sha opts (tr_object t) of
     Some (p, d) \<Rightarrow> [\<lparr>be_collection = edge_collection_for sha opts (tr_graph t),
       be_document = edge_document sha (resource_placement sha opts (tr_subject t)) p (tr_predicate t)
         (edge_graph opts (tr_graph t))\<rparr>]
   | None \<Rightarrow> [])"

text \<open>
  The vertex at a place: the document of the first mention of the place, with the literal
  properties that statements about it give, a later one in place of an earlier of the same name.
\<close>

definition place_properties ::
  "(bytes \<Rightarrow> bytes) \<Rightarrow> rdf_options \<Rightarrow> rdf_triple list \<Rightarrow> string \<times> string \<Rightarrow> (string \<times> string) list"
where
  "place_properties sha opts ts ck = map snd (filter (\<lambda>p. fst p = ck) (concat (map (properties_of sha opts) ts)))"

definition first_mention ::
  "(bytes \<Rightarrow> bytes) \<Rightarrow> rdf_options \<Rightarrow> rdf_triple list \<Rightarrow> string \<times> string \<Rightarrow> json option"
where
  "first_mention sha opts ts ck = map_of (concat (map (mentions sha opts) ts)) ck"

definition graph_vertex ::
  "(bytes \<Rightarrow> bytes) \<Rightarrow> rdf_options \<Rightarrow> rdf_triple list \<Rightarrow> string \<times> string \<Rightarrow> json option"
where
  "graph_vertex sha opts ts ck =
     map_option (with_properties (place_properties sha opts ts ck)) (first_mention sha opts ts ck)"

definition graph_edges :: "(bytes \<Rightarrow> bytes) \<Rightarrow> rdf_options \<Rightarrow> rdf_triple list \<Rightarrow> built_edge list" where
  "graph_edges sha opts ts = concat (map (edges_of sha opts) ts)"

lemma object_doc_fresh: "object_doc sha opts x = Some (p, d) \<Longrightarrow> fresh_doc d"
  by (auto simp: object_doc_def split: rdf_term.splits if_splits)

lemma graph_append [simp]:
  "place_properties sha opts (ts @ us) ck = place_properties sha opts ts ck @ place_properties sha opts us ck"
  "first_mention sha opts (ts @ us) ck =
    (case first_mention sha opts ts ck of Some d \<Rightarrow> Some d | None \<Rightarrow> first_mention sha opts us ck)"
  by (auto simp: place_properties_def first_mention_def map_add_def split: option.splits)

lemma mentions_fresh: "first_mention sha opts ts ck = Some d \<Longrightarrow> fresh_doc d"
  by (auto dest!: map_of_SomeD simp: first_mention_def mentions_def resource_doc_def split: option.splits)
    (metis object_doc_fresh)

lemma unmentioned_properties:
  assumes "first_mention sha opts ts ck = None"
  shows "place_properties sha opts ts ck = []"
proof -
  have "fst p \<noteq> ck" if p: "p \<in> set (concat (map (properties_of sha opts) ts))" for p
  proof -
    obtain t where "t \<in> set ts" "p \<in> set (properties_of sha opts t)"
      using p unfolding set_concat set_map by blast
    then have "fst p \<in> fst ` set (concat (map (mentions sha opts) ts))"
      by (force simp: properties_of_def mentions_def resource_doc_def split: rdf_term.splits if_splits)
    then show ?thesis using assms by (auto simp: first_mention_def map_of_eq_None_iff)
  qed
  then show ?thesis by (simp add: place_properties_def filter_empty_conv)
qed

definition shows_graph ::
  "(bytes \<Rightarrow> bytes) \<Rightarrow> rdf_options \<Rightarrow> rdf_triple list \<Rightarrow> doc_store \<Rightarrow> bool"
where
  "shows_graph sha opts ts vs \<longleftrightarrow> store_wf vs \<and> (\<forall>ck. look_doc vs ck = graph_vertex sha opts ts ck)"

text \<open>Statements without literal properties only add what is not there.\<close>

lemma graph_vertex_no_property:
  assumes "place_properties sha opts [t] ck = []"
  shows "graph_vertex sha opts (ts @ [t]) ck =
    (case graph_vertex sha opts ts ck of Some d \<Rightarrow> Some d | None \<Rightarrow> first_mention sha opts [t] ck)"
  using assms unmentioned_properties [of sha opts ts ck]
  by (cases "first_mention sha opts ts ck") (simp_all add: graph_vertex_def option.map_ident)

lemma look_store_vertex [simp]:
  "store_wf vs \<Longrightarrow> look_doc (store_vertex p d vs) ck =
    (case look_doc vs ck of Some e \<Rightarrow> Some e | None \<Rightarrow> if ck = at_place p then Some d else None)"
  "store_wf vs \<Longrightarrow> store_wf (store_vertex p d vs)"
  by (auto simp: store_vertex_def at_place_def split: option.splits)

text \<open>One triple: the store follows the graph, the edge is the graph's, and nothing panics.\<close>

lemma fold_triple_object:
  assumes "object_doc sha opts (tr_object t) = Some (p, d)"
  shows "fold_triple sha opts t vs = Some (Some (hd (edges_of sha opts t)),
    store_vertex p d (store_vertex (resource_placement sha opts (tr_subject t))
      (scoped_resource_vertex sha (ro_blank_scope opts) (tr_subject t)) vs))"
  using assms by (auto simp: fold_triple_def object_doc_def edges_of_def Let_def split: rdf_term.splits if_splits)

lemma fold_triple_shows:
  assumes "shows_graph sha opts ts vs"
  shows "\<exists>vs'. fold_triple sha opts t vs =
      Some (case edges_of sha opts t of [] \<Rightarrow> None | e # _ \<Rightarrow> Some e, vs') \<and> shows_graph sha opts (ts @ [t]) vs'"
proof -
  let ?p = "resource_placement sha opts (tr_subject t)"
  let ?d = "scoped_resource_vertex sha (ro_blank_scope opts) (tr_subject t)"
  let ?vs = "store_vertex ?p ?d vs"
  have wf: "store_wf vs" and look: "look_doc vs ck = graph_vertex sha opts ts ck" for ck
    using assms unfolding shows_graph_def by blast+
  show ?thesis
  proof (cases "object_doc sha opts (tr_object t)")
    case (Some pd)
    obtain p d where pd: "pd = (p, d)" by fastforce
    have "place_properties sha opts [t] ck = []" for ck
      using Some by (auto simp: place_properties_def properties_of_def object_doc_def split: rdf_term.splits if_splits)
    moreover have "first_mention sha opts [t] ck =
        (if ck = at_place ?p then Some ?d else if ck = at_place p then Some d else None)" for ck
      using Some pd by (auto simp: first_mention_def mentions_def resource_doc_def)
    ultimately have "shows_graph sha opts (ts @ [t]) (store_vertex p d ?vs)"
      using wf look by (auto simp: shows_graph_def graph_vertex_no_property split: option.splits)
    moreover have "edges_of sha opts t \<noteq> []" using Some pd by (simp add: edges_of_def)
    ultimately show ?thesis
      using fold_triple_object [of sha opts t p d vs] Some pd by (cases "edges_of sha opts t") simp_all
  next
    case None
    then obtain v dt lang where lit: "tr_object t = Literal v dt lang"
      and pgt: "ro_graph_model opts = Pgt" "ro_literal_policy opts \<noteq> Materialize"
      by (cases "tr_object t"; cases "ro_graph_model opts") (auto simp: object_doc_def split: if_splits)
    have m: "first_mention sha opts [t] ck = (if ck = at_place ?p then Some ?d else None)" for ck
      using None by (auto simp: first_mention_def mentions_def resource_doc_def)
    have e: "edges_of sha opts t = []" using None by (simp add: edges_of_def)
    show ?thesis
    proof (cases "ro_literal_policy opts = VertexProperty")
      case False
      then have "place_properties sha opts [t] ck = []" for ck
        using lit by (simp add: place_properties_def properties_of_def)
      then have "shows_graph sha opts (ts @ [t]) ?vs"
        using wf look m by (auto simp: shows_graph_def graph_vertex_no_property split: option.splits)
      moreover have "ro_literal_policy opts = NoLiterals" using False pgt by (cases "ro_literal_policy opts") simp_all
      ultimately show ?thesis using lit pgt e by (simp add: fold_triple_def Let_def)
    next
      case True
      let ?ps = "place_properties sha opts ts (at_place ?p)" and ?pv = "(utf8 (tr_predicate t), utf8 v)"
      let ?base = "case first_mention sha opts ts (at_place ?p) of Some b \<Rightarrow> b | None \<Rightarrow> ?d"
      have new: "place_properties sha opts [t] ck = (if ck = at_place ?p then [?pv] else [])" for ck
        using lit pgt True by (simp add: place_properties_def properties_of_def)
      have there: "look_doc ?vs (at_place ?p) = Some (with_properties ?ps ?base)"
        using wf look unmentioned_properties [of sha opts ts "at_place ?p"]
        by (auto simp: graph_vertex_def split: option.splits)
      have "fresh_doc ?base" using mentions_fresh [of sha opts ts "at_place ?p"] by (simp split: option.splits)
      note set = set_property_more [OF this, of "utf8 (tr_predicate t)" "utf8 v" ?ps]
      let ?new = "with_properties (?ps @ [?pv]) ?base"
      let ?vs2 = "bt_insert (pl_collection ?p) (bt_insert (pl_key ?p) ?new (collection_docs ?vs (pl_collection ?p))) ?vs"
      have fold: "fold_triple sha opts t vs = Some (None, ?vs2)"
        using lit pgt True there set by (simp add: fold_triple_def Let_def add_property_def at_place_def)
      have wf1: "store_wf ?vs" using wf by simp
      have "store_wf ?vs2" using wf1 by (intro store_wf_put) (simp_all add: store_wf_def)
      moreover have "look_doc ?vs2 ck = graph_vertex sha opts (ts @ [t]) ck" for ck
        using look_put_doc [OF wf1, of "pl_collection ?p" "pl_key ?p" ?new ck] wf look m new
          unmentioned_properties [of sha opts ts ck]
        by (auto simp: at_place_def graph_vertex_def split: option.splits)
      ultimately show ?thesis using fold e by (auto simp: shows_graph_def)
    qed
  qed
qed

section \<open>The whole parse\<close>

fun parsed :: "rdf_triple res list \<Rightarrow> rdf_triple list" where
  "parsed [] = []"
| "parsed (Inl _ # _) = []"
| "parsed (Inr t # rest) = t # parsed rest"

fun first_error :: "rdf_triple res list \<Rightarrow> error option" where
  "first_error [] = None"
| "first_error (Inl e # _) = Some e"
| "first_error (Inr _ # rest) = first_error rest"

definition keyed_edge :: "built_edge \<Rightarrow> (string \<times> string) \<times> json" where
  "keyed_edge e = ((be_collection e, document_key (be_document e)), be_document e)"

definition edge_look :: "built_edge list \<Rightarrow> string \<times> string \<Rightarrow> json option" where
  "edge_look es ck = map_of (map keyed_edge es) ck"

lemma edge_look_append [simp]:
  "edge_look (es @ fs) ck = (case edge_look es ck of Some d \<Rightarrow> Some d | None \<Rightarrow> edge_look fs ck)"
  by (auto simp: edge_look_def map_add_def split: option.splits)

lemma edge_look_single [simp]:
  "edge_look [e] ck = (if ck = (be_collection e, document_key (be_document e)) then Some (be_document e) else None)"
  "edge_look [] ck = None"
  by (auto simp: edge_look_def keyed_edge_def)

lemma graph_edges_append [simp]: "graph_edges sha opts (ts @ us) = graph_edges sha opts ts @ graph_edges sha opts us"
  by (simp add: graph_edges_def)

text \<open>What the state of the parse shows of the statements read; \<open>sent\<close> are the edges the loader has.\<close>

definition parse_shows ::
  "(bytes \<Rightarrow> bytes) \<Rightarrow> rdf_options \<Rightarrow> rdf_triple list \<Rightarrow> parse_out \<Rightarrow> bool"
where
  "parse_shows sha opts ts out \<longleftrightarrow> shows_graph sha opts ts (po_vertices out)
     \<and> po_read out = length ts \<and> po_built out = length (graph_edges sha opts ts)
     \<and> (if ro_named_graph opts = GraphCollection
        then store_wf (po_buffers out) \<and> po_sent out = [] \<and> (\<forall>ck. look_doc (po_buffers out) ck = edge_look (graph_edges sha opts ts) ck)
        else po_buffers out = [] \<and> Sublist.prefix (po_sent out) (map be_document (graph_edges sha opts ts)))"

definition all_sent :: "(bytes \<Rightarrow> bytes) \<Rightarrow> rdf_options \<Rightarrow> rdf_triple list \<Rightarrow> parse_out \<Rightarrow> bool" where
  "all_sent sha opts ts out \<longleftrightarrow>
     ro_named_graph opts = GraphCollection \<or> po_sent out = map be_document (graph_edges sha opts ts)"

lemma parse_start_shows: "parse_shows sha opts [] parse_start" "all_sent sha opts [] parse_start"
  by (simp_all add: parse_shows_def all_sent_def parse_start_def shows_graph_def graph_vertex_def first_mention_def
      graph_edges_def)

lemma edges_of_cases: "edges_of sha opts t = [] \<or> (\<exists>e. edges_of sha opts t = [e])"
  by (auto simp: edges_of_def split: option.splits)

lemma parse_phase_shows:
  assumes "parse_shows sha opts ts out" "all_sent sha opts ts out"
  shows "\<exists>err out' new. parse_phase sha opts stop results out = Some (err, out')
    \<and> Sublist.prefix new (parsed results) \<and> parse_shows sha opts (ts @ new) out'
    \<and> (stop = None \<longrightarrow> new = parsed results \<and> err = first_error results \<and> all_sent sha opts (ts @ new) out')"
  using assms
proof (induction sha opts stop results out arbitrary: ts rule: parse_phase.induct)
  case (1 sha opts stop out)
  then show ?case by (intro exI [of _ None] exI [of _ out] exI [of _ "[]"]) simp
next
  case (2 sha opts stop err rest out)
  then show ?case by (intro exI [of _ "Some err"] exI [of _ out] exI [of _ "[]"]) simp
next
  case (3 sha opts stop t rest out)
  let ?out1 = "out\<lparr>po_read := po_read out + 1\<rparr>"
  have "shows_graph sha opts ts (po_vertices ?out1)" using 3(4) by (simp add: parse_shows_def)
  then obtain vs where fold: "fold_triple sha opts t (po_vertices ?out1) =
      Some (case edges_of sha opts t of [] \<Rightarrow> None | e # _ \<Rightarrow> Some e, vs)" and vs: "shows_graph sha opts (ts @ [t]) vs"
    using fold_triple_shows by blast
  have step: ?case
    if go: "parse_phase sha opts stop (Inr t # rest) out = parse_phase sha opts stop rest out2"
      and inv: "parse_shows sha opts (ts @ [t]) out2" "all_sent sha opts (ts @ [t]) out2"
      and IH: "\<And>us. parse_shows sha opts us out2 \<Longrightarrow> all_sent sha opts us out2 \<Longrightarrow>
        \<exists>err out' new. parse_phase sha opts stop rest out2 = Some (err, out')
          \<and> Sublist.prefix new (parsed rest) \<and> parse_shows sha opts (us @ new) out'
          \<and> (stop = None \<longrightarrow> new = parsed rest \<and> err = first_error rest \<and> all_sent sha opts (us @ new) out')" for out2
  proof -
    obtain err out' new where r: "parse_phase sha opts stop rest out2 = Some (err, out')"
      "Sublist.prefix new (parsed rest)" "parse_shows sha opts ((ts @ [t]) @ new) out'"
      "stop = None \<longrightarrow> new = parsed rest \<and> err = first_error rest \<and> all_sent sha opts ((ts @ [t]) @ new) out'"
      using IH [OF inv] by blast
    show ?thesis
      using r go
      by (intro exI [of _ err] exI [of _ out'] exI [of _ "t # new"]) (auto simp del: parse_phase.simps)
  qed
  show ?case
  proof (cases "edges_of sha opts t")
    case Nil
    let ?out2 = "?out1\<lparr>po_vertices := vs\<rparr>"
    have e: "graph_edges sha opts (ts @ [t]) = graph_edges sha opts ts" using Nil by (simp add: graph_edges_def)
    show ?thesis
    proof (rule step)
      show "parse_phase sha opts stop (Inr t # rest) out = parse_phase sha opts stop rest ?out2"
        using fold Nil by simp
      show "parse_shows sha opts (ts @ [t]) ?out2" using 3(4) vs by (simp add: parse_shows_def e del: graph_edges_append)
      show "all_sent sha opts (ts @ [t]) ?out2" using 3(5) by (simp add: all_sent_def e del: graph_edges_append)
    qed (use 3(1) fold Nil in simp)
  next
    case (Cons e es)
    let ?out2 = "?out1\<lparr>po_vertices := vs, po_built := po_built ?out1 + 1\<rparr>"
    have e: "graph_edges sha opts (ts @ [t]) = graph_edges sha opts ts @ [e]"
      using Cons edges_of_cases [of sha opts t] by (auto simp: graph_edges_def)
    show ?thesis
    proof (cases "ro_named_graph opts = GraphCollection")
      case True
      let ?out3 = "?out2\<lparr>po_buffers := buffer_doc (be_collection e) (be_document e) (po_buffers ?out2)\<rparr>"
      show ?thesis
      proof (rule step)
        show "parse_phase sha opts stop (Inr t # rest) out = parse_phase sha opts stop rest ?out3"
          using fold Cons True by (simp add: Let_def)
        show "parse_shows sha opts (ts @ [t]) ?out3"
          using 3(4) vs True by (auto simp: parse_shows_def e buffer_doc_def split: option.splits simp del: graph_edges_append)
        show "all_sent sha opts (ts @ [t]) ?out3" using True by (simp add: all_sent_def)
      qed (use 3(2) fold Cons True in \<open>simp add: Let_def\<close>)
    next
      case False
      have sent: "po_sent out = map be_document (graph_edges sha opts ts)" using 3(5) False by (simp add: all_sent_def)
      show ?thesis
      proof (cases "stop = Some (length (po_sent ?out2))")
        case True
        have "parse_shows sha opts (ts @ [t]) ?out2"
          using 3(4) vs False sent by (auto simp: parse_shows_def e simp del: graph_edges_append)
        moreover have "parse_phase sha opts stop (Inr t # rest) out = Some (None, ?out2)"
          using fold Cons False True by (simp add: Let_def)
        ultimately show ?thesis using True
          by (intro exI [of _ None] exI [of _ ?out2] exI [of _ "[t]"]) simp
      next
        case more: False
        let ?out3 = "?out2\<lparr>po_sent := po_sent ?out2 @ [be_document e]\<rparr>"
        show ?thesis
        proof (rule step)
          show "parse_phase sha opts stop (Inr t # rest) out = parse_phase sha opts stop rest ?out3"
            using fold Cons False more by (simp add: Let_def)
          show "parse_shows sha opts (ts @ [t]) ?out3"
            using 3(4) vs False sent by (auto simp: parse_shows_def e simp del: graph_edges_append)
          show "all_sent sha opts (ts @ [t]) ?out3"
            using sent by (simp add: all_sent_def e del: graph_edges_append)
        qed (use 3(3) fold Cons False more in \<open>simp add: Let_def\<close>)
      qed
    qed
  qed
qed

lemma parse_runs:
  "\<exists>err out new. parse_phase sha opts stop results parse_start = Some (err, out)
    \<and> Sublist.prefix new (parsed results) \<and> parse_shows sha opts new out
    \<and> (stop = None \<longrightarrow> new = parsed results \<and> err = first_error results \<and> all_sent sha opts new out)"
  using parse_phase_shows [OF parse_start_shows, of sha opts stop results] by (simp only: append_Nil)

lemma vertex_key:
  "document_key (scoped_resource_vertex sha scope r) = scoped_resource_key sha scope r"
  "document_key (literal_vertex sha v dt lang) = literal_key sha v dt lang"
  by (cases r; simp add: document_key_def scoped_resource_vertex.simps literal_vertex_def jget_json_object
      opt_field_def split: option.splits)+

lemma mentions_key: "(ck, d) \<in> set (mentions sha opts t) \<Longrightarrow> document_key d = snd ck"
  by (auto simp: mentions_def resource_doc_def object_doc_def vertex_key at_place_def resource_placement_def
      literal_placement_def split: option.splits rdf_term.splits if_splits)

lemma with_properties_key: "fresh_doc d \<Longrightarrow> document_key (with_properties ps d) = document_key d"
  by (auto simp: fresh_doc_def with_properties_def document_key_def)

lemma graph_vertex_key: "graph_vertex sha opts ts ck = Some d \<Longrightarrow> document_key d = snd ck"
proof -
  assume "graph_vertex sha opts ts ck = Some d"
  then obtain b where b: "first_mention sha opts ts ck = Some b" "d = with_properties (place_properties sha opts ts ck) b"
    by (auto simp: graph_vertex_def)
  then have "document_key b = snd ck"
    by (auto dest!: map_of_SomeD simp: first_mention_def intro: mentions_key)
  then show ?thesis using b mentions_fresh [OF b(1)] by (simp add: with_properties_key)
qed

lemma mentioned_vertex:
  assumes "t \<in> set ts" "ck \<in> fst ` set (mentions sha opts t)"
  shows "\<exists>d. graph_vertex sha opts ts ck = Some d"
proof -
  have "first_mention sha opts ts ck \<noteq> None"
    using assms by (auto simp: first_mention_def map_of_eq_None_iff)
  then show ?thesis by (auto simp: graph_vertex_def)
qed

definition anchored :: "(string \<times> string \<Rightarrow> json option) \<Rightarrow> json \<Rightarrow> bool" where
  "anchored look e \<longleftrightarrow> (\<exists>a b va vb.
     jget e ''_from'' = Some (JString (placement_id a)) \<and> look (at_place a) = Some va \<and> document_key va = pl_key a
     \<and> jget e ''_to'' = Some (JString (placement_id b)) \<and> look (at_place b) = Some vb \<and> document_key vb = pl_key b)"

lemma graph_edges_anchored:
  assumes "e \<in> set (graph_edges sha opts ts)"
  shows "anchored (graph_vertex sha opts ts) (be_document e)"
proof -
  obtain t where t: "t \<in> set ts" "e \<in> set (edges_of sha opts t)" using assms by (auto simp: graph_edges_def)
  then obtain p d where p: "object_doc sha opts (tr_object t) = Some (p, d)"
    by (cases "object_doc sha opts (tr_object t)") (auto simp: edges_of_def)
  let ?s = "resource_placement sha opts (tr_subject t)"
  have e: "be_document e = edge_document sha ?s p (tr_predicate t) (edge_graph opts (tr_graph t))"
    using t p by (simp add: edges_of_def)
  have ends: "jget (be_document e) ''_from'' = Some (JString (placement_id ?s))"
    "jget (be_document e) ''_to'' = Some (JString (placement_id p))"
    by (auto simp: e edge_document_def jget_json_object opt_field_def split: option.splits)
  have "{at_place ?s, at_place p} \<subseteq> fst ` set (mentions sha opts t)"
    using p by (simp add: mentions_def resource_doc_def)
  then obtain va vb where v: "graph_vertex sha opts ts (at_place ?s) = Some va"
    "graph_vertex sha opts ts (at_place p) = Some vb"
    using mentioned_vertex [OF t(1), of "at_place ?s" sha opts] mentioned_vertex [OF t(1), of "at_place p" sha opts]
    by auto
  have "document_key va = pl_key ?s" "document_key vb = pl_key p"
    using graph_vertex_key [OF v(1)] graph_vertex_key [OF v(2)] by (simp_all add: at_place_def)
  then show ?thesis unfolding anchored_def using ends v by blast
qed

section \<open>Properties\<close>

text \<open>
  C26: the vertex and edge buffers of a parse are the graph of the statements read: the
  operations on the nested maps refine a map from places to documents, whose value at a place
  is the vertex first mentioned there with the literal properties given to it.  The parse never
  panics, and reads everything up to the first malformed statement unless the loader stops.
\<close>

theorem rdf_graph_refined:
  "\<exists>err out new. parse_phase sha opts stop results parse_start = Some (err, out)
    \<and> Sublist.prefix new (parsed results) \<and> po_read out = length new
    \<and> po_built out = length (graph_edges sha opts new)
    \<and> look_doc (po_vertices out) = graph_vertex sha opts new
    \<and> (ro_named_graph opts = GraphCollection \<longrightarrow> look_doc (po_buffers out) = edge_look (graph_edges sha opts new))
    \<and> (ro_named_graph opts \<noteq> GraphCollection \<longrightarrow>
        Sublist.prefix (po_sent out) (map be_document (graph_edges sha opts new)))
    \<and> (stop = None \<longrightarrow> new = parsed results \<and> err = first_error results \<and> all_sent sha opts new out)"
proof -
  obtain err out new where r: "parse_phase sha opts stop results parse_start = Some (err, out)"
    "Sublist.prefix new (parsed results)" "parse_shows sha opts new out"
    "stop = None \<longrightarrow> new = parsed results \<and> err = first_error results \<and> all_sent sha opts new out"
    using parse_runs [of sha opts stop results] by (elim exE conjE) (rule that; assumption)
  have "look_doc (po_vertices out) = graph_vertex sha opts new"
    using r(3) unfolding parse_shows_def shows_graph_def by blast
  moreover have "ro_named_graph opts = GraphCollection \<longrightarrow> look_doc (po_buffers out) = edge_look (graph_edges sha opts new)"
    using r(3) unfolding parse_shows_def by (simp add: fun_eq_iff)
  moreover have "ro_named_graph opts \<noteq> GraphCollection \<longrightarrow>
      Sublist.prefix (po_sent out) (map be_document (graph_edges sha opts new))"
    "po_read out = length new" "po_built out = length (graph_edges sha opts new)"
    using r(3) by (simp_all add: parse_shows_def)
  ultimately show ?thesis using r(1,2,4) by blast
qed

text \<open>
  C27: no edge dangles: whatever is read and wherever the parse stops, both ends of every edge
  handed to the loader or buffered are vertices of the store, at the collection and under the
  key that the edge names.
\<close>

theorem rdf_edges_anchored:
  assumes "parse_phase sha opts stop results parse_start = Some (err, out)"
    and "e \<in> set (po_sent out) \<or> look_doc (po_buffers out) ck = Some e"
  shows "anchored (look_doc (po_vertices out)) e"
proof -
  obtain new where r: "parse_shows sha opts new out"
    using parse_runs [of sha opts stop results] assms(1) by (elim exE conjE) simp
  have look: "look_doc (po_vertices out) = graph_vertex sha opts new"
    using r unfolding parse_shows_def shows_graph_def by blast
  have "e \<in> be_document ` set (graph_edges sha opts new)"
  proof (cases "ro_named_graph opts = GraphCollection")
    case True
    then have "edge_look (graph_edges sha opts new) ck = Some e"
      using r assms(2) by (cases ck) (simp add: parse_shows_def)
    then show ?thesis by (auto simp: edge_look_def keyed_edge_def dest!: map_of_SomeD)
  next
    case False
    then have "e \<in> set (po_sent out)" "Sublist.prefix (po_sent out) (map be_document (graph_edges sha opts new))"
      using r assms(2) by (auto simp: parse_shows_def)
    then show ?thesis using set_mono_prefix by fastforce
  qed
  then show ?thesis using graph_edges_anchored by (auto simp: look)
qed

text \<open>A server is not needed to run a parse; the hash is a stand-in that drops the domain of a key.\<close>

definition tiny_rdf :: "rdf_literal_policy \<Rightarrow> rdf_options" where
  "tiny_rdf policy = (rdf_options_new ''n'' ''e'')\<lparr>ro_literal_policy := policy\<rparr>"

definition tiny_triples :: "rdf_triple list" where
  "tiny_triples =
     [\<lparr>tr_subject = Iri (cps ''s''), tr_predicate = cps ''p'', tr_object = BlankTerm (cps ''b''), tr_graph = None\<rparr>,
      \<lparr>tr_subject = Iri (cps ''s''), tr_predicate = cps ''q'', tr_object = Literal (cps ''v'') None None, tr_graph = None\<rparr>]"

lemma rdf_graph_refined_witness:
  "\<exists>out. parse_phase (drop 8) (tiny_rdf VertexProperty) None (map Inr tiny_triples @ [Inl (Config ''bad'')]) parse_start
      = Some (Some (Config ''bad''), out)
    \<and> look_doc (po_vertices out) = graph_vertex (drop 8) (tiny_rdf VertexProperty) tiny_triples
    \<and> po_sent out = map be_document (graph_edges (drop 8) (tiny_rdf VertexProperty) tiny_triples)"
proof -
  let ?opts = "tiny_rdf VertexProperty" and ?in = "map Inr tiny_triples @ [Inl (Config ''bad'')]"
  have p: "parsed ?in = tiny_triples" "first_error ?in = Some (Config ''bad'')"
    by (simp_all add: tiny_triples_def)
  obtain err out new where r: "parse_phase (drop 8) ?opts None ?in parse_start = Some (err, out)"
    "look_doc (po_vertices out) = graph_vertex (drop 8) ?opts new"
    "new = parsed ?in" "err = first_error ?in" "all_sent (drop 8) ?opts new out"
    using rdf_graph_refined [of "drop 8" ?opts None ?in] by (elim exE conjE) (rule that; simp)
  moreover have "ro_named_graph ?opts \<noteq> GraphCollection" by (simp add: tiny_rdf_def rdf_options_new_def)
  ultimately show ?thesis unfolding p by (intro exI [of _ out]) (simp add: all_sent_def)
qed

lemma rdf_edges_anchored_witness:
  "case parse_phase (drop 8) (tiny_rdf NoLiterals) None (map Inr tiny_triples) parse_start of
     Some (_, out) \<Rightarrow> length (po_sent out) = 1 \<and> anchored (look_doc (po_vertices out)) (hd (po_sent out))
   | None \<Rightarrow> False"
proof -
  have "case parse_phase (drop 8) (tiny_rdf NoLiterals) None (map Inr tiny_triples) parse_start of
     Some (_, out) \<Rightarrow> length (po_sent out) = 1 | None \<Rightarrow> False" by code_simp
  then obtain err out where r: "parse_phase (drop 8) (tiny_rdf NoLiterals) None (map Inr tiny_triples) parse_start
      = Some (err, out)" "length (po_sent out) = 1"
    by (auto split: option.splits)
  then have "hd (po_sent out) \<in> set (po_sent out)" by (cases "po_sent out") simp_all
  then show ?thesis using rdf_edges_anchored [OF r(1) disjI1] r by simp
qed

section \<open>Keys of statements\<close>

definition statement_inputs :: "(bytes \<Rightarrow> bytes) \<Rightarrow> rdf_options \<Rightarrow> rdf_triple \<Rightarrow> bytes set" where
  "statement_inputs sha opts t =
     {term_input (ro_blank_scope opts) (resource_term (tr_subject t)), term_input (ro_blank_scope opts) (tr_object t)}
     \<union> (case object_doc sha opts (tr_object t) of None \<Rightarrow> {}
        | Some (p, d) \<Rightarrow> {key_input ''rdf:edge'' ([placement_id (resource_placement sha opts (tr_subject t)),
             utf8 (tr_predicate t), placement_id p]
             @ (case edge_graph opts (tr_graph t) of None \<Rightarrow> [] | Some g \<Rightarrow> [utf8 g]))})"

definition statement_plain :: "rdf_triple \<Rightarrow> bool" where
  "statement_plain t \<longleftrightarrow> term_plain (resource_term (tr_subject t)) \<and> plain (tr_predicate t)
     \<and> term_plain (tr_object t) \<and> (case tr_graph t of None \<Rightarrow> True | Some g \<Rightarrow> plain g)"

lemma placement_key_eq:
  assumes "placement_id \<lparr>pl_collection = c, pl_key = hex_bytes a\<rparr> = placement_id \<lparr>pl_collection = d, pl_key = hex_bytes b\<rparr>"
  shows "a = b"
proof -
  have "rev (hex_bytes a) @ CHR ''/'' # rev c = rev (hex_bytes b) @ CHR ''/'' # rev d"
    using arg_cong [OF assms, of rev] by (simp add: placement_id_def)
  then have "rev (hex_bytes a) = rev (hex_bytes b)"
    by (rule split_once_unique [THEN conjunct1]) (use hex_bytes_chars in auto)
  then show ?thesis using hex_bytes_inj by simp
qed

lemma resource_place:
  obtains c where "resource_placement sha opts r
     = \<lparr>pl_collection = c, pl_key = hex_bytes (sha (term_input (ro_blank_scope opts) (resource_term r)))\<rparr>"
   "CHR 0x00 \<notin> set (ro_vertex_collection opts) \<Longrightarrow> CHR 0x00 \<notin> set c"
proof
  show "resource_placement sha opts r = \<lparr>pl_collection = pl_collection (resource_placement sha opts r),
      pl_key = hex_bytes (sha (term_input (ro_blank_scope opts) (resource_term r)))\<rparr>"
    by (simp add: resource_placement_def resource_key_input)
qed (simp add: resource_placement_def split: graph_model.splits rdf_resource.splits)

lemma object_place:
  assumes "object_doc sha opts x = Some (p, d)"
  obtains c where "p = \<lparr>pl_collection = c, pl_key = hex_bytes (sha (term_input (ro_blank_scope opts) x))\<rparr>"
   "CHR 0x00 \<notin> set (ro_vertex_collection opts) \<Longrightarrow> CHR 0x00 \<notin> set c"
proof (cases x)
  case (IriTerm i)
  then show ?thesis using assms that resource_place [of sha opts "Iri i"] by (auto simp: object_doc_def)
next
  case (BlankTerm l)
  then show ?thesis using assms that resource_place [of sha opts "BlankNode l"] by (auto simp: object_doc_def)
next
  case (Literal v dt lang)
  then have "p = literal_placement sha opts v dt lang" using assms by (auto simp: object_doc_def split: if_splits)
  then show ?thesis
    using that [of "pl_collection p"] Literal literal_key_input [of sha v dt lang "ro_blank_scope opts"]
    by (simp add: literal_placement_def split: graph_model.splits)
qed

lemma hex_no_zero: "CHR 0x00 \<notin> set (hex_bytes b)"
  using hex_bytes_chars by blast

lemma same_key_same_statement:
  assumes "ro_named_graph opts \<noteq> GraphIgnore" "statement_plain s" "statement_plain t"
    and "CHR 0x00 \<notin> set (ro_vertex_collection opts)" "\<forall>x. ro_blank_scope opts = Some x \<longrightarrow> CHR 0x00 \<notin> set x"
    and "inj_on sha (statement_inputs sha opts s \<union> statement_inputs sha opts t)"
    and "edges_of sha opts s = [e]" "edges_of sha opts t = [f]"
    and "document_key (be_document e) = document_key (be_document f)"
  shows "tr_subject s = tr_subject t \<and> tr_predicate s = tr_predicate t
    \<and> key_term (tr_object s) = key_term (tr_object t) \<and> tr_graph s = tr_graph t"
proof -
  let ?scope = "ro_blank_scope opts" and ?subj = "\<lambda>u. resource_placement sha opts (tr_subject u)"
  let ?graph = "\<lambda>u. case tr_graph u of None \<Rightarrow> [] | Some g \<Rightarrow> [utf8 g]"
  let ?parts = "\<lambda>u p. [placement_id (?subj u), utf8 (tr_predicate u), placement_id p] @ ?graph u"
  obtain p d where p: "object_doc sha opts (tr_object s) = Some (p, d)"
    using assms(7) by (cases "object_doc sha opts (tr_object s)") (auto simp: edges_of_def)
  obtain q d' where q: "object_doc sha opts (tr_object t) = Some (q, d')"
    using assms(8) by (cases "object_doc sha opts (tr_object t)") (auto simp: edges_of_def)
  have g: "edge_graph opts x = x" for x using assms(1) by (simp add: edge_graph_def split: named_graph_mode.splits)
  have key: "document_key (edge_document sha (?subj u) x (tr_predicate u) (tr_graph u))
      = hex_bytes (sha (key_input ''rdf:edge'' (?parts u x)))" for u x
    by (auto simp: edge_document_def document_key_def jget_json_object opt_field_def edge_key_def hash_key_def
        split: option.splits)
  have ins: "key_input ''rdf:edge'' (?parts s p) \<in> statement_inputs sha opts s"
    "key_input ''rdf:edge'' (?parts t q) \<in> statement_inputs sha opts t"
    by (simp_all add: statement_inputs_def p q g)
  have "sha (key_input ''rdf:edge'' (?parts s p)) = sha (key_input ''rdf:edge'' (?parts t q))"
  proof (rule hex_bytes_inj)
    have "be_document e = edge_document sha (?subj s) p (tr_predicate s) (tr_graph s)"
      "be_document f = edge_document sha (?subj t) q (tr_predicate t) (tr_graph t)"
      using assms(7,8) by (auto simp: edges_of_def p q g)
    then show "hex_bytes (sha (key_input ''rdf:edge'' (?parts s p))) = hex_bytes (sha (key_input ''rdf:edge'' (?parts t q)))"
      using assms(9) by (simp only: key)
  qed
  then have eq: "key_input ''rdf:edge'' (?parts s p) = key_input ''rdf:edge'' (?parts t q)"
    using inj_onD [OF assms(6)] ins by blast
  obtain cs where cs: "?subj s = \<lparr>pl_collection = cs, pl_key = hex_bytes (sha (term_input ?scope (resource_term (tr_subject s))))\<rparr>"
    "CHR 0x00 \<notin> set cs" using resource_place assms(4) by metis
  obtain ct where ct: "?subj t = \<lparr>pl_collection = ct, pl_key = hex_bytes (sha (term_input ?scope (resource_term (tr_subject t))))\<rparr>"
    "CHR 0x00 \<notin> set ct" using resource_place assms(4) by metis
  obtain cp where cp: "p = \<lparr>pl_collection = cp, pl_key = hex_bytes (sha (term_input ?scope (tr_object s)))\<rparr>"
    "CHR 0x00 \<notin> set cp" using object_place [OF p] assms(4) by metis
  obtain cq where cq: "q = \<lparr>pl_collection = cq, pl_key = hex_bytes (sha (term_input ?scope (tr_object t)))\<rparr>"
    "CHR 0x00 \<notin> set cq" using object_place [OF q] assms(4) by metis
  have zero: "\<forall>x \<in> set (?parts s p). CHR 0x00 \<notin> set x" "\<forall>x \<in> set (?parts t q). CHR 0x00 \<notin> set x"
    using cs ct cp cq assms(2,3) plain_utf8 hex_no_zero
    by (auto simp: placement_id_def statement_plain_def split: option.splits)
  have parts: "?parts s p = ?parts t q"
    using key_input_inj [OF eq _ _ zero] by simp
  have same: "key_term a = key_term b" if "placement_id \<lparr>pl_collection = c1, pl_key = hex_bytes (sha (term_input ?scope a))\<rparr>
      = placement_id \<lparr>pl_collection = c2, pl_key = hex_bytes (sha (term_input ?scope b))\<rparr>"
    "term_input ?scope a \<in> statement_inputs sha opts s" "term_input ?scope b \<in> statement_inputs sha opts t"
    "term_plain a" "term_plain b" for a b c1 c2
  proof -
    have "term_input ?scope a = term_input ?scope b"
      using placement_key_eq [OF that(1)] inj_onD [OF assms(6)] that(2,3) by blast
    then show ?thesis using term_input_inj [OF _ that(4,5) assms(5)] by blast
  qed
  have "key_term (resource_term (tr_subject s)) = key_term (resource_term (tr_subject t))"
    by (rule same [of cs _ ct]) (use parts cs ct assms(2,3) in \<open>simp_all add: statement_inputs_def statement_plain_def\<close>)
  then have subj: "tr_subject s = tr_subject t" by (cases "tr_subject s"; cases "tr_subject t") simp_all
  have obj: "key_term (tr_object s) = key_term (tr_object t)"
    by (rule same [of cp _ cq]) (use parts cp cq assms(2,3) in \<open>simp_all add: statement_inputs_def statement_plain_def\<close>)
  have "tr_predicate s = tr_predicate t"
    using parts assms(2,3) by (intro plain_inject) (simp_all add: statement_plain_def)
  moreover have "tr_graph s = tr_graph t"
    using parts assms(2,3) by (auto simp: statement_plain_def plain_inject split: option.splits)
  ultimately show ?thesis using subj obj by simp
qed

lemma object_place_key_term: "map_option fst (object_doc sha opts (key_term x)) = map_option fst (object_doc sha opts x)"
  by (cases x) (simp_all add: object_doc_def literal_placement_def literal_key_def unempty_utf8 split: graph_model.split)

text \<open>
  C28: an edge stands for one statement.  Take two statements whose predicates, graphs and terms are
  Unicode text without U+0000, the character that separates the parts of a key, and let the vertex
  collection and the blank scope have none either.  When named graphs are tracked and SHA-256 does
  not collide on what is hashed for the two, their edges have the same key exactly when they are
  the same statement in the same graph, up to one thing: a literal whose datatype or language is
  the empty text counts as one without it, as \<open>"x"^^<>\<close> does for \<open>"x"\<close>.
\<close>

theorem rdf_keys_identify:
  assumes "ro_named_graph opts \<noteq> GraphIgnore" "statement_plain s" "statement_plain t"
    and "CHR 0x00 \<notin> set (ro_vertex_collection opts)" "\<forall>x. ro_blank_scope opts = Some x \<longrightarrow> CHR 0x00 \<notin> set x"
    and "inj_on sha (statement_inputs sha opts s \<union> statement_inputs sha opts t)"
    and "edges_of sha opts s = [e]" "edges_of sha opts t = [f]"
  shows "document_key (be_document e) = document_key (be_document f)
    \<longleftrightarrow> tr_subject s = tr_subject t \<and> tr_predicate s = tr_predicate t
      \<and> key_term (tr_object s) = key_term (tr_object t) \<and> tr_graph s = tr_graph t"
proof
  assume "document_key (be_document e) = document_key (be_document f)"
  then show "tr_subject s = tr_subject t \<and> tr_predicate s = tr_predicate t
      \<and> key_term (tr_object s) = key_term (tr_object t) \<and> tr_graph s = tr_graph t"
    by (rule same_key_same_statement [OF assms])
next
  assume eq: "tr_subject s = tr_subject t \<and> tr_predicate s = tr_predicate t
      \<and> key_term (tr_object s) = key_term (tr_object t) \<and> tr_graph s = tr_graph t"
  then have "map_option fst (object_doc sha opts (tr_object s)) = map_option fst (object_doc sha opts (tr_object t))"
    by (metis object_place_key_term)
  then have "be_document e = be_document f"
    using eq assms(7,8) by (auto simp: edges_of_def split: option.splits)
  then show "document_key (be_document e) = document_key (be_document f)" by simp
qed

text \<open>Two quads that differ in the graph only, two literals, and a hash that is the identity.\<close>

definition tiny_quad :: "rdf_term \<Rightarrow> string \<Rightarrow> rdf_triple" where
  "tiny_quad x g = \<lparr>tr_subject = Iri (cps ''s''), tr_predicate = cps ''p'', tr_object = x, tr_graph = Some (cps g)\<rparr>"

abbreviation tiny_quad_key :: "rdf_term \<Rightarrow> string \<Rightarrow> string" where
  "tiny_quad_key x g \<equiv> document_key (be_document (hd (edges_of id
     ((tiny_rdf Materialize)\<lparr>ro_named_graph := GraphProperty\<rparr>) (tiny_quad x g))))"

lemma rdf_keys_identify_witness:
  "tiny_quad_key (IriTerm (cps ''o'')) ''g'' \<noteq> tiny_quad_key (IriTerm (cps ''o'')) ''h''
   \<and> tiny_quad_key (Literal (cps ''x'') (Some []) None) ''g'' = tiny_quad_key (Literal (cps ''x'') None None) ''g''"
proof -
  let ?opts = "(tiny_rdf Materialize)\<lparr>ro_named_graph := GraphProperty\<rparr>"
  have e: "edges_of id ?opts (tiny_quad x g) = [hd (edges_of id ?opts (tiny_quad x g))]" for x g
    by (cases x) (simp_all add: edges_of_def object_doc_def tiny_quad_def tiny_rdf_def)
  have pl: "statement_plain (tiny_quad (IriTerm (cps ''o'')) ''g'')" "statement_plain (tiny_quad (IriTerm (cps ''o'')) ''h'')"
    "statement_plain (tiny_quad (Literal (cps ''x'') (Some []) None) ''g'')"
    "statement_plain (tiny_quad (Literal (cps ''x'') None None) ''g'')"
    by (simp_all add: statement_plain_def tiny_quad_def plain_def is_scalar_def)
  have opts: "ro_named_graph ?opts \<noteq> GraphIgnore" "CHR 0x00 \<notin> set (ro_vertex_collection ?opts)"
    "\<forall>x. ro_blank_scope ?opts = Some x \<longrightarrow> CHR 0x00 \<notin> set x"
    by (simp_all add: tiny_rdf_def rdf_options_new_def)
  show ?thesis
    using rdf_keys_identify [OF opts(1) pl(1,2) opts(2,3) _ e e]
      rdf_keys_identify [OF opts(1) pl(3,4) opts(2,3) _ e e]
    by (simp add: tiny_quad_def unempty_def)
qed

end
