(* ===== verification/NQuads.thy ===== *)
theory NQuads
  imports Rdf Readers
begin

text \<open>
  The line parser for N-Triples and N-Quads, \<open>parser.rs\<close> of the crate \<open>arangodb-rdf\<close>.  A
  function that advances the index \<open>i\<close> into the characters of a line takes the characters from
  \<open>i\<close> on and returns those after.  The input is the bytes that can be read and, if reading them
  ends in an error, its text.
\<close>

section \<open>Characters\<close>

definition skip_blanks :: "utext \<Rightarrow> utext" where
  "skip_blanks cs = dropWhile (\<lambda>c. c = cp (CHR '' '') \<or> c = cp (CHR 0x09)) cs"

definition starts_with :: "char \<Rightarrow> utext \<Rightarrow> bool" where
  "starts_with x cs = (case cs of [] \<Rightarrow> False | c # _ \<Rightarrow> c = cp x)"

text \<open>\<open>char::to_digit(16)\<close>.\<close>

definition hex_value :: "codepoint \<Rightarrow> nat option" where
  "hex_value c =
     (if cp_digit c then Some (c - 48)
      else if 97 \<le> c \<and> c \<le> 102 then Some (c - 87)
      else if 65 \<le> c \<and> c \<le> 70 then Some (c - 55)
      else None)"

text \<open>\<open>read_hex\<close>: \<open>n\<close> digits; at most eight, so the code stays within 32 bits.\<close>

fun hex_run :: "nat \<Rightarrow> nat \<Rightarrow> utext \<Rightarrow> (nat \<times> utext) res" where
  "hex_run 0 code cs = Inr (code, cs)"
| "hex_run (Suc n) code [] = Inl (Config ''truncated unicode escape'')"
| "hex_run (Suc n) code (c # cs) =
     (case hex_value c of
        None \<Rightarrow> Inl (Config ''invalid hex digit in unicode escape'')
      | Some d \<Rightarrow> hex_run n (code * 16 + d) cs)"

definition read_hex :: "nat \<Rightarrow> utext \<Rightarrow> (codepoint \<times> utext) res" where
  "read_hex n cs = try_res (hex_run n 0 cs) (\<lambda>(code, rest).
     case char_from_u32 code of
       None \<Rightarrow> Inl (Config ''invalid unicode code point in escape'')
     | Some c \<Rightarrow> Inr (c, rest))"

lemma hex_value_less: "hex_value c = Some d \<Longrightarrow> d < 16"
  by (auto simp: hex_value_def cp_digit_def split: if_splits)

lemma hex_run_length: "hex_run n code cs = Inr (v, rest) \<Longrightarrow> length rest \<le> length cs"
  by (induction n code cs rule: hex_run.induct) (auto split: option.splits)

lemma hex_run_bound: "hex_run n code cs = Inr (v, rest) \<Longrightarrow> v < (code + 1) * 16 ^ n"
proof (induction n code cs rule: hex_run.induct)
  case (3 n code c cs)
  then obtain d where d: "hex_value c = Some d" "hex_run n (code * 16 + d) cs = Inr (v, rest)"
    by (auto split: option.splits)
  have "v < (code * 16 + d + 1) * 16 ^ n" using 3(1) [OF d] .
  also have "\<dots> \<le> (code * 16 + 16) * 16 ^ n" using hex_value_less [OF d(1)] by (intro mult_right_mono) simp_all
  finally show ?case by (simp add: algebra_simps)
qed simp_all

lemma read_hex_length: "read_hex n cs = Inr (c, rest) \<Longrightarrow> length rest \<le> length cs"
  by (auto simp: read_hex_def res_simps dest: hex_run_length split: option.splits)

text \<open>\<open>decode_escapes\<close>: the error is that of the first bad escape.\<close>

function decode_from :: "utext \<Rightarrow> utext res" where
  "decode_from [] = Inr []"
| "decode_from (c # cs) =
     (if c \<noteq> cp (CHR 0x5C) then try_res (decode_from cs) (\<lambda>s. Inr (c # s))
      else case cs of
        [] \<Rightarrow> Inl (Config ''dangling escape backslash'')
      | e # rest \<Rightarrow>
          if e = cp (CHR ''t'') then try_res (decode_from rest) (\<lambda>s. Inr (9 # s))
          else if e = cp (CHR ''b'') then try_res (decode_from rest) (\<lambda>s. Inr (8 # s))
          else if e = cp (CHR ''n'') then try_res (decode_from rest) (\<lambda>s. Inr (10 # s))
          else if e = cp (CHR ''r'') then try_res (decode_from rest) (\<lambda>s. Inr (13 # s))
          else if e = cp (CHR ''f'') then try_res (decode_from rest) (\<lambda>s. Inr (12 # s))
          else if e = cp (CHR 0x22) \<or> e = cp (CHR 0x27) \<or> e = cp (CHR 0x5C)
            then try_res (decode_from rest) (\<lambda>s. Inr (e # s))
          else if e = cp (CHR ''u'') then
            (case read_hex 4 rest of
               Inl err \<Rightarrow> Inl err
             | Inr (x, rest1) \<Rightarrow> try_res (decode_from rest1) (\<lambda>s. Inr (x # s)))
          else if e = cp (CHR ''U'') then
            (case read_hex 8 rest of
               Inl err \<Rightarrow> Inl err
             | Inr (x, rest1) \<Rightarrow> try_res (decode_from rest1) (\<lambda>s. Inr (x # s)))
          else Inl (Config (''invalid escape '' @ quoted (CHR 0x5C # utf8_char e))))"
  by pat_completeness auto
termination
  by (relation "measure length") (auto dest: read_hex_length)

definition decode_escapes :: "utext \<Rightarrow> utext res" where
  "decode_escapes raw = (if cp (CHR 0x5C) \<notin> set raw then Inr raw else decode_from raw)"

section \<open>Terms\<close>

text \<open>The loop of \<open>read_iri\<close> and \<open>read_literal\<close>: raw characters up to the closing one.\<close>

fun scan_raw :: "codepoint \<Rightarrow> string \<Rightarrow> utext \<Rightarrow> utext \<Rightarrow> (utext \<times> utext) res" where
  "scan_raw stop what raw [] = Inl (Config (''unterminated '' @ what))"
| "scan_raw stop what raw (c # cs) =
     (if c = stop then Inr (raw, cs)
      else if c = cp (CHR 0x5C) then
        (case cs of
           [] \<Rightarrow> Inl (Config (''dangling escape in '' @ what))
         | e # rest \<Rightarrow> scan_raw stop what (raw @ [c, e]) rest)
      else scan_raw stop what (raw @ [c]) cs)"

definition read_iri :: "utext \<Rightarrow> (utext \<times> utext) res" where
  "read_iri cs =
     (if \<not> starts_with (CHR ''<'') cs
      then Inl (Config (''expected '' @ quoted ''<'' @ '' to start an IRI''))
      else try_res (scan_raw (cp (CHR ''>'')) ''IRI'' [] (tl cs)) (\<lambda>(raw, rest).
           try_res (decode_escapes raw) (\<lambda>iri. Inr (iri, rest))))"

definition label_end :: "codepoint \<Rightarrow> bool" where
  "label_end c \<longleftrightarrow> cp_whitespace c \<or> c = cp (CHR ''<'') \<or> c = cp (CHR 0x22)"

definition read_blank :: "utext \<Rightarrow> (utext \<times> utext) res" where
  "read_blank cs =
     (if \<not> (starts_with (CHR ''_'') cs \<and> starts_with (CHR '':'') (tl cs))
      then Inl (Config (''expected '' @ quoted ''_:'' @ '' to start a blank node''))
      else (let body = tl (tl cs); label = takeWhile (\<lambda>c. \<not> label_end c) body in
            if label = [] then Inl (Config ''empty blank node label'')
            else Inr (label, dropWhile (\<lambda>c. \<not> label_end c) body)))"

definition tag_char :: "codepoint \<Rightarrow> bool" where
  "tag_char c \<longleftrightarrow> cp_alnum c \<or> c = cp (CHR ''-'')"

definition read_literal :: "utext \<Rightarrow> (rdf_term \<times> utext) res" where
  "read_literal cs =
     (if \<not> starts_with (CHR 0x22) cs
      then Inl (Config (''expected '' @ quoted [CHR 0x22] @ '' to start a literal''))
      else try_res (scan_raw (cp (CHR 0x22)) ''literal'' [] (tl cs)) (\<lambda>(raw, rest).
           try_res (decode_escapes raw) (\<lambda>value.
             if starts_with (CHR ''^'') rest \<and> starts_with (CHR ''^'') (tl rest)
             then try_res (read_iri (tl (tl rest))) (\<lambda>(dt, rest1). Inr (Literal value (Some dt) None, rest1))
             else if starts_with (CHR ''@'') rest
             then (let tag = takeWhile tag_char (tl rest) in
                   if tag = [] then Inl (Config ''empty language tag'')
                   else Inr (Literal value None (Some tag), dropWhile tag_char (tl rest)))
             else Inr (Literal value None None, rest))))"

definition read_resource :: "utext \<Rightarrow> (rdf_resource \<times> utext) res" where
  "read_resource cs =
     (if starts_with (CHR ''<'') cs then try_res (read_iri cs) (\<lambda>(i, rest). Inr (Iri i, rest))
      else if starts_with (CHR ''_'') cs then try_res (read_blank cs) (\<lambda>(l, rest). Inr (BlankNode l, rest))
      else Inl (Config ''expected an IRI or blank node''))"

definition read_object_term :: "utext \<Rightarrow> (rdf_term \<times> utext) res" where
  "read_object_term cs =
     (if starts_with (CHR ''<'') cs then try_res (read_iri cs) (\<lambda>(i, rest). Inr (IriTerm i, rest))
      else if starts_with (CHR ''_'') cs then try_res (read_blank cs) (\<lambda>(l, rest). Inr (BlankTerm l, rest))
      else if starts_with (CHR 0x22) cs then read_literal cs
      else Inl (Config ''expected an IRI, blank node, or literal object''))"

section \<open>Statements\<close>

fun graph_label :: "rdf_resource \<Rightarrow> utext" where
  "graph_label (Iri i) = i"
| "graph_label (BlankNode l) = cps ''_:'' @ l"

text \<open>The optional fourth term.\<close>

definition read_graph :: "rdf_format \<Rightarrow> utext \<Rightarrow> (utext option \<times> utext) res" where
  "read_graph fmt cs =
     (if starts_with (CHR ''.'') cs then Inr (None, cs)
      else if fmt = NQuads
      then try_res (read_resource cs) (\<lambda>(r, rest). Inr (Some (graph_label r), skip_blanks rest))
      else Inl (Config (''unexpected token after object; expected '' @ quoted ''.'')))"

definition parse_statement :: "rdf_format \<Rightarrow> utext \<Rightarrow> rdf_triple option res" where
  "parse_statement fmt line =
     (if cp_trim line = [] \<or> starts_with (CHR ''#'') (cp_trim line) then Inr None
      else try_res (read_resource (skip_blanks line)) (\<lambda>(subject, cs1).
           if \<not> starts_with (CHR ''<'') (skip_blanks cs1) then Inl (Config ''predicate must be an IRI'')
           else try_res (read_iri (skip_blanks cs1)) (\<lambda>(predicate, cs2).
                try_res (read_object_term (skip_blanks cs2)) (\<lambda>(obj, cs3).
                try_res (read_graph fmt (skip_blanks cs3)) (\<lambda>(graph, cs4).
                  if \<not> starts_with (CHR ''.'') cs4
                  then Inl (Config (''statement must end with '' @ quoted ''.''))
                  else Inr (Some \<lparr>tr_subject = subject, tr_predicate = predicate, tr_object = obj,
                              tr_graph = graph\<rparr>))))))"

section \<open>The stream\<close>

text \<open>\<open>next_line\<close> drops the line feed and a carriage return before it.\<close>

definition chomp :: "bytes \<Rightarrow> bytes" where
  "chomp l = (case strip_suffix [newline] l of
     None \<Rightarrow> l
   | Some m \<Rightarrow> (case strip_suffix [CHR 0x0D] m of None \<Rightarrow> m | Some k \<Rightarrow> k))"

definition read_failure :: "string \<Rightarrow> error" where
  "read_failure err = Config (''error reading RDF input: '' @ err)"

text \<open>A line that the failing read cuts off is not seen.\<close>

definition whole_lines :: "bytes \<Rightarrow> string option \<Rightarrow> bytes list" where
  "whole_lines content failure =
     (let ls = lines_of content in
      if failure \<noteq> None \<and> ls \<noteq> [] \<and> last (last ls) \<noteq> newline then butlast ls else ls)"

fun read_statements ::
  "(error \<Rightarrow> string) \<Rightarrow> rdf_format \<Rightarrow> string option \<Rightarrow> nat \<Rightarrow> bytes list \<Rightarrow> rdf_triple res list"
where
  "read_statements show_error fmt failure n [] =
     (case failure of None \<Rightarrow> [] | Some err \<Rightarrow> [Inl (read_failure err)])"
| "read_statements show_error fmt failure n (l # ls) =
     (case from_utf8 (chomp l) of
        None \<Rightarrow> [Inl (read_failure ''stream did not contain valid UTF-8'')]
      | Some line \<Rightarrow>
          (case parse_statement fmt line of
             Inl err \<Rightarrow> [Inl (Config (''RDF parse error on line '' @ dec (n + 1) @ '': '' @ show_error err))]
           | Inr None \<Rightarrow> read_statements show_error fmt failure (n + 1) ls
           | Inr (Some t) \<Rightarrow> Inr t # read_statements show_error fmt failure (n + 1) ls))"

definition read_rdf_lines ::
  "(error \<Rightarrow> string) \<Rightarrow> rdf_format \<Rightarrow> bytes \<Rightarrow> string option \<Rightarrow> rdf_triple res list"
where
  "read_rdf_lines show_error fmt content failure =
     read_statements show_error fmt failure 0 (whole_lines content failure)"

section \<open>Writing statements\<close>

text \<open>The canonical escapes of a literal, and numeric escapes for what an IRI may not contain.\<close>

definition hex_upper :: "nat \<Rightarrow> codepoint" where
  "hex_upper n = (if n < 10 then 48 + n else 55 + n)"

definition literal_char :: "codepoint \<Rightarrow> utext" where
  "literal_char c =
     (if c = 34 \<or> c = 92 then [92, c] else if c = 10 then [92, cp (CHR ''n'')]
      else if c = 13 then [92, cp (CHR ''r'')] else [c])"

definition iri_char :: "codepoint \<Rightarrow> utext" where
  "iri_char c =
     (if c \<le> 32 \<or> c \<in> {34, 60, 62, 92, 94, 96, 123, 124, 125}
      then [92, cp (CHR ''u''), 48, 48, hex_upper (c div 16), hex_upper (c mod 16)] else [c])"

definition write_iri :: "utext \<Rightarrow> utext" where
  "write_iri i = cp (CHR ''<'') # concat (map iri_char i) @ [cp (CHR ''>'')]"

definition write_literal :: "utext \<Rightarrow> utext option \<Rightarrow> utext option \<Rightarrow> utext" where
  "write_literal v dt lang = cp (CHR 0x22) # concat (map literal_char v) @ [cp (CHR 0x22)]
     @ (case dt of Some d \<Rightarrow> cps ''^^'' @ write_iri d | None \<Rightarrow> [])
     @ (case lang of Some l \<Rightarrow> cp (CHR ''@'') # l | None \<Rightarrow> [])"

fun write_resource :: "rdf_resource \<Rightarrow> utext" where
  "write_resource (Iri i) = write_iri i"
| "write_resource (BlankNode l) = cps ''_:'' @ l"

fun write_term :: "rdf_term \<Rightarrow> utext" where
  "write_term (IriTerm i) = write_iri i"
| "write_term (BlankTerm l) = cps ''_:'' @ l"
| "write_term (Literal v dt lang) = write_literal v dt lang"

definition write_statement :: "rdf_triple \<Rightarrow> utext" where
  "write_statement t = write_resource (tr_subject t) @ [32] @ write_iri (tr_predicate t) @ [32]
     @ write_term (tr_object t) @ [32]
     @ (case tr_graph t of Some g \<Rightarrow> write_iri g @ [32] | None \<Rightarrow> []) @ [cp (CHR ''.'')]"

text \<open>What can be written: scalar values, labels and tags of the right characters.\<close>

definition label_ok :: "utext \<Rightarrow> bool" where
  "label_ok l \<longleftrightarrow> l \<noteq> [] \<and> list_all is_scalar l \<and> (\<forall>c \<in> set l. \<not> label_end c)"

fun term_ok :: "rdf_term \<Rightarrow> bool" where
  "term_ok (IriTerm i) = list_all is_scalar i"
| "term_ok (BlankTerm l) = label_ok l"
| "term_ok (Literal v dt lang) \<longleftrightarrow> list_all is_scalar v
     \<and> (case dt of None \<Rightarrow> True | Some d \<Rightarrow> list_all is_scalar d \<and> lang = None)
     \<and> (case lang of None \<Rightarrow> True | Some l \<Rightarrow> l \<noteq> [] \<and> (\<forall>c \<in> set l. tag_char c))"

definition statement_ok :: "rdf_format \<Rightarrow> rdf_triple \<Rightarrow> bool" where
  "statement_ok fmt t \<longleftrightarrow> term_ok (resource_term (tr_subject t)) \<and> list_all is_scalar (tr_predicate t)
     \<and> term_ok (tr_object t) \<and> (case tr_graph t of None \<Rightarrow> True | Some g \<Rightarrow> list_all is_scalar g \<and> fmt = NQuads)"

section \<open>Reading back what was written\<close>

fun raw_ok :: "codepoint \<Rightarrow> utext \<Rightarrow> bool" where
  "raw_ok stop [] = True"
| "raw_ok stop (c # cs) =
     (if c = 92 then (case cs of [] \<Rightarrow> False | e # rest \<Rightarrow> raw_ok stop rest) else c \<noteq> stop \<and> raw_ok stop cs)"

lemma scan_raw_ok:
  "raw_ok stop s \<Longrightarrow> stop \<noteq> 92 \<Longrightarrow> scan_raw stop what raw (s @ stop # rest) = Inr (raw @ s, rest)"
proof (induction stop s arbitrary: raw rule: raw_ok.induct)
  case (2 stop c cs)
  show ?case
  proof (cases "c = 92")
    case True
    then obtain e r where "cs = e # r" "raw_ok stop r" using 2(3) by (cases cs) auto
    then show ?thesis using 2(1) [OF True, of e r] 2(4) True by simp
  next
    case False
    then have ok: "raw_ok stop cs" "c \<noteq> stop" using 2(3) by simp_all
    have "scan_raw stop what raw ((c # cs) @ stop # rest) = scan_raw stop what (raw @ [c]) (cs @ stop # rest)"
      using False ok(2) by simp
    also have "\<dots> = Inr ((raw @ [c]) @ cs, rest)" by (rule 2(2) [OF False ok(1) 2(4)])
    finally show ?thesis by simp
  qed
qed simp

lemma raw_ok_append: "raw_ok stop s \<Longrightarrow> raw_ok stop (s @ t) = raw_ok stop t"
proof (induction stop s rule: raw_ok.induct)
  case (2 stop c cs)
  then show ?case by (cases "c = 92"; cases cs) simp_all
qed simp

lemma raw_ok_concat: "(\<And>c. c \<in> set s \<Longrightarrow> raw_ok stop (f c)) \<Longrightarrow> raw_ok stop (concat (map f s))"
  by (induction s) (simp_all add: raw_ok_append)

lemma hex_upper_value: "n < 16 \<Longrightarrow> hex_value (hex_upper n) = Some n"
  by (simp add: hex_value_def hex_upper_def cp_digit_def)

lemma hex_upper_range: "n < 16 \<Longrightarrow> 48 \<le> hex_upper n \<and> hex_upper n \<le> 70 \<and> hex_upper n \<noteq> 62"
  by (auto simp: hex_upper_def)

lemma decode_from_plain: "92 \<notin> set s \<Longrightarrow> decode_from s = Inr s"
  by (induction s) simp_all

lemma decode_escapes_from: "decode_escapes s = decode_from s"
  by (simp add: decode_escapes_def decode_from_plain)

lemma decode_literal_char: "decode_from (literal_char c @ rest) = try_res (decode_from rest) (\<lambda>s. Inr (c # s))"
proof -
  consider "c = 34" | "c = 92" | "c = 10" | "c = 13" | "c \<notin> {34, 92, 10, 13}" by blast
  then show ?thesis by cases (simp_all add: literal_char_def)
qed

lemma decode_iri_char: "decode_from (iri_char c @ rest) = try_res (decode_from rest) (\<lambda>s. Inr (c # s))"
proof (cases "c \<le> 32 \<or> c \<in> {34, 60, 62, 92, 94, 96, 123, 124, 125}")
  case True
  then have c: "c < 256" "c div 16 < 16" by auto
  have "read_hex 4 ([48, 48, hex_upper (c div 16), hex_upper (c mod 16)] @ rest) = Inr (c, rest)"
  proof -
    have "hex_value 48 = Some 0" "hex_value (hex_upper (c div 16)) = Some (c div 16)"
      "hex_value (hex_upper (c mod 16)) = Some (c mod 16)"
      using c by (simp_all add: hex_upper_value) (simp add: hex_value_def cp_digit_def)
    moreover have "char_from_u32 c = Some c" using c by (simp add: char_from_u32_def is_scalar_def)
    moreover have "hex_run 4 = hex_run (Suc (Suc (Suc (Suc 0))))" by (simp only: numeral_eq_Suc pred_numeral_simps
        BitM.simps One_nat_def numeral_One)
    ultimately show ?thesis by (simp add: read_hex_def)
  qed
  moreover have "iri_char c = [92, cp (CHR ''u''), 48, 48, hex_upper (c div 16), hex_upper (c mod 16)]"
    using True unfolding iri_char_def by (rule if_P)
  ultimately show ?thesis by simp
next
  case False
  then have "iri_char c = [c]" "c \<noteq> 92" unfolding iri_char_def by (auto simp only: if_False)
  then show ?thesis by simp
qed

lemma decode_concat:
  assumes "\<And>c rest. decode_from (f c @ rest) = try_res (decode_from rest) (\<lambda>s. Inr (c # s))"
  shows "decode_from (concat (map f s)) = Inr s"
  by (induction s) (simp_all add: assms)

lemma raw_iri_char: "raw_ok 62 (iri_char c)"
proof (cases "c \<le> 32 \<or> c \<in> {34, 60, 62, 92, 94, 96, 123, 124, 125}")
  case True
  then have "c div 16 < 16" by auto
  moreover have "iri_char c = [92, cp (CHR ''u''), 48, 48, hex_upper (c div 16), hex_upper (c mod 16)]"
    using True unfolding iri_char_def by (rule if_P)
  ultimately show ?thesis using hex_upper_range [of "c div 16"] hex_upper_range [of "c mod 16"] by simp
next
  case False
  then have "iri_char c = [c]" "c \<noteq> 92" "c \<noteq> 62" unfolding iri_char_def by (auto simp only: if_False)
  then show ?thesis by simp
qed

lemma raw_literal_char: "raw_ok 34 (literal_char c)"
  by (simp add: literal_char_def)

lemma starts_with_simps [simp]:
  "starts_with x (c # cs) = (c = cp x)" "\<not> starts_with x []"
  by (simp_all add: starts_with_def)

lemma read_written_iri: "read_iri (write_iri i @ rest) = Inr (i, rest)"
proof -
  have "scan_raw (cp (CHR ''>'')) ''IRI'' [] (concat (map iri_char i) @ cp (CHR ''>'') # rest) = Inr (concat (map iri_char i), rest)"
    using scan_raw_ok [of 62 "concat (map iri_char i)" "''IRI''" "[]" rest]
      raw_ok_concat [of i 62 iri_char] raw_iri_char by simp
  then show ?thesis
    by (simp add: read_iri_def write_iri_def decode_escapes_from decode_concat [OF decode_iri_char])
qed

lemma take_drop_while_append:
  "\<forall>x \<in> set s. P x \<Longrightarrow> rest = [] \<or> \<not> P (hd rest) \<Longrightarrow>
    takeWhile P (s @ rest) = s \<and> dropWhile P (s @ rest) = rest"
  by (cases rest) auto

lemma read_written_blank:
  "label_ok l \<Longrightarrow> rest = [] \<or> label_end (hd rest) \<Longrightarrow> read_blank (cps ''_:'' @ l @ rest) = Inr (l, rest)"
  using take_drop_while_append [of l "\<lambda>c. \<not> label_end c" rest]
  by (simp add: read_blank_def label_ok_def Let_def)

lemma read_written_literal:
  assumes "term_ok (Literal v dt lang)"
  shows "read_literal (write_literal v dt lang @ 32 # rest) = Inr (Literal v dt lang, 32 # rest)"
proof -
  let ?tail = "(case dt of Some d \<Rightarrow> cps ''^^'' @ write_iri d | None \<Rightarrow> [])
     @ (case lang of Some l \<Rightarrow> cp (CHR ''@'') # l | None \<Rightarrow> []) @ 32 # rest"
  have scan: "scan_raw (cp (CHR 0x22)) ''literal'' [] (concat (map literal_char v) @ cp (CHR 0x22) # ?tail)
      = Inr (concat (map literal_char v), ?tail)"
    using scan_raw_ok [of 34 "concat (map literal_char v)" "''literal''" "[]" ?tail]
      raw_ok_concat [of v 34 literal_char] raw_literal_char by simp
  have tag: "takeWhile tag_char (l @ 32 # rest) = l \<and> dropWhile tag_char (l @ 32 # rest) = 32 # rest"
    if "\<forall>c \<in> set l. tag_char c" for l
    using that by (intro take_drop_while_append) (simp_all add: tag_char_def cp_alnum_def cp_alpha_def cp_digit_def)
  show ?thesis
    using assms scan tag
    by (auto simp: read_literal_def write_literal_def decode_escapes_from decode_concat [OF decode_literal_char]
        read_written_iri Let_def split: option.splits)
qed

lemma skip_blanks_simps [simp]:
  "skip_blanks (32 # cs) = skip_blanks cs" "c \<noteq> 32 \<Longrightarrow> c \<noteq> 9 \<Longrightarrow> skip_blanks (c # cs) = c # cs"
  by (simp_all add: skip_blanks_def)

lemma write_starts:
  "write_iri i = 60 # concat (map iri_char i) @ [62]"
  "\<exists>w. write_literal v dt lang = 34 # w"
  by (simp_all add: write_iri_def write_literal_def)

lemma read_written_resource:
  assumes "term_ok (resource_term r)"
  shows "read_resource (write_resource r @ 32 # rest) = Inr (r, 32 # rest)"
    and "skip_blanks (write_resource r @ cs) = write_resource r @ cs"
proof -
  show "read_resource (write_resource r @ 32 # rest) = Inr (r, 32 # rest)"
  proof (cases r)
    case (Iri i)
    have "starts_with (CHR ''<'') (write_iri i @ 32 # rest)" by (simp add: write_starts)
    then show ?thesis using Iri by (simp add: read_resource_def read_written_iri)
  next
    case (BlankNode l)
    then show ?thesis using assms read_written_blank [of l "32 # rest"]
      by (simp add: read_resource_def label_end_def cp_whitespace_def)
  qed
  show "skip_blanks (write_resource r @ cs) = write_resource r @ cs"
    by (cases r) (simp_all add: write_starts)
qed

lemma read_written_term:
  assumes "term_ok t"
  shows "read_object_term (write_term t @ 32 # rest) = Inr (t, 32 # rest)"
    and "skip_blanks (write_term t @ cs) = write_term t @ cs"
proof -
  show "read_object_term (write_term t @ 32 # rest) = Inr (t, 32 # rest)"
  proof (cases t)
    case (IriTerm i)
    have "starts_with (CHR ''<'') (write_iri i @ 32 # rest)" by (simp add: write_starts)
    then show ?thesis using IriTerm by (simp add: read_object_term_def read_written_iri)
  next
    case (BlankTerm l)
    then show ?thesis using assms read_written_blank [of l "32 # rest"]
      by (simp add: read_object_term_def label_end_def cp_whitespace_def)
  next
    case (Literal v dt lang)
    obtain w where "write_literal v dt lang = 34 # w" using write_starts(2) by blast
    then have "starts_with CHR 0x22 (write_literal v dt lang @ 32 # rest)"
      "\<not> starts_with (CHR ''<'') (write_literal v dt lang @ 32 # rest)"
      "\<not> starts_with (CHR ''_'') (write_literal v dt lang @ 32 # rest)" by simp_all
    then show ?thesis using Literal assms by (simp add: read_object_term_def read_written_literal)
  qed
  show "skip_blanks (write_term t @ cs) = write_term t @ cs"
  proof (cases t)
    case (Literal v dt lang)
    obtain w where "write_literal v dt lang = 34 # w" using write_starts(2) by blast
    then show ?thesis using Literal by simp
  qed (simp_all add: write_starts)
qed

lemma read_written_graph:
  assumes "case g of None \<Rightarrow> True | Some i \<Rightarrow> list_all is_scalar i \<and> fmt = NQuads"
  shows "read_graph fmt (skip_blanks ((case g of Some i \<Rightarrow> write_iri i @ [32] | None \<Rightarrow> []) @ [46])) = Inr (g, [46])"
proof (cases g)
  case (Some i)
  have "skip_blanks (write_iri i @ [32, 46]) = write_iri i @ [32, 46]"
    "\<not> starts_with (CHR ''.'') (write_iri i @ [32, 46])" by (simp_all add: write_starts)
  moreover have "read_resource (write_resource (Iri i) @ 32 # [46]) = Inr (Iri i, 32 # [46])"
    by (rule read_written_resource(1)) (use assms Some in simp)
  ultimately show ?thesis using assms Some by (simp add: read_graph_def)
qed (simp add: read_graph_def)

lemma trimmed_line:
  "s \<noteq> [] \<Longrightarrow> \<not> cp_whitespace (hd s) \<Longrightarrow> \<not> cp_whitespace (last s) \<Longrightarrow> cp_trim s = s"
proof -
  assume s: "s \<noteq> []" "\<not> cp_whitespace (hd s)" "\<not> cp_whitespace (last s)"
  have "dropWhile cp_whitespace s = s" using s(1,2) by (cases s) simp_all
  moreover have "dropWhile cp_whitespace (rev s) = rev s" using s(1,3) by (cases s rule: rev_cases) simp_all
  ultimately show ?thesis by (simp add: cp_trim_def)
qed

lemma write_statement_ends:
  "hd (write_statement t) \<in> {60, 95}" "last (write_statement t) = 46" "write_statement t \<noteq> []"
  by (cases "tr_subject t"; simp add: write_statement_def write_starts)+

lemma parse_written_statement:
  assumes "statement_ok fmt t"
  shows "parse_statement fmt (write_statement t) = Inr (Some t)"
proof -
  have "\<not> cp_whitespace (hd (write_statement t))" "\<not> cp_whitespace (last (write_statement t))"
    using write_statement_ends(1) [of t] by (auto simp: cp_whitespace_def write_statement_ends(2))
  then have "cp_trim (write_statement t) = write_statement t"
    by (intro trimmed_line write_statement_ends(3))
  moreover have "\<not> starts_with (CHR ''#'') (write_statement t)"
    using write_statement_ends(1,3) [of t] by (cases "write_statement t") auto
  moreover have "skip_blanks (32 # write_iri i @ cs) = write_iri i @ cs" "starts_with (CHR ''<'') (write_iri i @ cs)"
    for i cs by (simp_all add: write_starts)
  ultimately show ?thesis
    using assms write_statement_ends(3) [of t] read_written_resource [of "tr_subject t"] read_written_term [of "tr_object t"]
      read_written_graph [where g = "tr_graph t" and fmt = fmt]
    by (simp add: parse_statement_def write_statement_def statement_ok_def read_written_iri split: option.splits)
qed

text \<open>The characters of a written statement are scalar values other than the line feed.\<close>

definition line_char :: "codepoint \<Rightarrow> bool" where
  "line_char c \<longleftrightarrow> is_scalar c \<and> c \<noteq> 10"

lemma line_char_small: "c < 0xD800 \<Longrightarrow> c \<noteq> 10 \<Longrightarrow> line_char c"
  by (simp add: line_char_def is_scalar_def)

lemma line_char_iri: "is_scalar c \<Longrightarrow> list_all line_char (iri_char c)"
proof (cases "c \<le> 32 \<or> c \<in> {34, 60, 62, 92, 94, 96, 123, 124, 125}")
  case True
  then have "c div 16 < 16" by auto
  moreover have "iri_char c = [92, cp (CHR ''u''), 48, 48, hex_upper (c div 16), hex_upper (c mod 16)]"
    using True unfolding iri_char_def by (rule if_P)
  ultimately show ?thesis using hex_upper_range [of "c div 16"] hex_upper_range [of "c mod 16"]
    by (simp add: line_char_small)
next
  case False
  assume "is_scalar c"
  moreover have "iri_char c = [c]" "c \<noteq> 10" using False unfolding iri_char_def by (auto simp only: if_False)
  ultimately show ?thesis by (simp add: line_char_def)
qed

lemma line_char_concat:
  "(\<And>c. is_scalar c \<Longrightarrow> list_all line_char (f c)) \<Longrightarrow> list_all is_scalar s \<Longrightarrow> list_all line_char (concat (map f s))"
  by (induction s) simp_all

lemma line_char_write_iri: "list_all is_scalar i \<Longrightarrow> list_all line_char (write_iri i)"
  by (simp add: write_iri_def line_char_concat line_char_iri line_char_small)

lemma line_char_label: "label_ok l \<Longrightarrow> list_all line_char l"
  by (auto simp: label_ok_def list_all_iff line_char_def label_end_def cp_whitespace_def)

lemma line_char_tag: "\<forall>c \<in> set l. tag_char c \<Longrightarrow> list_all line_char l"
  by (auto simp: list_all_iff tag_char_def cp_alnum_def cp_alpha_def cp_digit_def intro!: line_char_small)

lemma line_char_literal:
  assumes "term_ok (Literal v dt lang)"
  shows "list_all line_char (write_literal v dt lang)"
proof -
  have "list_all line_char (literal_char c)" if "is_scalar c" for c
    using that by (simp add: literal_char_def line_char_small) (simp add: line_char_def)
  then have "list_all line_char (concat (map literal_char v))" using assms line_char_concat by simp
  then show ?thesis
    using assms by (auto simp: write_literal_def line_char_small line_char_write_iri line_char_tag split: option.splits)
qed

lemma line_char_term: "term_ok t \<Longrightarrow> list_all line_char (write_term t)"
  by (cases t) (simp_all add: line_char_write_iri line_char_label line_char_literal line_char_small)

lemma write_resource_term: "write_resource r = write_term (resource_term r)"
  by (cases r) simp_all

lemma line_char_statement: "statement_ok fmt t \<Longrightarrow> list_all line_char (write_statement t)"
  by (auto simp: statement_ok_def write_statement_def line_char_term line_char_write_iri line_char_small
      write_resource_term split: option.splits)

text \<open>The line reader on the bytes of one written statement.\<close>

definition statement_bytes :: "rdf_triple \<Rightarrow> bytes" where
  "statement_bytes t = utf8 (write_statement t)"

lemma utf8_append: "utf8 (s @ t) = utf8 s @ utf8 t"
  by (simp add: utf8_def)

lemma statement_bytes_ends: "\<exists>b. statement_bytes t = b @ [CHR ''.'']"
proof -
  obtain s where "write_statement t = s @ [46]"
    using write_statement_ends(2,3) [of t] by (cases "write_statement t" rule: rev_cases) auto
  moreover have "(char_of (46 :: nat) :: char) = CHR ''.''" by code_simp
  ultimately show ?thesis by (simp add: statement_bytes_def utf8_append utf8_char_def)
qed

lemma chomp_line: "b \<noteq> [] \<Longrightarrow> last b \<noteq> CHR 0x0D \<Longrightarrow> chomp (b @ [newline]) = b"
proof -
  assume b: "b \<noteq> []" "last b \<noteq> CHR 0x0D"
  have "strip_suffix [newline] (b @ [newline]) = Some b" by (simp add: str_simps)
  moreover have "strip_suffix [CHR 0x0D] b = None"
    using b(2) by (cases "strip_suffix [CHR 0x0D] b") (auto simp: str_simps)
  ultimately show ?thesis by (simp add: chomp_def)
qed

lemma read_statement_bytes:
  assumes "statement_ok fmt t"
  shows "newline \<notin> set (statement_bytes t)" and "chomp (statement_bytes t @ [newline]) = statement_bytes t"
    and "from_utf8 (statement_bytes t) = Some (write_statement t)"
proof -
  have chars: "list_all line_char (write_statement t)" by (rule line_char_statement [OF assms])
  show "newline \<notin> set (statement_bytes t)"
    unfolding statement_bytes_def
    by (rule utf8_no_ascii) (use chars in \<open>auto simp: list_all_iff line_char_def is_scalar_def\<close>)
  show "chomp (statement_bytes t @ [newline]) = statement_bytes t"
    using statement_bytes_ends [of t] by (intro chomp_line) auto
  show "from_utf8 (statement_bytes t) = Some (write_statement t)"
    using chars by (simp add: statement_bytes_def list_all_iff line_char_def)
qed

definition write_statements :: "rdf_triple list \<Rightarrow> bytes" where
  "write_statements ts = concat (map (\<lambda>t. statement_bytes t @ [newline]) ts)"

lemma read_written_lines:
  "\<forall>t \<in> set ts. statement_ok fmt t \<Longrightarrow>
    read_statements show_error fmt None n (lines_of (write_statements ts)) = map Inr ts"
proof (induction ts arbitrary: n)
  case (Cons t ts)
  then have ok: "statement_ok fmt t" by simp
  have "lines_of (write_statements (t # ts)) = (statement_bytes t @ [newline]) # lines_of (write_statements ts)"
    using lines_of_line [OF read_statement_bytes(1) [OF ok]] by (simp add: write_statements_def)
  then show ?case using Cons by (simp add: read_statement_bytes [OF ok] parse_written_statement [OF ok])
qed (simp add: write_statements_def)

text \<open>
  C29: the N-Triples and N-Quads readers give back what was written: the statements of any list of
  triples, one per line in the canonical form (with every character an IRI may not hold, and the
  quote, the backslash and the line ends of a literal, escaped), are read as exactly those triples
  in that order with no error, whatever scalar values the IRIs and literals contain.  Blank node
  labels and language tags must be of the characters the reader keeps in them, a literal has a
  datatype or a tag, and only N-Quads have a graph.
\<close>

theorem nquads_roundtrip:
  assumes "\<forall>t \<in> set ts. statement_ok fmt t"
  shows "read_rdf_lines show_error fmt (write_statements ts) None = map Inr ts"
  by (simp add: read_rdf_lines_def whole_lines_def read_written_lines [OF assms])

lemma nquads_roundtrip_witness:
  "read_rdf_lines (\<lambda>e. []) NQuads
     (''<a'' @ [CHR 0x5C] @ ''u0020b> <p> '' @ [CHR 0x22] @ ''x'' @ [CHR 0x5C, CHR 0x22, CHR 0x22] @ ''@en <g> .'' @ [newline]
      @ ''_:n <p> _:m .'' @ [newline]) None =
    [Inr \<lparr>tr_subject = Iri (cps ''a b''), tr_predicate = cps ''p'',
       tr_object = Literal (cps (''x'' @ [CHR 0x22])) None (Some (cps ''en'')), tr_graph = Some (cps ''g'')\<rparr>,
     Inr \<lparr>tr_subject = BlankNode (cps ''n''), tr_predicate = cps ''p'', tr_object = BlankTerm (cps ''m''),
       tr_graph = None\<rparr>]"
proof -
  let ?ts = "[\<lparr>tr_subject = Iri (cps ''a b''), tr_predicate = cps ''p'',
       tr_object = Literal (cps (''x'' @ [CHR 0x22])) None (Some (cps ''en'')), tr_graph = Some (cps ''g'')\<rparr>,
     \<lparr>tr_subject = BlankNode (cps ''n''), tr_predicate = cps ''p'', tr_object = BlankTerm (cps ''m''),
       tr_graph = None\<rparr>]"
  have "read_rdf_lines (\<lambda>e. []) NQuads (write_statements ?ts) None = map Inr ?ts"
    by (rule nquads_roundtrip)
      (simp add: statement_ok_def label_ok_def label_end_def is_scalar_def cp_whitespace_def tag_char_def
        cp_alnum_def cp_alpha_def)
  moreover have "write_statements ?ts =
     ''<a'' @ [CHR 0x5C] @ ''u0020b> <p> '' @ [CHR 0x22] @ ''x'' @ [CHR 0x5C, CHR 0x22, CHR 0x22] @ ''@en <g> .'' @ [newline]
      @ ''_:n <p> _:m .'' @ [newline]"
    by code_simp
  ultimately show ?thesis by simp
qed

end
