(* ===== verification/TurtleParser.thy ===== *)
theory TurtleParser
  imports NQuads
begin

text \<open>
  The Turtle parser, \<open>turtle.rs\<close> of the crate \<open>arangodb-rdf\<close>.  The characters from the index
  \<open>pos\<close> on are \<open>tp_rest\<close>, so \<open>pos\<close> is the length of \<open>tp_chars\<close> less that of \<open>tp_rest\<close>.  A
  routine that only moves the index is an operation on the remaining characters that fails with a
  message; \<open>lexed\<close> makes it an operation of the parser, which adds line and column.
\<close>

section \<open>Characters\<close>

type_synonym 'a lex = "(utext, string, 'a) act"

definition peek :: "utext \<Rightarrow> codepoint option" where
  "peek cs = (case cs of [] \<Rightarrow> None | c # _ \<Rightarrow> Some c)"

definition expect :: "char \<Rightarrow> unit lex" where
  "expect x cs =
     (case cs of
        [] \<Rightarrow> (Inl (''expected '' @ quoted [x] @ '', found end of input''), [])
      | c # rest \<Rightarrow>
          if c = cp x then (Inr (), rest)
          else (Inl (''expected '' @ quoted [x] @ '', found '' @ quoted (utf8_char c)), rest))"

function skip_ws :: "utext \<Rightarrow> utext" where
  "skip_ws [] = []"
| "skip_ws (c # cs) =
     (if cp_whitespace c then skip_ws cs
      else if c = cp (CHR ''#'') then skip_ws (drop 1 (dropWhile (\<lambda>x. x \<noteq> 10) cs))
      else c # cs)"
  by pat_completeness auto
termination
proof (relation "measure length")
  show "(drop 1 (dropWhile (\<lambda>x. x \<noteq> 10) cs), c # cs) \<in> measure length" for c :: codepoint and cs :: utext
    using length_dropWhile_le [of "\<lambda>x. x \<noteq> 10" cs] by (simp only: in_measure length_drop list.size)
qed simp_all

definition skip_all :: "unit lex" where
  "skip_all cs = (Inr (), skip_ws cs)"

definition advance_chars :: "nat \<Rightarrow> unit lex" where
  "advance_chars n cs = (Inr (), drop n cs)"

definition lex_error :: "string \<Rightarrow> 'a lex" where
  "lex_error msg cs = (Inl msg, cs)"

definition is_token_boundary :: "utext \<Rightarrow> bool" where
  "is_token_boundary cs =
     (case cs of [] \<Rightarrow> True
      | c # _ \<Rightarrow> cp_whitespace c \<or> c \<in> {cp (CHR ''<''), cp (CHR 0x22), cp (CHR 0x27), cp (CHR ''.''),
                   cp (CHR '';''), cp (CHR '',''), cp (CHR ''#'')})"

definition is_pn_prefix_char :: "codepoint \<Rightarrow> bool" where
  "is_pn_prefix_char c \<longleftrightarrow> cp_alnum c \<or> c \<in> {cp (CHR ''_''), cp (CHR ''-''), cp (CHR ''.'')} \<or> c > 0x7F"

definition is_pn_local_char :: "codepoint \<Rightarrow> bool" where
  "is_pn_local_char c \<longleftrightarrow> cp_alnum c
     \<or> c \<in> {cp (CHR ''_''), cp (CHR ''-''), cp (CHR ''.''), cp (CHR ''%''), cp (CHR '':'')} \<or> c > 0x7F"

definition cp_lower :: "codepoint \<Rightarrow> codepoint" where
  "cp_lower c = (if 65 \<le> c \<and> c \<le> 90 then c + 32 else c)"

definition matches_keyword_ci :: "string \<Rightarrow> utext \<Rightarrow> bool" where
  "matches_keyword_ci keyword cs \<longleftrightarrow> length keyword \<le> length cs
     \<and> map cp_lower (take (length keyword) cs) = map cp_lower (cps keyword)
     \<and> is_token_boundary (drop (length keyword) cs)"

definition peek_boolean :: "utext \<Rightarrow> bool" where
  "peek_boolean cs \<longleftrightarrow>
     (\<exists>kw \<in> {''true'', ''false''}. take (length kw) cs = cps kw \<and> is_token_boundary (drop (length kw) cs))"

definition read_bare_word :: "utext lex" where
  "read_bare_word cs = (Inr (takeWhile cp_alpha cs), dropWhile cp_alpha cs)"

text \<open>\<open>has_scheme\<close>.\<close>

fun scheme_tail :: "utext \<Rightarrow> bool" where
  "scheme_tail [] = False"
| "scheme_tail (c # cs) =
     (if c = cp (CHR '':'') then True
      else if cp_alnum c \<or> c \<in> {cp (CHR ''+''), cp (CHR ''-''), cp (CHR ''.'')} then scheme_tail cs
      else False)"

definition has_scheme :: "utext \<Rightarrow> bool" where
  "has_scheme s = (case s of [] \<Rightarrow> False | c # cs \<Rightarrow> cp_alpha c \<and> scheme_tail cs)"

section \<open>Tokens\<close>

fun hex_digits :: "nat \<Rightarrow> nat \<Rightarrow> nat lex" where
  "hex_digits 0 code cs = (Inr code, cs)"
| "hex_digits (Suc n) code [] = (Inl ''truncated unicode escape'', [])"
| "hex_digits (Suc n) code (c # cs) =
     (case hex_value c of
        None \<Rightarrow> (Inl ''invalid hex in unicode escape'', cs)
      | Some d \<Rightarrow> hex_digits n (code * 16 + d) cs)"

definition turtle_hex :: "nat \<Rightarrow> codepoint lex" where
  "turtle_hex n = act_bind (hex_digits n 0) (\<lambda>code.
     case char_from_u32 code of None \<Rightarrow> lex_error ''invalid unicode code point'' | Some c \<Rightarrow> act_return c)"

lemma hex_digits_length: "length (snd (hex_digits n code cs)) \<le> length cs"
  by (induction n code cs rule: hex_digits.induct) (auto split: option.splits)

lemma turtle_hex_length: "turtle_hex n cs = (r, rest) \<Longrightarrow> length rest \<le> length cs"
  using hex_digits_length [of n 0 cs]
  by (auto simp: turtle_hex_def act_bind_def lex_error_def split: prod.splits sum.splits option.splits)

text \<open>The loop of \<open>read_iri_ref\<close> after the opening angle bracket.\<close>

function iri_raw :: "utext \<Rightarrow> utext lex" where
  "iri_raw raw [] = (Inl ''unterminated IRI'', [])"
| "iri_raw raw (c # cs) =
     (if c = cp (CHR ''>'') then (Inr raw, cs)
      else if c = cp (CHR 0x5C) then
        (case cs of
           [] \<Rightarrow> (Inl ''bad IRI escape'', [])
         | e # rest \<Rightarrow>
             if e = cp (CHR ''u'') \<or> e = cp (CHR ''U'') then
               (case turtle_hex (if e = cp (CHR ''u'') then 4 else 8) rest of
                  (Inl msg, rest1) \<Rightarrow> (Inl msg, rest1)
                | (Inr x, rest1) \<Rightarrow> iri_raw (raw @ [x]) rest1)
             else (Inl (''invalid IRI escape '' @ quoted (CHR 0x5C # utf8_char e)), rest))
      else iri_raw (raw @ [c]) cs)"
  by pat_completeness auto
termination
  by (relation "measure (length \<circ> snd)") (auto dest!: sym [of _ "turtle_hex _ _"] turtle_hex_length)

definition read_blank_label :: "utext lex" where
  "read_blank_label = act_bind (expect (CHR ''_'')) (\<lambda>_. act_bind (expect (CHR '':'')) (\<lambda>_ cs.
     let label = takeWhile is_pn_local_char cs in
     if label = [] then (Inl ''empty blank node label'', cs)
     else (Inr (cps ''u_'' @ label), dropWhile is_pn_local_char cs)))"

text \<open>\<open>read_prefixed_name\<close> up to the lookup: prefix and local part, dots at its end given back.\<close>

definition name_parts :: "(utext \<times> utext) lex" where
  "name_parts cs =
     (let name = takeWhile (\<lambda>c. c \<noteq> cp (CHR '':'') \<and> is_pn_prefix_char c) cs; rest = drop (length name) cs in
      case peek rest of
        Some c \<Rightarrow>
          if c = cp (CHR '':'') then
            (let body = drop 1 rest;
                 local = rev (dropWhile (\<lambda>c. c = cp (CHR ''.'')) (rev (takeWhile is_pn_local_char body))) in
             (Inr (name, local), drop (length local) body))
          else (Inl (''unexpected character '' @ quoted (utf8_char c) @ '' in term''), rest)
      | None \<Rightarrow> act_bind (expect (CHR '':'')) (\<lambda>_. act_return (name, [])) rest)"

definition binding_name :: "utext lex" where
  "binding_name cs =
     (let name = takeWhile (\<lambda>c. c \<noteq> cp (CHR '':'') \<and> \<not> cp_whitespace c) cs; rest = drop (length name) cs in
      case peek rest of
        Some c \<Rightarrow>
          if c = cp (CHR '':'') then (Inr name, drop 1 rest)
          else (Inl (''expected '' @ quoted '':'' @ '' after prefix label''), rest)
      | None \<Rightarrow> act_bind (expect (CHR '':'')) (\<lambda>_. act_return name) rest)"

section \<open>Literals\<close>

definition read_string_escape :: "codepoint lex" where
  "read_string_escape cs =
     (case cs of
        [] \<Rightarrow> (Inl ''dangling escape in string'', [])
      | c # rest \<Rightarrow>
          if c = cp (CHR ''t'') then (Inr 9, rest)
          else if c = cp (CHR ''b'') then (Inr 8, rest)
          else if c = cp (CHR ''n'') then (Inr 10, rest)
          else if c = cp (CHR ''r'') then (Inr 13, rest)
          else if c = cp (CHR ''f'') then (Inr 12, rest)
          else if c \<in> {cp (CHR 0x22), cp (CHR 0x27), cp (CHR 0x5C)} then (Inr c, rest)
          else if c = cp (CHR ''u'') then turtle_hex 4 rest
          else if c = cp (CHR ''U'') then turtle_hex 8 rest
          else (Inl (''invalid string escape '' @ quoted (CHR 0x5C # utf8_char c)), rest))"

lemma read_string_escape_length: "read_string_escape cs = (r, rest) \<Longrightarrow> length rest \<le> length cs"
  by (auto simp: read_string_escape_def le_SucI dest: turtle_hex_length split: list.splits if_splits)

function read_string_body :: "codepoint \<Rightarrow> bool \<Rightarrow> utext \<Rightarrow> utext lex" where
  "read_string_body q triple v [] = (Inl ''unterminated string literal'', [])"
| "read_string_body q triple v (c # cs) =
     (if c = q then
        (if \<not> triple then (Inr v, cs)
         else if take 2 cs = [q, q] then (Inr v, drop 2 cs)
         else read_string_body q triple (v @ [c]) cs)
      else if c = cp (CHR 0x5C) then
        (case read_string_escape cs of
           (Inl msg, rest) \<Rightarrow> (Inl msg, rest)
         | (Inr x, rest) \<Rightarrow> read_string_body q triple (v @ [x]) rest)
      else read_string_body q triple (v @ [c]) cs)"
  by pat_completeness auto
termination
  by (relation "measure (\<lambda>(q, t, v, cs). length cs)") (auto dest!: sym [of _ "read_string_escape _"] read_string_escape_length)

definition read_language_tag :: "utext lex" where
  "read_language_tag cs =
     (let tag = takeWhile tag_char cs in
      if tag = [] then (Inl ''empty language tag'', cs) else (Inr tag, dropWhile tag_char cs))"

text \<open>The loop of \<open>numeric_literal\<close>: whether a dot or an exponent was seen, and the rest.\<close>

definition skip_sign :: "utext \<Rightarrow> utext" where
  "skip_sign cs = (case cs of c # rest \<Rightarrow> if c = cp (CHR ''+'') \<or> c = cp (CHR ''-'') then rest else cs | [] \<Rightarrow> [])"

lemma skip_sign_length: "length (skip_sign cs) \<le> length cs"
  by (cases cs) (simp_all add: skip_sign_def)

function number_tail :: "bool \<Rightarrow> bool \<Rightarrow> utext \<Rightarrow> bool \<times> bool \<times> utext" where
  "number_tail has_dot has_exp [] = (has_dot, has_exp, [])"
| "number_tail has_dot has_exp (c # cs) =
     (if cp_digit c then number_tail has_dot has_exp cs
      else if c = cp (CHR ''.'') \<and> \<not> has_dot \<and> \<not> has_exp then
        (if (case peek cs of Some d \<Rightarrow> cp_digit d | None \<Rightarrow> False) then number_tail True has_exp cs else (has_dot, has_exp, c # cs))
      else if (c = cp (CHR ''e'') \<or> c = cp (CHR ''E'')) \<and> \<not> has_exp then number_tail has_dot True (skip_sign cs)
      else (has_dot, has_exp, c # cs))"
  by pat_completeness auto
termination
  by (relation "measure (\<lambda>(d, e, cs). length cs)") (auto simp: le_imp_less_Suc skip_sign_length)

definition xsd :: "string \<Rightarrow> utext" where
  "xsd name = cps (''http://www.w3.org/2001/XMLSchema#'' @ name)"

definition rdf_ns :: "string \<Rightarrow> utext" where
  "rdf_ns name = cps (''http://www.w3.org/1999/02/22-rdf-syntax-ns#'' @ name)"

definition numeric_literal :: "rdf_term lex" where
  "numeric_literal cs =
     (case number_tail False False (skip_sign cs) of
        (has_dot, has_exp, rest) \<Rightarrow>
          let number = take (length cs - length rest) cs in
          if \<not> (\<exists>c \<in> set number. cp_digit c) then (Inl ''expected an object'', rest)
          else (Inr (Literal number
                  (Some (xsd (if has_exp then ''double'' else if has_dot then ''decimal'' else ''integer''))) None), rest))"

definition boolean_literal :: "rdf_term lex" where
  "boolean_literal = act_bind read_bare_word (\<lambda>word.
     if word = cps ''true'' \<or> word = cps ''false'' then act_return (Literal word (Some (xsd ''boolean'')) None)
     else lex_error (''expected a term, found '' @ quoted (utf8 word)))"

section \<open>The parser\<close>

datatype turtle_node = NodeIri utext | NodeBlank utext

fun into_resource :: "turtle_node \<Rightarrow> rdf_resource" where
  "into_resource (NodeIri i) = Iri i"
| "into_resource (NodeBlank l) = BlankNode l"

fun into_term :: "turtle_node \<Rightarrow> rdf_term" where
  "into_term (NodeIri i) = IriTerm i"
| "into_term (NodeBlank l) = BlankTerm l"

record turtle =
  tp_chars :: utext
  tp_rest :: utext
  tp_base :: "utext option"
  tp_prefixes :: "utext \<Rightarrow> utext option"
  tp_counter :: nat
  tp_triples :: "rdf_triple list"

text \<open>
  An operation is refused with an error of the program; it panics where the code says
  \<open>unreachable\<close> or \<open>expect\<close>; \<open>OutOfFuel\<close> is not of the program but of the recursion below.
\<close>

datatype turtle_fault = Refused error | Panicked | OutOfFuel

type_synonym 'a parse = "(turtle, turtle_fault, 'a) act"

definition turtle_new :: "utext \<Rightarrow> turtle" where
  "turtle_new input = \<lparr>tp_chars = input, tp_rest = input, tp_base = None, tp_prefixes = Map.empty,
     tp_counter = 0, tp_triples = []\<rparr>"

definition line_column :: "utext \<Rightarrow> nat \<times> nat" where
  "line_column cs = foldl (\<lambda>(line, col) c. if c = 10 then (line + 1, 1) else (line, col + 1)) (1, 1) cs"

definition turtle_error :: "turtle \<Rightarrow> string \<Rightarrow> error" where
  "turtle_error p msg =
     (case line_column (take (length (tp_chars p) - length (tp_rest p)) (tp_chars p)) of
        (line, col) \<Rightarrow> Config (''Turtle parse error at line '' @ dec line @ '', column '' @ dec col @ '': '' @ msg))"

definition lexed :: "'a lex \<Rightarrow> 'a parse" where
  "lexed m p =
     (case m (tp_rest p) of
        (Inl msg, rest) \<Rightarrow> (Inl (Refused (turtle_error (p\<lparr>tp_rest := rest\<rparr>) msg)), p\<lparr>tp_rest := rest\<rparr>)
      | (Inr x, rest) \<Rightarrow> (Inr x, p\<lparr>tp_rest := rest\<rparr>))"

definition looking :: "(utext \<Rightarrow> 'a parse) \<Rightarrow> 'a parse" where
  "looking f p = f (tp_rest p) p"

definition resolve_iri :: "utext option \<Rightarrow> utext \<Rightarrow> utext" where
  "resolve_iri base raw =
     (if has_scheme raw then raw else case base of Some b \<Rightarrow> b @ raw | None \<Rightarrow> raw)"

definition read_iri_ref :: "utext parse" where
  "read_iri_ref = act_bind (lexed (act_bind (expect (CHR ''<'')) (\<lambda>_. iri_raw []))) (\<lambda>raw p.
     (Inr (resolve_iri (tp_base p) raw), p))"

definition read_prefixed_name :: "utext parse" where
  "read_prefixed_name = act_bind (lexed name_parts) (\<lambda>(name, local) p.
     case tp_prefixes p name of
       Some namespace \<Rightarrow> (Inr (namespace @ local), p)
     | None \<Rightarrow> lexed (lex_error (''unknown prefix '' @ quoted (utf8 name @ '':''))) p)"

definition iri_or_blank :: "turtle_node parse" where
  "iri_or_blank = act_bind (lexed skip_all) (\<lambda>_. looking (\<lambda>cs.
     case peek cs of
       None \<Rightarrow> lexed (lex_error ''expected a term'')
     | Some c \<Rightarrow>
         if c = cp (CHR ''<'') then act_bind read_iri_ref (\<lambda>i. act_return (NodeIri i))
         else if c = cp (CHR ''_'') then act_bind (lexed read_blank_label) (\<lambda>l. act_return (NodeBlank l))
         else act_bind read_prefixed_name (\<lambda>i. act_return (NodeIri i))))"

definition literal_suffix :: "utext \<Rightarrow> rdf_term parse" where
  "literal_suffix v = looking (\<lambda>cs.
     if peek cs = Some (cp (CHR ''@'')) then
       act_bind (lexed (advance_chars 1)) (\<lambda>_. act_bind (lexed read_language_tag) (\<lambda>tag.
         act_return (Literal v None (Some tag))))
     else if take 2 cs = cps ''^^'' then
       act_bind (lexed (advance_chars 2)) (\<lambda>_. act_bind (lexed skip_all) (\<lambda>_. looking (\<lambda>cs.
         act_bind (if peek cs = Some (cp (CHR ''<'')) then read_iri_ref else read_prefixed_name) (\<lambda>dt.
           act_return (Literal v (Some dt) None)))))
     else act_return (Literal v None None))"

definition string_literal :: "rdf_term parse" where
  "string_literal = looking (\<lambda>cs.
     case peek cs of
       None \<Rightarrow> act_fail Panicked
     | Some q \<Rightarrow>
         act_bind (lexed (advance_chars 1)) (\<lambda>_. looking (\<lambda>cs.
           let triple = (take 2 cs = [q, q]) in
           act_bind (lexed (advance_chars (if triple then 2 else 0))) (\<lambda>_.
           act_bind (lexed (read_string_body q triple [])) literal_suffix))))"

definition fresh_blank :: "turtle_node parse" where
  "fresh_blank p = (Inr (NodeBlank (cps (''_bnl'' @ dec (tp_counter p + 1)))), p\<lparr>tp_counter := tp_counter p + 1\<rparr>)"

definition push_triple :: "turtle_node \<Rightarrow> utext \<Rightarrow> rdf_term \<Rightarrow> unit parse" where
  "push_triple s pred t p =
     (Inr (), p\<lparr>tp_triples := tp_triples p @ [\<lparr>tr_subject = into_resource s, tr_predicate = pred, tr_object = t,
        tr_graph = None\<rparr>]\<rparr>)"

definition verb :: "utext parse" where
  "verb = act_bind (lexed skip_all) (\<lambda>_. looking (\<lambda>cs.
     if peek cs = Some (cp (CHR ''a'')) \<and> is_token_boundary (drop 1 cs)
     then act_bind (lexed (advance_chars 1)) (\<lambda>_. act_return (rdf_ns ''type''))
     else act_bind iri_or_blank (\<lambda>node.
       case node of
         NodeIri i \<Rightarrow> act_return i
       | NodeBlank l \<Rightarrow> lexed (lex_error ''a predicate must be an IRI, not a blank node''))))"

text \<open>The chain of cells that \<open>collection\<close> builds from its items, from the cell \<open>current\<close> on.\<close>

fun build_cells :: "turtle_node \<Rightarrow> rdf_term list \<Rightarrow> unit parse" where
  "build_cells current [] = act_return ()"
| "build_cells current (item # items) =
     act_bind (push_triple current (rdf_ns ''first'') item) (\<lambda>_.
       if items = [] then push_triple current (rdf_ns ''rest'') (IriTerm (rdf_ns ''nil''))
       else act_bind fresh_blank (\<lambda>next.
         act_bind (push_triple current (rdf_ns ''rest'') (into_term next)) (\<lambda>_. build_cells next items)))"

definition build_collection :: "rdf_term list \<Rightarrow> turtle_node parse" where
  "build_collection items =
     (if items = [] then act_return (NodeIri (rdf_ns ''nil''))
      else act_bind fresh_blank (\<lambda>first. act_bind (build_cells first items) (\<lambda>_. act_return first)))"

section \<open>The grammar\<close>

text \<open>
  The rules call each other and loop; every call counts down the fuel, which is only there to make
  the recursion structural: \<open>turtle_total\<close> shows that the fuel \<open>parse_turtle\<close> gives is enough.
\<close>

fun predicate_object_list :: "nat \<Rightarrow> turtle_node \<Rightarrow> unit parse"
  and object_list :: "nat \<Rightarrow> turtle_node \<Rightarrow> utext \<Rightarrow> unit parse"
  and turtle_object :: "nat \<Rightarrow> rdf_term parse"
  and blank_node_property_list :: "nat \<Rightarrow> turtle_node parse"
  and collection :: "nat \<Rightarrow> turtle_node parse"
  and collection_items :: "nat \<Rightarrow> rdf_term list \<Rightarrow> rdf_term list parse"
where
  "predicate_object_list 0 s = act_fail OutOfFuel"
| "predicate_object_list (Suc n) s =
     act_bind (lexed skip_all) (\<lambda>_. act_bind verb (\<lambda>pred. act_bind (object_list n s pred) (\<lambda>_.
       act_bind (lexed skip_all) (\<lambda>_. looking (\<lambda>cs.
         if peek cs = Some (cp (CHR '';'')) then
           act_bind (lexed (advance_chars 1)) (\<lambda>_. act_bind (lexed skip_all) (\<lambda>_. looking (\<lambda>cs.
             if peek cs \<in> {Some (cp (CHR ''.'')), Some (cp (CHR '']'')), None} then act_return ()
             else predicate_object_list n s)))
         else act_return ())))))"
| "object_list 0 s pred = act_fail OutOfFuel"
| "object_list (Suc n) s pred =
     act_bind (lexed skip_all) (\<lambda>_. act_bind (turtle_object n) (\<lambda>t. act_bind (push_triple s pred t) (\<lambda>_.
       act_bind (lexed skip_all) (\<lambda>_. looking (\<lambda>cs.
         if peek cs = Some (cp (CHR '','')) then act_bind (lexed (advance_chars 1)) (\<lambda>_. object_list n s pred)
         else act_return ())))))"
| "turtle_object 0 = act_fail OutOfFuel"
| "turtle_object (Suc n) =
     act_bind (lexed skip_all) (\<lambda>_. looking (\<lambda>cs.
       case peek cs of
         None \<Rightarrow> act_bind iri_or_blank (\<lambda>node. act_return (into_term node))
       | Some c \<Rightarrow>
           if c = cp (CHR ''['') then act_bind (blank_node_property_list n) (\<lambda>node. act_return (into_term node))
           else if c = cp (CHR ''('') then act_bind (collection n) (\<lambda>node. act_return (into_term node))
           else if c = cp (CHR 0x22) \<or> c = cp (CHR 0x27) then string_literal
           else if c \<in> {cp (CHR ''+''), cp (CHR ''-''), cp (CHR ''.'')} \<or> cp_digit c then lexed numeric_literal
           else if c \<in> {cp (CHR ''t''), cp (CHR ''f'')} \<and> peek_boolean cs then lexed boolean_literal
           else act_bind iri_or_blank (\<lambda>node. act_return (into_term node))))"
| "blank_node_property_list 0 = act_fail OutOfFuel"
| "blank_node_property_list (Suc n) =
     act_bind (lexed (expect (CHR ''[''))) (\<lambda>_. act_bind fresh_blank (\<lambda>node.
       act_bind (lexed skip_all) (\<lambda>_. looking (\<lambda>cs.
         if peek cs = Some (cp (CHR '']'')) then act_bind (lexed (advance_chars 1)) (\<lambda>_. act_return node)
         else act_bind (predicate_object_list n node) (\<lambda>_. act_bind (lexed skip_all) (\<lambda>_.
                act_bind (lexed (expect (CHR '']''))) (\<lambda>_. act_return node)))))))"
| "collection 0 = act_fail OutOfFuel"
| "collection (Suc n) =
     act_bind (lexed (expect (CHR ''(''))) (\<lambda>_. act_bind (collection_items n []) build_collection)"
| "collection_items 0 items = act_fail OutOfFuel"
| "collection_items (Suc n) items =
     act_bind (lexed skip_all) (\<lambda>_. looking (\<lambda>cs.
       case peek cs of
         None \<Rightarrow> lexed (lex_error ''unterminated collection'')
       | Some c \<Rightarrow>
           if c = cp (CHR '')'') then act_bind (lexed (advance_chars 1)) (\<lambda>_. act_return items)
           else act_bind (turtle_object n) (\<lambda>t. collection_items n (items @ [t]))))"

definition read_subject :: "nat \<Rightarrow> turtle_node parse" where
  "read_subject n = act_bind (lexed skip_all) (\<lambda>_. looking (\<lambda>cs.
     if peek cs = Some (cp (CHR ''['')) then blank_node_property_list n
     else if peek cs = Some (cp (CHR ''('')) then collection n
     else iri_or_blank))"

definition turtle_statement :: "nat \<Rightarrow> unit parse" where
  "turtle_statement n = act_bind (read_subject n) (\<lambda>s. act_bind (lexed skip_all) (\<lambda>_.
     act_bind (predicate_object_list n s) (\<lambda>_. act_bind (lexed skip_all) (\<lambda>_. lexed (expect (CHR ''.''))))))"

section \<open>Directives and documents\<close>

definition read_prefix_binding :: "(utext \<times> utext) parse" where
  "read_prefix_binding = act_bind (lexed binding_name) (\<lambda>name. act_bind (lexed skip_all) (\<lambda>_.
     act_bind read_iri_ref (\<lambda>iri. act_return (name, iri))))"

definition set_prefix :: "utext \<times> utext \<Rightarrow> unit parse" where
  "set_prefix b p = (Inr (), p\<lparr>tp_prefixes := (tp_prefixes p)(fst b \<mapsto> snd b)\<rparr>)"

definition set_base :: "utext \<Rightarrow> unit parse" where
  "set_base iri p = (Inr (), p\<lparr>tp_base := Some iri\<rparr>)"

definition directive :: "unit parse" where
  "directive = act_bind (lexed (expect (CHR ''@''))) (\<lambda>_. act_bind (lexed read_bare_word) (\<lambda>word.
     act_bind
       (if word = cps ''prefix'' then act_bind (lexed skip_all) (\<lambda>_. act_bind read_prefix_binding set_prefix)
        else if word = cps ''base'' then act_bind (lexed skip_all) (\<lambda>_. act_bind read_iri_ref set_base)
        else lexed (lex_error (''unknown directive '' @ quoted (CHR ''@'' # utf8 word))))
       (\<lambda>_. act_bind (lexed skip_all) (\<lambda>_. lexed (expect (CHR ''.''))))))"

definition sparql_directive :: "unit parse" where
  "sparql_directive = act_bind (lexed read_bare_word) (\<lambda>word. act_bind (lexed skip_all) (\<lambda>_.
     if map cp_lower word = cps ''prefix'' then act_bind read_prefix_binding set_prefix
     else if map cp_lower word = cps ''base'' then act_bind read_iri_ref set_base
     else act_fail Panicked))"

fun read_document :: "nat \<Rightarrow> unit parse" where
  "read_document 0 = act_fail OutOfFuel"
| "read_document (Suc n) =
     act_bind (lexed skip_all) (\<lambda>_. looking (\<lambda>cs.
       case peek cs of
         None \<Rightarrow> act_return ()
       | Some c \<Rightarrow>
           act_bind
             (if c = cp (CHR ''@'') then directive
              else if matches_keyword_ci ''prefix'' cs \<or> matches_keyword_ci ''base'' cs then sparql_directive
              else turtle_statement n)
             (\<lambda>_. read_document n)))"

definition turtle_fuel :: "utext \<Rightarrow> nat" where
  "turtle_fuel input = 4 * length input + 4"

definition parse_turtle :: "utext \<Rightarrow> turtle_fault + rdf_triple list" where
  "parse_turtle input =
     (case read_document (turtle_fuel input) (turtle_new input) of
        (Inl f, p) \<Rightarrow> Inl f
      | (Inr _, p) \<Rightarrow> Inr (tp_triples p))"

text \<open>\<open>read_rdf_triples\<close>: the lines formats as a stream, Turtle as a whole document.\<close>

definition read_rdf_triples ::
  "(error \<Rightarrow> string) \<Rightarrow> rdf_format \<Rightarrow> bytes \<Rightarrow> string option \<Rightarrow> (turtle_fault + rdf_triple) list"
where
  "read_rdf_triples show_error fmt content failure =
     (if fmt \<noteq> Turtle then map (map_sum Refused id) (read_rdf_lines show_error fmt content failure)
      else case failure of
        Some err \<Rightarrow> [Inl (Refused (read_failure err))]
      | None \<Rightarrow>
          (case from_utf8 content of
             None \<Rightarrow> [Inl (Refused (Config ''Turtle input is not valid UTF-8''))]
           | Some input \<Rightarrow>
               (case parse_turtle input of Inl f \<Rightarrow> [Inl f] | Inr ts \<Rightarrow> map Inr ts)))"

section \<open>Progress\<close>

text \<open>
  \<open>advances k m p\<close>: run from \<open>p\<close>, \<open>m\<close> fails only with an error of the program and otherwise
  consumes at least \<open>k\<close> characters.
\<close>

definition advances :: "nat \<Rightarrow> 'a parse \<Rightarrow> turtle \<Rightarrow> bool" where
  "advances k m p \<longleftrightarrow>
     (case m p of
        (Inl f, p1) \<Rightarrow> (\<exists>e. f = Refused e)
      | (Inr x, p1) \<Rightarrow> length (tp_rest p1) + k \<le> length (tp_rest p))"

definition lex_advances :: "nat \<Rightarrow> 'a lex \<Rightarrow> utext \<Rightarrow> bool" where
  "lex_advances k m cs \<longleftrightarrow> (case m cs of (Inl msg, rest) \<Rightarrow> True | (Inr x, rest) \<Rightarrow> length rest + k \<le> length cs)"

named_theorems advance_intros \<open>progress of the operations of the parser\<close>

lemma advances_bind:
  assumes "advances j m p" "\<And>x p1. m p = (Inr x, p1) \<Longrightarrow> length (tp_rest p1) + j \<le> length (tp_rest p) \<Longrightarrow> advances i (f x) p1"
    and "k \<le> j + i"
  shows "advances k (act_bind m f) p"
proof (cases "m p")
  case (Pair r p1)
  show ?thesis
  proof (cases r)
    case (Inr x)
    then have "length (tp_rest p1) + j \<le> length (tp_rest p)" using assms(1) Pair by (simp add: advances_def)
    moreover from this have "advances i (f x) p1" using assms(2) Pair Inr by simp
    ultimately show ?thesis using Pair Inr assms(3)
      by (auto simp: advances_def act_bind_def split: prod.splits sum.splits)
  qed (use assms(1) Pair in \<open>simp add: advances_def act_bind_def\<close>)
qed

lemma lex_advances_bind:
  assumes "lex_advances j m cs" "\<And>x rest. lex_advances i (f x) rest" and "k \<le> j + i"
  shows "lex_advances k (act_bind m f) cs"
proof (cases "m cs")
  case (Pair r rest)
  then show ?thesis using assms(1,3) assms(2) [of "projr r" rest]
    by (cases r) (auto simp: lex_advances_def act_bind_def split: prod.splits sum.splits)
qed

lemma advances_lexed: "lex_advances k m (tp_rest p) \<Longrightarrow> advances k (lexed m) p"
  by (auto simp: advances_def lex_advances_def lexed_def split: prod.splits sum.splits)

lemma advances_looking: "advances k (f (tp_rest p)) p \<Longrightarrow> advances k (looking f) p"
  by (simp add: advances_def looking_def)

lemma advances_mono: "advances k m p \<Longrightarrow> j \<le> k \<Longrightarrow> advances j m p"
  by (auto simp: advances_def split: prod.splits sum.splits)

lemma advances_return: "advances 0 (act_return x) p"
  by (simp add: advances_def)

lemma advances_error: "advances k (lexed (lex_error msg)) p"
  by (simp add: advances_def lexed_def lex_error_def)

lemma skip_ws_length: "length (skip_ws cs) \<le> length cs"
proof (induction cs rule: skip_ws.induct)
  case (2 c cs)
  have "length (drop 1 (dropWhile (\<lambda>x. x \<noteq> 10) cs)) \<le> length cs"
    using length_dropWhile_le [of "\<lambda>x. x \<noteq> 10" cs] by simp
  then show ?case using 2 by fastforce
qed simp

lemma peek_Some: "peek cs = Some c \<longleftrightarrow> (\<exists>rest. cs = c # rest)"
  by (cases cs) (simp_all add: peek_def)

lemma advances_skip: "advances 0 (lexed skip_all) p"
  by (intro advances_lexed) (simp add: lex_advances_def skip_all_def skip_ws_length)

lemma advances_advance: "peek (tp_rest p) = Some c \<Longrightarrow> advances (Suc 0) (lexed (advance_chars 1)) p"
  by (auto intro!: advances_lexed simp: lex_advances_def advance_chars_def peek_Some)

lemmas advances_step = advances_advance [unfolded One_nat_def]

lemma lex_advance_any: "lex_advances 0 (advance_chars n) cs"
  by (simp add: lex_advances_def advance_chars_def)

lemma lex_expect: "lex_advances (Suc 0) (expect x) cs"
  by (simp add: lex_advances_def expect_def split: list.splits)

lemma lex_bare_word: "lex_advances 0 read_bare_word cs"
  by (simp add: lex_advances_def read_bare_word_def length_dropWhile_le)

lemma lex_iri_raw: "lex_advances (Suc 0) (iri_raw raw) cs"
proof (induction raw cs rule: iri_raw.induct)
  case (2 raw c cs)
  show ?case
  proof (cases "c = cp (CHR 0x5C) \<and> cs \<noteq> []")
    case True
    then obtain e rest where e: "cs = e # rest" by (cases cs) auto
    show ?thesis
    proof (cases "turtle_hex (if e = cp (CHR ''u'') then 4 else 8) rest")
      case (Pair r rest1)
      then have "length rest1 \<le> length rest" by (rule turtle_hex_length)
      then show ?thesis using 2(1) True e Pair
        by (cases r) (fastforce simp: lex_advances_def split: prod.splits sum.splits)+
    qed
  qed (use 2(2) in \<open>auto simp: lex_advances_def split: prod.splits sum.splits list.splits\<close>)
qed (simp add: lex_advances_def)

lemma lex_blank_label: "lex_advances (Suc 0) read_blank_label cs"
proof -
  have "lex_advances 0 (\<lambda>cs. let label = takeWhile is_pn_local_char cs in
     if label = [] then (Inl ''empty blank node label'', cs)
     else (Inr (cps ''u_'' @ label), dropWhile is_pn_local_char cs)) rest" for rest
    by (simp add: lex_advances_def Let_def length_dropWhile_le)
  then show ?thesis unfolding read_blank_label_def
    by (intro lex_advances_bind [where j = "Suc 0" and i = "Suc 0"] lex_advances_bind [where j = "Suc 0" and i = 0] lex_expect) simp_all
qed

lemma lex_name_parts: "lex_advances (Suc 0) name_parts cs"
  by (auto simp: lex_advances_def name_parts_def Let_def expect_def act_bind_def peek_Some
      simp del: length_drop split: option.splits list.splits)
     (auto dest!: arg_cong [where f = length] simp: peek_def split: list.splits)

lemma lex_binding_name: "lex_advances (Suc 0) binding_name cs"
  by (auto simp: lex_advances_def binding_name_def Let_def expect_def act_bind_def peek_Some
      simp del: length_drop split: option.splits list.splits)
     (auto dest!: arg_cong [where f = length] simp: peek_def split: list.splits)

lemma lex_string_body: "lex_advances (Suc 0) (read_string_body q triple v) cs"
proof (induction q triple v cs rule: read_string_body.induct)
  case (2 q triple v c cs)
  consider "c = q" "\<not> triple" | "c = q" "triple" "take 2 cs = [q, q]" | "c = q" "triple" "take 2 cs \<noteq> [q, q]"
    | "c \<noteq> q" "c = cp (CHR 0x5C)" | "c \<noteq> q" "c \<noteq> cp (CHR 0x5C)" by blast
  then show ?case
  proof cases
    case 4
    show ?thesis
    proof (cases "read_string_escape cs")
      case (Pair r rest)
      then have "length rest \<le> length cs" by (rule read_string_escape_length)
      then show ?thesis using 2(2) 4 Pair
        by (cases r) (fastforce simp: lex_advances_def split: prod.splits sum.splits)+
    qed
  qed (use 2(1,3) in \<open>auto simp: lex_advances_def split: prod.splits sum.splits\<close>)
qed (simp add: lex_advances_def)

lemma lex_language_tag: "lex_advances 0 read_language_tag cs"
  by (simp add: lex_advances_def read_language_tag_def Let_def length_dropWhile_le)

lemma lex_numeric: "lex_advances (Suc 0) numeric_literal cs"
proof (cases "number_tail False False (skip_sign cs)")
  case (fields d e rest)
  then show ?thesis
    by (cases "length cs \<le> length rest") (simp_all add: lex_advances_def numeric_literal_def Let_def)
qed

lemma lex_boolean: "lex_advances (Suc 0) boolean_literal cs"
proof -
  have "lex_advances (Suc 0) boolean_literal cs" if "takeWhile cp_alpha cs \<noteq> []"
  proof -
    have "length (takeWhile cp_alpha cs) + length (dropWhile cp_alpha cs) = length cs"
      by (metis length_append takeWhile_dropWhile_id)
    then have "length (dropWhile cp_alpha cs) < length cs" using that by (cases "takeWhile cp_alpha cs") simp_all
    then show ?thesis by (simp add: lex_advances_def boolean_literal_def act_bind_def read_bare_word_def lex_error_def)
  qed
  moreover have "lex_advances (Suc 0) boolean_literal cs" if "takeWhile cp_alpha cs = []"
    using that by (simp add: lex_advances_def boolean_literal_def act_bind_def read_bare_word_def lex_error_def)
  ultimately show ?thesis by blast
qed

text \<open>The operations of the parser below the grammar.\<close>

lemma advances_pure:
  "m p = (Inr x, p1) \<Longrightarrow> tp_rest p1 = tp_rest p \<Longrightarrow> advances 0 m p"
  by (simp add: advances_def)

lemma advances_small:
  "advances 0 fresh_blank p" "advances 0 (push_triple s pred t) p" "advances 0 (set_prefix b) p"
  "advances 0 (set_base i) p"
  by (simp_all add: advances_def fresh_blank_def push_triple_def set_prefix_def set_base_def)

lemma lex_advances_mono: "lex_advances k m cs \<Longrightarrow> j \<le> k \<Longrightarrow> lex_advances j m cs"
  by (auto simp: lex_advances_def split: prod.splits sum.splits)

lemma advances_iri_ref: "advances (Suc 0) read_iri_ref p"
proof -
  have "lex_advances (Suc 0) (act_bind (expect (CHR ''<'')) (\<lambda>_. iri_raw [])) cs" for cs
    by (rule lex_advances_bind [OF lex_expect lex_iri_raw]) simp
  then show ?thesis unfolding read_iri_ref_def
    by (intro advances_bind [where j = "Suc 0" and i = 0] advances_lexed) (simp_all add: advances_def)
qed

lemma advances_prefixed_name: "advances (Suc 0) read_prefixed_name p"
  unfolding read_prefixed_name_def
  by (intro advances_bind [where j = "Suc 0" and i = 0] advances_lexed lex_name_parts)
    (auto simp: advances_def lexed_def lex_error_def split: option.splits)

lemmas advance_first = advances_bind [where j = "Suc 0" and i = 0 and k = "Suc 0"]
lemmas advance_then = advances_bind [where j = 0]

lemma advances_iri_or_blank: "advances (Suc 0) iri_or_blank p"
  unfolding iri_or_blank_def
  by (rule advance_then [where i = "Suc 0"], rule advances_skip)
    (auto intro!: advances_looking advances_error advance_first advances_iri_ref advances_prefixed_name
      advances_return advances_lexed lex_blank_label split: option.splits)

lemma advances_verb: "advances (Suc 0) verb p"
  unfolding verb_def
  by (rule advance_then [where i = "Suc 0"], rule advances_skip)
    (auto intro!: advances_looking advances_error advance_first advances_iri_or_blank
      advances_return advances_step split: turtle_node.splits)

lemma advances_literal_suffix: "advances 0 (literal_suffix v) p"
proof -
  have "advances 0 (if b then read_iri_ref else read_prefixed_name) p1" for b p1
    using advances_iri_ref advances_prefixed_name by (auto intro: advances_mono)
  then show ?thesis unfolding literal_suffix_def
    by (auto intro!: advances_looking advance_then [where i = 0] advances_return advances_lexed lex_advance_any
      lex_language_tag advances_skip simp: skip_all_def)
qed

lemma advances_string_literal:
  assumes "peek (tp_rest p) = Some c"
  shows "advances (Suc 0) string_literal p"
  unfolding string_literal_def Let_def
  apply (rule advances_looking)
  apply (simp only: assms option.case)
  apply (rule advance_first, rule advances_advance [OF assms])
   apply (rule advances_looking)
   apply (rule advance_then [where i = 0], rule advances_lexed, rule lex_advance_any)
    apply (rule advance_then [where i = 0], rule advances_lexed, rule lex_advances_mono [OF lex_string_body])
  by (simp_all add: advances_literal_suffix)

lemma advances_build_cells: "advances 0 (build_cells current items) p"
  by (induction current items arbitrary: p rule: build_cells.induct)
    (auto intro!: advances_return advance_then [where i = 0] advances_small)

lemma advances_build: "advances 0 (build_collection items) p"
  unfolding build_collection_def
  by (auto intro!: advances_return advance_then [where i = 0] advances_small advances_build_cells)

text \<open>The grammar: four units of fuel for every character are enough.\<close>

lemma grammar_advances:
  "(4 * length (tp_rest p) + 1 \<le> n \<longrightarrow> advances (Suc 0) (predicate_object_list n s) p)
   \<and> (4 * length (tp_rest p) + 3 \<le> n \<longrightarrow> advances (Suc 0) (object_list n s pred) p)
   \<and> (4 * length (tp_rest p) + 2 \<le> n \<longrightarrow> advances (Suc 0) (turtle_object n) p)
   \<and> (4 * length (tp_rest p) + 1 \<le> n \<longrightarrow> advances (Suc 0) (blank_node_property_list n) p)
   \<and> (4 * length (tp_rest p) + 1 \<le> n \<longrightarrow> advances (Suc 0) (collection n) p)
   \<and> (4 * length (tp_rest p) + 3 \<le> n \<longrightarrow> advances (Suc 0) (collection_items n items) p)"
proof (induction n arbitrary: p s pred items)
  case (Suc n)
  have pol: "4 * length (tp_rest p) + 1 \<le> n \<Longrightarrow> advances (Suc 0) (predicate_object_list n s) p"
    and ol: "4 * length (tp_rest p) + 3 \<le> n \<Longrightarrow> advances (Suc 0) (object_list n s pred) p"
    and obj: "4 * length (tp_rest p) + 2 \<le> n \<Longrightarrow> advances (Suc 0) (turtle_object n) p"
    and bnpl: "4 * length (tp_rest p) + 1 \<le> n \<Longrightarrow> advances (Suc 0) (blank_node_property_list n) p"
    and coll: "4 * length (tp_rest p) + 1 \<le> n \<Longrightarrow> advances (Suc 0) (collection n) p"
    and its: "4 * length (tp_rest p) + 3 \<le> n \<Longrightarrow> advances (Suc 0) (collection_items n items) p" for p s pred items
    using Suc.IH by blast+
  have "advances (Suc 0) (predicate_object_list (Suc n) s) p" if f: "4 * length (tp_rest p) + 1 \<le> Suc n"
  proof -
    have tail: "advances 0 (looking (\<lambda>cs.
         if peek cs = Some (cp (CHR '';'')) then
           act_bind (lexed (advance_chars 1)) (\<lambda>_. act_bind (lexed skip_all) (\<lambda>_. looking (\<lambda>cs.
             if peek cs \<in> {Some (cp (CHR ''.'')), Some (cp (CHR '']'')), None} then act_return ()
             else predicate_object_list n s)))
         else act_return ())) p1" if "4 * length (tp_rest p1) + 1 \<le> n" for p1
      apply (rule advances_looking)
      apply (simp only: split: if_split, intro conjI impI)
       apply (rule advance_then [where i = 0], rule advances_lexed, rule lex_advance_any)
        apply (rule advance_then [where i = 0], rule advances_skip, rule advances_looking)
         apply (simp only: split: if_split, intro conjI impI)
          apply (rule advances_return)
         apply (rule advances_mono [OF pol], use that in linarith, simp_all add: advances_return)
      done
    show ?thesis
      apply (subst predicate_object_list.simps)
      apply (rule advance_then [where i = "Suc 0"], rule advances_skip)
       apply (rule advance_first, rule advances_verb)
        apply (rule advance_then [where i = 0], rule advances_mono [OF ol], use f in linarith, simp)
         apply (rule advance_then [where i = 0], rule advances_skip)
          apply (rule tail, use f in linarith)
      by simp_all
  qed
  moreover have "advances (Suc 0) (object_list (Suc n) s pred) p" if f: "4 * length (tp_rest p) + 3 \<le> Suc n"
  proof -
    have tail: "advances 0 (looking (\<lambda>cs.
         if peek cs = Some (cp (CHR '','')) then act_bind (lexed (advance_chars 1)) (\<lambda>_. object_list n s pred)
         else act_return ())) p1" if "4 * length (tp_rest p1) + 3 \<le> n" for p1
      apply (rule advances_looking)
      apply (simp only: split: if_split, intro conjI impI)
       apply (rule advance_then [where i = 0], rule advances_lexed, rule lex_advance_any)
        apply (rule advances_mono [OF ol], use that in linarith, simp_all add: advances_return)
      done
    show ?thesis
      apply (subst object_list.simps)
      apply (rule advance_then [where i = "Suc 0"], rule advances_skip)
       apply (rule advance_first, rule obj, use f in linarith)
        apply (rule advance_then [where i = 0], rule advances_small)
         apply (rule advance_then [where i = 0], rule advances_skip)
          apply (rule tail, use f in linarith)
      by simp_all
  qed
  moreover have "advances (Suc 0) (turtle_object (Suc n)) p" if f: "4 * length (tp_rest p) + 2 \<le> Suc n"
    apply (subst turtle_object.simps)
    apply (rule advance_then [where i = "Suc 0"], rule advances_skip)
     apply (rule advances_looking)
    using f
     apply (auto intro!: advance_first advances_iri_or_blank advances_return bnpl coll advances_string_literal
        advances_lexed lex_numeric lex_boolean split: option.split)
    done
  moreover have "advances (Suc 0) (blank_node_property_list (Suc n)) p" if f: "4 * length (tp_rest p) + 1 \<le> Suc n"
    apply (subst blank_node_property_list.simps)
    apply (rule advance_first, rule advances_lexed, rule lex_expect)
     apply (rule advance_then [where i = 0], rule advances_small)
      apply (rule advance_then [where i = 0], rule advances_skip)
       apply (rule advances_looking)
       apply (simp only: split: if_split, intro conjI impI)
        apply (rule advance_then [where i = 0], rule advances_lexed, rule lex_advance_any)
         apply (rule advances_return)
        apply simp
       apply (rule advance_then [where i = 0], rule advances_mono [OF pol], use f in linarith, simp)
        apply (rule advance_then [where i = 0], rule advances_skip)
         apply (rule advance_then [where i = 0], rule advances_lexed, rule lex_advances_mono [OF lex_expect])
          apply simp
         apply (rule advances_return)
    by simp_all
  moreover have "advances (Suc 0) (collection (Suc n)) p" if f: "4 * length (tp_rest p) + 1 \<le> Suc n"
    apply (subst collection.simps)
    apply (rule advance_first, rule advances_lexed, rule lex_expect)
     apply (rule advance_then [where i = 0], rule advances_mono [OF its], use f in linarith, simp)
      apply (rule advances_build)
    by simp_all
  moreover have "advances (Suc 0) (collection_items (Suc n) items) p" if f: "4 * length (tp_rest p) + 3 \<le> Suc n"
    apply (subst collection_items.simps)
    apply (rule advance_then [where i = "Suc 0"], rule advances_skip)
     apply (rule advances_looking)
    using f
     apply (auto intro!: advance_first advances_error advances_return advances_step split: option.split)
     apply (rule obj, simp)
    apply (rule advances_mono [OF its], simp_all)
    done
  ultimately show ?case by blast
qed simp

lemma statement_advances: "4 * length (tp_rest p) + 3 \<le> n \<Longrightarrow> advances (Suc 0) (turtle_statement n) p"
proof -
  assume f: "4 * length (tp_rest p) + 3 \<le> n"
  have rules: "4 * length (tp_rest p1) + 1 \<le> n \<Longrightarrow> advances (Suc 0) (predicate_object_list n s) p1"
    "4 * length (tp_rest p1) + 1 \<le> n \<Longrightarrow> advances (Suc 0) (blank_node_property_list n) p1"
    "4 * length (tp_rest p1) + 1 \<le> n \<Longrightarrow> advances (Suc 0) (collection n) p1" for p1 s
    using grammar_advances by blast+
  have subject: "advances (Suc 0) (read_subject n) p"
    unfolding read_subject_def
    by (rule advance_then [where i = "Suc 0"], rule advances_skip)
      (use f in \<open>auto intro!: advances_looking rules advances_iri_or_blank\<close>)
  show ?thesis
    unfolding turtle_statement_def
    apply (rule advance_first, rule subject)
     apply (rule advance_then [where i = 0], rule advances_skip)
      apply (rule advance_then [where i = 0], rule advances_mono [OF rules(1)], use f in linarith, simp)
       apply (rule advance_then [where i = 0], rule advances_skip)
        apply (rule advances_lexed, rule lex_advances_mono [OF lex_expect])
    by simp_all
qed

lemma advances_binding: "advances (Suc 0) (act_bind read_prefix_binding set_prefix) p"
proof -
  have "advances (Suc 0) read_prefix_binding p"
    unfolding read_prefix_binding_def
    apply (rule advance_first, rule advances_lexed, rule lex_binding_name)
     apply (rule advance_then [where i = 0], rule advances_skip)
      apply (rule advance_then [where i = 0], rule advances_mono [OF advances_iri_ref])
    by (simp_all add: advances_return)
  then show ?thesis by (rule advance_first) (simp_all add: advances_small)
qed

lemma advances_set_base: "advances (Suc 0) (act_bind read_iri_ref set_base) p"
  by (rule advance_first) (simp_all add: advances_iri_ref advances_small)

lemma directive_advances: "advances (Suc 0) directive p"
proof -
  have dot: "advances 0 (act_bind (lexed skip_all) (\<lambda>_. lexed (expect (CHR ''.'')))) p1" for p1
    by (rule advance_then [where i = 0], rule advances_skip)
      (auto intro: advances_lexed lex_advances_mono [OF lex_expect])
  have body: "advances 0 (if b1 then act_bind (lexed skip_all) (\<lambda>_. act_bind read_prefix_binding set_prefix)
        else if b2 then act_bind (lexed skip_all) (\<lambda>_. act_bind read_iri_ref set_base)
        else lexed (lex_error msg)) p1" for b1 b2 msg p1
    by (auto intro!: advance_then [where i = 0] advances_skip advances_mono [OF advances_binding]
        advances_mono [OF advances_set_base] advances_error)
  show ?thesis
    unfolding directive_def
    apply (rule advance_first, rule advances_lexed, rule lex_expect)
     apply (rule advance_then [where i = 0], rule advances_lexed, rule lex_bare_word)
      apply (rule advance_then [where i = 0], rule body, rule dot)
    by simp_all
qed

text \<open>What \<open>matches_keyword_ci\<close> matched is the bare word that \<open>sparql_directive\<close> reads.\<close>

lemma boundary_not_alpha: "is_token_boundary cs \<Longrightarrow> takeWhile cp_alpha cs = []"
  by (cases cs) (auto simp: is_token_boundary_def cp_alpha_def cp_whitespace_def)

lemma lower_alpha: "97 \<le> cp_lower c \<Longrightarrow> cp_lower c \<le> 122 \<Longrightarrow> cp_alpha c"
  by (auto simp: cp_lower_def cp_alpha_def split: if_splits)

lemma keyword_word:
  assumes "matches_keyword_ci keyword cs" and "\<forall>c \<in> set (cps keyword). 97 \<le> c \<and> c \<le> 122"
  shows "map cp_lower (takeWhile cp_alpha cs) = cps keyword"
proof -
  let ?n = "length keyword"
  have "map cp_lower (cps keyword) = cps keyword"
    using assms(2) by (auto simp: cp_lower_def intro!: map_idI)
  then have low: "map cp_lower (take ?n cs) = cps keyword" using assms(1) by (simp only: matches_keyword_ci_def)
  have "cp_alpha c" if "c \<in> set (take ?n cs)" for c
  proof -
    have "cp_lower c \<in> set (cps keyword)" using that low by (metis imageI set_map)
    then show ?thesis using assms(2) by (intro lower_alpha) auto
  qed
  then have "takeWhile cp_alpha (take ?n cs @ drop ?n cs) = take ?n cs @ takeWhile cp_alpha (drop ?n cs)"
    by (intro takeWhile_append2)
  also have "\<dots> = take ?n cs" using assms(1) boundary_not_alpha by (simp add: matches_keyword_ci_def)
  finally show ?thesis using low by simp
qed

lemma sparql_advances:
  assumes "matches_keyword_ci ''prefix'' (tp_rest p) \<or> matches_keyword_ci ''base'' (tp_rest p)"
  shows "advances (Suc 0) sparql_directive p"
proof -
  let ?word = "takeWhile cp_alpha (tp_rest p)"
  have word: "map cp_lower ?word = cps ''prefix'' \<or> map cp_lower ?word = cps ''base''"
    using assms keyword_word [of "''prefix''" "tp_rest p"] keyword_word [of "''base''" "tp_rest p"] by auto
  have rest: "advances (Suc 0) (act_bind (lexed skip_all) (\<lambda>_.
     if map cp_lower ?word = cps ''prefix'' then act_bind read_prefix_binding set_prefix
     else if map cp_lower ?word = cps ''base'' then act_bind read_iri_ref set_base
     else act_fail Panicked)) p1" for p1
    using word
    by (intro advance_then [where i = "Suc 0"] advances_skip)
      (auto intro: advances_binding advances_set_base)
  have read: "x = ?word" if "lexed read_bare_word p = (Inr x, p1)" for x p1
    using that by (simp add: lexed_def read_bare_word_def)
  show ?thesis
    unfolding sparql_directive_def
    apply (rule advance_then [where i = "Suc 0"], rule advances_lexed, rule lex_bare_word)
     apply (drule read, simp only: rest)
    by simp
qed

lemma document_advances: "4 * length (tp_rest p) + 4 \<le> n \<Longrightarrow> advances 0 (read_document n) p"
proof (induction n arbitrary: p)
  case (Suc n)
  show ?case
    apply (subst read_document.simps)
    apply (rule advance_then [where i = 0], rule advances_skip)
     apply (rule advances_looking)
     apply (simp only: split: option.split, intro conjI impI allI)
      apply (rule advances_return)
     apply (rule advances_bind [where j = "Suc 0" and i = 0])
       apply (use Suc.prems in \<open>auto intro: directive_advances sparql_advances statement_advances\<close>)
    apply (rule Suc.IH)
    using Suc.prems by linarith
qed simp

text \<open>
  C30: the Turtle parser always returns: on every text it gives the triples or refuses it with a
  positioned error.  It never reaches the \<open>unreachable\<close> and \<open>expect\<close> of the code, and never runs
  out of fuel, so every loop of the grammar consumes input and no nesting of property lists and
  collections makes it run for ever.
\<close>

theorem turtle_total: "(\<exists>ts. parse_turtle input = Inr ts) \<or> (\<exists>e. parse_turtle input = Inl (Refused e))"
proof -
  have "advances 0 (read_document (turtle_fuel input)) (turtle_new input)"
    by (rule document_advances) (simp add: turtle_fuel_def turtle_new_def)
  then show ?thesis
    by (cases "read_document (turtle_fuel input) (turtle_new input)")
      (auto simp: parse_turtle_def advances_def split: sum.splits)
qed

end
