(* ===== verification/TurtleLines.thy ===== *)
theory TurtleLines
  imports TurtleParser
begin

text \<open>
  The two readers of \<open>arangodb-rdf\<close> on the same document: what is written one statement per line
  is read by the Turtle parser as by the line parser, but for the prefix \<open>u_\<close> that keeps the labels
  of a document apart from the generated ones.
\<close>

section \<open>Tokens of a written statement\<close>

lemma lexed_ok: "m (tp_rest p) = (Inr x, rest) \<Longrightarrow> lexed m p = (Inr x, p\<lparr>tp_rest := rest\<rparr>)"
  by (simp add: lexed_def)

lemma turtle_hex_iri:
  assumes "c < 256"
  shows "turtle_hex 4 (48 # 48 # hex_upper (c div 16) # hex_upper (c mod 16) # rest) = (Inr c, rest)"
proof -
  have c: "c div 16 < 16" using assms by simp
  have "hex_value 48 = Some 0" "hex_value (hex_upper (c div 16)) = Some (c div 16)"
    "hex_value (hex_upper (c mod 16)) = Some (c mod 16)"
    using c by (simp_all add: hex_upper_value) (simp add: hex_value_def cp_digit_def)
  moreover have "char_from_u32 c = Some c" using assms by (simp add: char_from_u32_def is_scalar_def)
  moreover have "hex_digits 4 = hex_digits (Suc (Suc (Suc (Suc 0))))"
    by (simp only: numeral_eq_Suc pred_numeral_simps BitM.simps One_nat_def numeral_One)
  ultimately show ?thesis by (simp add: turtle_hex_def act_bind_def)
qed

lemma iri_char_cases:
  obtains (escaped) "c < 256" "iri_char c = [92, cp (CHR ''u''), 48, 48, hex_upper (c div 16), hex_upper (c mod 16)]"
  | (plain) "iri_char c = [c]" "c \<noteq> 62" "c \<noteq> 92"
proof (cases "c \<le> 32 \<or> c \<in> {34, 60, 62, 92, 94, 96, 123, 124, 125}")
  case True
  then have "c < 256" by auto
  moreover have "iri_char c = [92, cp (CHR ''u''), 48, 48, hex_upper (c div 16), hex_upper (c mod 16)]"
    using True unfolding iri_char_def by (rule if_P)
  ultimately show ?thesis by (rule escaped)
next
  case False
  then have "iri_char c = [c]" "c \<noteq> 62" "c \<noteq> 92" unfolding iri_char_def by (auto simp only: if_False)
  then show ?thesis by (rule plain)
qed

lemma iri_raw_written: "iri_raw raw (concat (map iri_char i) @ 62 # rest) = (Inr (raw @ i), rest)"
proof (induction i arbitrary: raw)
  case (Cons c i)
  show ?case
  proof (cases c rule: iri_char_cases)
    case escaped
    then show ?thesis using Cons turtle_hex_iri by simp
  next
    case plain
    then show ?thesis using Cons by simp
  qed
qed simp

lemma read_iri_written:
  assumes "tp_rest p = write_iri i @ rest" and "tp_base p = None"
  shows "read_iri_ref p = (Inr i, p\<lparr>tp_rest := rest\<rparr>)"
proof -
  have "act_bind (expect (CHR ''<'')) (\<lambda>_. iri_raw []) (tp_rest p) = (Inr i, rest)"
    using iri_raw_written [of "[]" i rest] assms(1) by (simp add: act_bind_def expect_def write_iri_def)
  then have "lexed (act_bind (expect (CHR ''<'')) (\<lambda>_. iri_raw [])) p = (Inr i, p\<lparr>tp_rest := rest\<rparr>)"
    by (rule lexed_ok)
  then show ?thesis using assms(2) by (simp add: read_iri_ref_def act_bind_def resolve_iri_def)
qed

definition user_label :: "utext \<Rightarrow> utext" where
  "user_label l = cps ''u_'' @ l"

lemma read_label_written:
  assumes "l \<noteq> []" and "\<forall>c \<in> set l. is_pn_local_char c"
  shows "read_blank_label (95 # 58 # l @ 32 # rest) = (Inr (user_label l), 32 # rest)"
proof -
  have "takeWhile is_pn_local_char (l @ 32 # rest) = l \<and> dropWhile is_pn_local_char (l @ 32 # rest) = 32 # rest"
    using assms by (intro take_drop_while_append) (simp_all add: is_pn_local_char_def cp_alnum_def cp_alpha_def cp_digit_def)
  then show ?thesis using assms(1) by (simp add: read_blank_label_def act_bind_def expect_def user_label_def Let_def)
qed

lemma string_body_written:
  "read_string_body 34 False v (concat (map literal_char s) @ 34 # rest) = (Inr (v @ s), rest)"
proof (induction s arbitrary: v)
  case (Cons c s)
  consider "c = 34" | "c = 92" | "c = 10" | "c = 13" | "c \<notin> {34, 92, 10, 13}" by blast
  then show ?case using Cons by cases (simp_all add: literal_char_def read_string_escape_def)
qed simp

lemma skip_ws_simps [simp]:
  "skip_ws (32 # cs) = skip_ws cs" "skip_ws (10 # cs) = skip_ws cs"
  "\<not> cp_whitespace c \<Longrightarrow> c \<noteq> 35 \<Longrightarrow> skip_ws (c # cs) = c # cs"
  by (simp add: cp_whitespace_def, simp add: cp_whitespace_def, simp)

lemma blank_whitespace [simp]: "cp_whitespace 32" "cp_whitespace 10"
  by (simp_all add: cp_whitespace_def)

lemma peek_simps [simp]: "peek (c # cs) = Some c" "peek [] = None"
  by (simp_all add: peek_def)

section \<open>Terms of a written statement\<close>

fun turtle_term :: "rdf_term \<Rightarrow> rdf_term" where
  "turtle_term (BlankTerm l) = BlankTerm (user_label l)"
| "turtle_term t = t"

fun turtle_resource :: "rdf_resource \<Rightarrow> rdf_resource" where
  "turtle_resource (BlankNode l) = BlankNode (user_label l)"
| "turtle_resource (Iri i) = Iri i"

fun plain_term :: "rdf_term \<Rightarrow> bool" where
  "plain_term (BlankTerm l) = (l \<noteq> [] \<and> (\<forall>c \<in> set l. is_pn_local_char c))"
| "plain_term (IriTerm i) = True"
| "plain_term (Literal v dt lang) \<longleftrightarrow> (dt = None \<or> lang = None)
     \<and> (case lang of None \<Rightarrow> True | Some l \<Rightarrow> l \<noteq> [] \<and> (\<forall>c \<in> set l. tag_char c))"

lemma skip_all_lexed: "lexed skip_all p = (Inr (), p\<lparr>tp_rest := skip_ws (tp_rest p)\<rparr>)"
  by (simp add: lexed_def skip_all_def)

lemma advance_lexed: "lexed (advance_chars n) p = (Inr (), p\<lparr>tp_rest := drop n (tp_rest p)\<rparr>)"
  by (simp add: lexed_def advance_chars_def)

lemma expect_lexed: "tp_rest p = cp x # rest \<Longrightarrow> lexed (expect x) p = (Inr (), p\<lparr>tp_rest := rest\<rparr>)"
  by (simp add: lexed_def expect_def)

lemma node_written:
  assumes "tp_rest p = write_resource r @ 32 # rest" and "tp_base p = None" and "plain_term (resource_term r)"
  shows "\<exists>node. iri_or_blank p = (Inr node, p\<lparr>tp_rest := 32 # rest\<rparr>)
    \<and> into_resource node = turtle_resource r \<and> into_term node = turtle_term (resource_term r)"
proof (cases r)
  case (Iri i)
  have "write_iri i @ 32 # rest = 60 # (concat (map iri_char i) @ 62 # 32 # rest)" by (simp add: write_starts)
  then have skip: "skip_ws (tp_rest p) = tp_rest p" "peek (tp_rest p) = Some 60" "p\<lparr>tp_rest := tp_rest p\<rparr> = p"
    using assms(1) Iri by (simp_all add: cp_whitespace_def)
  have "read_iri_ref p = (Inr i, p\<lparr>tp_rest := 32 # rest\<rparr>)"
    using assms Iri by (intro read_iri_written) simp_all
  then show ?thesis using skip Iri
    by (intro exI [of _ "NodeIri i"]) (simp add: iri_or_blank_def act_bind_def looking_def skip_all_lexed)
next
  case (BlankNode l)
  then have "read_blank_label (tp_rest p) = (Inr (user_label l), 32 # rest)"
    using assms read_label_written [of l rest] by simp
  then have "lexed read_blank_label p = (Inr (user_label l), p\<lparr>tp_rest := 32 # rest\<rparr>)" by (rule lexed_ok)
  moreover have "skip_ws (tp_rest p) = tp_rest p" "peek (tp_rest p) = Some 95" "p\<lparr>tp_rest := tp_rest p\<rparr> = p"
    using assms(1) BlankNode by (simp_all add: cp_whitespace_def)
  ultimately show ?thesis using BlankNode
    by (intro exI [of _ "NodeBlank (user_label l)"])
      (simp add: iri_or_blank_def act_bind_def looking_def skip_all_lexed)
qed

lemma literal_head: "s = [] \<or> (\<exists>c rest. concat (map literal_char s) @ 34 # sfx = c # rest \<and> c \<noteq> 34)"
proof (cases s)
  case (Cons c s')
  then show ?thesis by (simp add: literal_char_def)
qed simp

lemma suffix_written:
  assumes "plain_term (Literal v dt lang)" and "tp_base p = None"
    and "tp_rest p = (case dt of Some d \<Rightarrow> cps ''^^'' @ write_iri d | None \<Rightarrow> [])
      @ (case lang of Some l \<Rightarrow> cp (CHR ''@'') # l | None \<Rightarrow> []) @ 32 # rest"
  shows "literal_suffix v p = (Inr (Literal v dt lang), p\<lparr>tp_rest := 32 # rest\<rparr>)"
proof -
  consider "dt = None" "lang = None" | d where "dt = Some d" "lang = None" | l where "dt = None" "lang = Some l"
    using assms(1) by (cases dt; cases lang) auto
  then show ?thesis
  proof cases
    case 1
    then have "tp_rest p = 32 # rest" "p\<lparr>tp_rest := tp_rest p\<rparr> = p" using assms(3) by simp_all
    then show ?thesis using 1 by (simp add: literal_suffix_def looking_def)
  next
    case 2
    then have p: "tp_rest p = 94 # 94 # write_iri d @ 32 # rest" using assms(3) by simp
    let ?p = "p\<lparr>tp_rest := write_iri d @ 32 # rest\<rparr>"
    have "read_iri_ref ?p = (Inr d, ?p\<lparr>tp_rest := 32 # rest\<rparr>)"
      using assms(2) by (intro read_iri_written) simp_all
    moreover have "skip_ws (write_iri d @ 32 # rest) = write_iri d @ 32 # rest" "peek (write_iri d @ 32 # rest) = Some 60"
      by (simp_all add: write_starts cp_whitespace_def)
    ultimately show ?thesis using p 2
      by (simp add: literal_suffix_def looking_def act_bind_def skip_all_lexed advance_lexed)
  next
    case 3
    then have l: "l \<noteq> []" "\<forall>c \<in> set l. tag_char c" and p: "tp_rest p = 64 # l @ 32 # rest"
      using assms(1,3) by simp_all
    then have "takeWhile tag_char (l @ 32 # rest) = l \<and> dropWhile tag_char (l @ 32 # rest) = 32 # rest"
      by (intro take_drop_while_append) (simp_all add: tag_char_def cp_alnum_def cp_alpha_def cp_digit_def)
    then show ?thesis using l(1) p 3
      by (simp add: literal_suffix_def looking_def act_bind_def advance_chars_def lexed_def read_language_tag_def)
  qed
qed

lemma literal_written:
  assumes "plain_term (Literal v dt lang)" and "tp_base p = None" and "tp_rest p = write_literal v dt lang @ 32 # rest"
  shows "string_literal p = (Inr (Literal v dt lang), p\<lparr>tp_rest := 32 # rest\<rparr>)"
proof -
  let ?suffix = "(case dt of Some d \<Rightarrow> cps ''^^'' @ write_iri d | None \<Rightarrow> [])
      @ (case lang of Some l \<Rightarrow> cp (CHR ''@'') # l | None \<Rightarrow> []) @ 32 # rest"
  let ?body = "concat (map literal_char v) @ 34 # ?suffix"
  have p: "tp_rest p = 34 # ?body" using assms(3) by (simp add: write_literal_def)
  have suffix: "\<exists>c cs. ?suffix = c # cs \<and> c \<noteq> 34"
    by (simp split: option.split)
  have single: "take 2 ?body \<noteq> [34, 34]"
  proof (cases v)
    case Nil
    obtain c cs where "?suffix = c # cs" "c \<noteq> 34" using suffix by blast
    then show ?thesis using Nil by (simp only: list.map concat.simps append.simps) simp
  next
    case (Cons c s)
    then obtain c rest where "?body = c # rest" "c \<noteq> 34" using literal_head [of v ?suffix] by blast
    then show ?thesis by auto
  qed
  let ?p = "p\<lparr>tp_rest := ?body\<rparr>"
  have body: "lexed (read_string_body 34 False []) ?p = (Inr v, ?p\<lparr>tp_rest := ?suffix\<rparr>)"
    using string_body_written [of "[]" v ?suffix] by (intro lexed_ok) simp
  have "literal_suffix v (p\<lparr>tp_rest := ?suffix\<rparr>) = (Inr (Literal v dt lang), p\<lparr>tp_rest := ?suffix, tp_rest := 32 # rest\<rparr>)"
    using assms by (intro suffix_written) simp_all
  moreover have "p\<lparr>tp_rest := ?body, tp_rest := ?body\<rparr> = p\<lparr>tp_rest := ?body\<rparr>" by simp
  ultimately show ?thesis using p single body
    by (simp add: string_literal_def looking_def act_bind_def advance_lexed Let_def)
qed

lemma object_written:
  assumes "plain_term t" and "tp_base p = None" and "tp_rest p = write_term t @ 32 # rest"
  shows "turtle_object (Suc n) p = (Inr (turtle_term t), p\<lparr>tp_rest := 32 # rest\<rparr>)"
proof -
  have same: "p\<lparr>tp_rest := tp_rest p\<rparr> = p" by simp
  show ?thesis
  proof (cases t)
    case (Literal v dt lang)
    obtain w where w: "write_literal v dt lang = 34 # w" using write_starts(2) by blast
    then have "skip_ws (tp_rest p) = tp_rest p" "peek (tp_rest p) = Some 34"
      using assms(3) Literal by (simp_all add: cp_whitespace_def)
    then have "lexed skip_all p = (Inr (), p)" "peek (tp_rest p) = Some 34" using same by (simp_all add: skip_all_lexed)
    then show ?thesis using literal_written [of v dt lang p rest] assms(1,2) assms(3) [unfolded Literal] Literal
      by (simp add: act_bind_def looking_def)
  next
    case (IriTerm i)
    then obtain node where node: "iri_or_blank p = (Inr node, p\<lparr>tp_rest := 32 # rest\<rparr>)" "into_term node = turtle_term t"
      using node_written [of p "Iri i" rest] assms by auto
    moreover have "skip_ws (tp_rest p) = tp_rest p" "peek (tp_rest p) = Some 60"
      using assms(3) IriTerm by (simp_all add: cp_whitespace_def write_starts)
    ultimately show ?thesis using same by (simp add: act_bind_def looking_def skip_all_lexed cp_digit_def)
  next
    case (BlankTerm l)
    then obtain node where node: "iri_or_blank p = (Inr node, p\<lparr>tp_rest := 32 # rest\<rparr>)" "into_term node = turtle_term t"
      using node_written [of p "BlankNode l" rest] assms by auto
    moreover have "skip_ws (tp_rest p) = tp_rest p" "peek (tp_rest p) = Some 95"
      using assms(3) BlankTerm by (simp_all add: cp_whitespace_def)
    ultimately show ?thesis using same by (simp add: act_bind_def looking_def skip_all_lexed cp_digit_def)
  qed
qed

section \<open>Statements and documents\<close>

definition turtle_triple :: "rdf_triple \<Rightarrow> rdf_triple" where
  "turtle_triple t = t\<lparr>tr_subject := turtle_resource (tr_subject t), tr_object := turtle_term (tr_object t)\<rparr>"

definition plain_triple :: "rdf_triple \<Rightarrow> bool" where
  "plain_triple t \<longleftrightarrow> plain_term (resource_term (tr_subject t)) \<and> plain_term (tr_object t) \<and> tr_graph t = None"

lemma verb_written:
  assumes "skip_ws (tp_rest p) = write_iri i @ rest" and "tp_base p = None"
  shows "verb p = (Inr i, p\<lparr>tp_rest := rest\<rparr>)"
proof -
  let ?p = "p\<lparr>tp_rest := write_iri i @ rest\<rparr>"
  have head: "skip_ws (write_iri i @ rest) = write_iri i @ rest" "peek (write_iri i @ rest) = Some 60"
    by (simp_all add: write_starts cp_whitespace_def)
  have "read_iri_ref ?p = (Inr i, ?p\<lparr>tp_rest := rest\<rparr>)"
    using assms(2) by (intro read_iri_written) simp_all
  then show ?thesis using assms head
    by (simp add: verb_def iri_or_blank_def act_bind_def looking_def skip_all_lexed)
qed

lemma object_list_written:
  assumes "plain_term t" and "tp_base p = None" and "tp_rest p = 32 # write_term t @ 32 # 46 # rest"
  shows "object_list (Suc (Suc n)) s pred p =
    (Inr (), p\<lparr>tp_rest := 46 # rest, tp_triples := tp_triples p @
       [\<lparr>tr_subject = into_resource s, tr_predicate = pred, tr_object = turtle_term t, tr_graph = None\<rparr>]\<rparr>)"
proof -
  let ?p = "p\<lparr>tp_rest := write_term t @ 32 # 46 # rest\<rparr>"
  have "skip_ws (write_term t @ 32 # 46 # rest) = write_term t @ 32 # 46 # rest"
  proof (cases t)
    case (Literal v dt lang)
    obtain w where "write_literal v dt lang = 34 # w" using write_starts(2) by blast
    then show ?thesis using Literal by (simp add: cp_whitespace_def)
  qed (simp_all add: write_starts cp_whitespace_def)
  then have skip: "skip_ws (tp_rest p) = write_term t @ 32 # 46 # rest" using assms(3) by simp
  have read: "turtle_object (Suc n) ?p = (Inr (turtle_term t), ?p\<lparr>tp_rest := 32 # 46 # rest\<rparr>)"
    using assms(1,2) by (intro object_written) simp_all
  show ?thesis
    by (simp add: skip read act_bind_def looking_def push_triple_def skip_all_lexed cp_whitespace_def
        del: turtle_object.simps)
qed

lemma statement_written:
  assumes "plain_triple t" and "tp_base p = None" and "tp_rest p = write_statement t @ rest"
  shows "turtle_statement (Suc (Suc (Suc n))) p =
    (Inr (), p\<lparr>tp_rest := rest, tp_triples := tp_triples p @ [turtle_triple t]\<rparr>)"
proof -
  let ?tail = "32 # write_term (tr_object t) @ 32 # 46 # rest"
  have p: "tp_rest p = write_resource (tr_subject t) @ 32 # write_iri (tr_predicate t) @ ?tail"
    using assms(1,3) by (simp add: write_statement_def plain_triple_def)
  obtain node where node: "iri_or_blank p = (Inr node, p\<lparr>tp_rest := 32 # write_iri (tr_predicate t) @ ?tail\<rparr>)"
    "into_resource node = turtle_resource (tr_subject t)"
    using node_written [OF p assms(2)] assms(1) by (auto simp: plain_triple_def)
  have "lexed skip_all p = (Inr (), p)" "peek (tp_rest p) = Some 60 \<or> peek (tp_rest p) = Some 95"
    using p by (cases "tr_subject t"; simp add: skip_all_lexed write_starts cp_whitespace_def)+
  then have subject: "read_subject n1 p = (Inr node, p\<lparr>tp_rest := 32 # write_iri (tr_predicate t) @ ?tail\<rparr>)" for n1
    using node(1) by (auto simp: read_subject_def act_bind_def looking_def)
  let ?q = "p\<lparr>tp_rest := write_iri (tr_predicate t) @ ?tail\<rparr>"
  have head: "skip_ws (write_iri i @ cs) = write_iri i @ cs" for i cs by (simp add: write_starts cp_whitespace_def)
  let ?r = "p\<lparr>tp_rest := ?tail\<rparr>"
  have verb: "verb ?q = (Inr (tr_predicate t), ?r)"
    using verb_written [of ?q "tr_predicate t" ?tail] head assms(2) by simp
  have objects: "object_list (Suc (Suc n)) node (tr_predicate t) ?r =
      (Inr (), p\<lparr>tp_rest := 46 # rest, tp_triples := tp_triples p @ [turtle_triple t]\<rparr>)"
    using object_list_written [of "tr_object t" ?r rest n node "tr_predicate t"] assms(1,2) node(2)
    by (simp add: plain_triple_def turtle_triple_def del: object_list.simps)
  have dot: "\<not> cp_whitespace 46" by (simp add: cp_whitespace_def)
  show ?thesis
    by (simp add: turtle_statement_def subject act_bind_def looking_def skip_all_lexed head verb objects
        expect_lexed dot del: object_list.simps)
qed

text \<open>The text of a list of statements, one per line.\<close>

definition statement_lines :: "rdf_triple list \<Rightarrow> utext" where
  "statement_lines ts = concat (map (\<lambda>t. write_statement t @ [10]) ts)"

lemma utf8_statement_lines: "utf8 (statement_lines ts) = write_statements ts"
proof -
  have "(char_of (10 :: nat) :: char) = newline" by code_simp
  then show ?thesis
    by (induction ts) (simp_all add: statement_lines_def write_statements_def statement_bytes_def utf8_append
        utf8_char_def)
qed

lemma statement_head:
  obtains c cs where "write_statement t = c # cs" "c = 60 \<or> c = 95"
  using write_statement_ends(1,3) [of t] by (cases "write_statement t") auto

lemma skip_statement_lines: "skip_ws (statement_lines ts) = statement_lines ts"
proof (cases ts)
  case (Cons t ts1)
  obtain c cs where "write_statement t = c # cs" "c = 60 \<or> c = 95" by (rule statement_head)
  then show ?thesis using Cons by (auto simp: statement_lines_def cp_whitespace_def)
qed (simp add: statement_lines_def)

lemma document_written:
  assumes "\<forall>t \<in> set ts. plain_triple t" and "tp_base p = None" and "skip_ws (tp_rest p) = statement_lines ts"
    and "length ts + 4 \<le> n"
  shows "read_document n p = (Inr (), p\<lparr>tp_rest := [], tp_triples := tp_triples p @ map turtle_triple ts\<rparr>)"
  using assms
proof (induction ts arbitrary: n p)
  case Nil
  then obtain m where "n = Suc m" by (cases n) auto
  then show ?case using Nil by (simp add: act_bind_def looking_def skip_all_lexed statement_lines_def)
next
  case (Cons t ts)
  obtain m where n: "n = Suc (Suc (Suc (Suc m)))"
  proof
    show "n = Suc (Suc (Suc (Suc (n - 4))))" using Cons.prems(4) by simp
  qed
  let ?rest = "10 # statement_lines ts"
  let ?p = "p\<lparr>tp_rest := write_statement t @ ?rest\<rparr>"
  let ?q = "p\<lparr>tp_rest := ?rest, tp_triples := tp_triples p @ [turtle_triple t]\<rparr>"
  have skip: "skip_ws (tp_rest p) = write_statement t @ ?rest"
    using Cons.prems(3) by (simp add: statement_lines_def)
  obtain c cs where c: "write_statement t = c # cs" "c = 60 \<or> c = 95" by (rule statement_head)
  then have keyword: "\<not> matches_keyword_ci ''prefix'' (write_statement t @ ?rest)"
    "\<not> matches_keyword_ci ''base'' (write_statement t @ ?rest)" "peek (write_statement t @ ?rest) = Some c"
    by (auto simp: matches_keyword_ci_def cp_lower_def)
  have read: "turtle_statement (Suc (Suc (Suc m))) ?p = (Inr (), ?q)"
    using statement_written [of t ?p ?rest m] Cons.prems(1,2) by simp
  have "read_document (Suc (Suc (Suc m))) ?q =
      (Inr (), ?q\<lparr>tp_rest := [], tp_triples := tp_triples ?q @ map turtle_triple ts\<rparr>)"
    by (rule Cons.IH) (use Cons.prems n skip_statement_lines in simp_all)
  then have later: "read_document (Suc (Suc (Suc m))) ?q =
      (Inr (), p\<lparr>tp_rest := [], tp_triples := tp_triples p @ map turtle_triple (t # ts)\<rparr>)"
    by simp
  have "c \<noteq> 64" using c(2) by auto
  then show ?case unfolding n read_document.simps(2) [of "Suc (Suc (Suc m))"]
    by (simp add: act_bind_def looking_def skip_all_lexed skip keyword read later del: read_document.simps)
qed

text \<open>
  C31: the two parsers agree: a document of statements one per line in the canonical form, which the
  N-Triples reader turns into exactly the triples that were written, is read by the Turtle parser
  (a different program, of the whole text with its own tokens, escapes and state) as the same
  triples in the same order, with the blank node labels prefixed by \<open>u_\<close>.  The labels must be of
  the characters both keep in a label.
\<close>

theorem turtle_reads_ntriples:
  assumes "\<forall>t \<in> set ts. statement_ok NTriples t \<and> plain_triple t"
  shows "read_rdf_triples show_error NTriples (write_statements ts) None = map Inr ts
    \<and> read_rdf_triples show_error Turtle (write_statements ts) None = map Inr (map turtle_triple ts)"
proof
  have ok: "\<forall>t \<in> set ts. statement_ok NTriples t" and plain: "\<forall>t \<in> set ts. plain_triple t" using assms by auto
  have "read_rdf_lines show_error NTriples (write_statements ts) None = map Inr ts"
    by (simp add: read_rdf_lines_def whole_lines_def read_written_lines [OF ok])
  then show "read_rdf_triples show_error NTriples (write_statements ts) None = map Inr ts"
    by (simp add: read_rdf_triples_def comp_def)
  have "list_all is_scalar (statement_lines ts)"
    using ok line_char_statement
    by (induction ts) (auto simp: statement_lines_def list_all_iff line_char_def is_scalar_def)
  then have decoded: "from_utf8 (write_statements ts) = Some (statement_lines ts)"
    by (metis utf8_statement_lines from_utf8_utf8)
  have "length ts \<le> length (statement_lines ts)"
    by (induction ts) (simp_all add: statement_lines_def)
  then have "read_document (turtle_fuel (statement_lines ts)) (turtle_new (statement_lines ts)) =
      (Inr (), (turtle_new (statement_lines ts))\<lparr>tp_rest := [],
         tp_triples := tp_triples (turtle_new (statement_lines ts)) @ map turtle_triple ts\<rparr>)"
    by (intro document_written plain) (simp_all add: turtle_new_def turtle_fuel_def skip_statement_lines)
  then have "parse_turtle (statement_lines ts) = Inr (map turtle_triple ts)"
    by (simp add: parse_turtle_def turtle_new_def)
  then show "read_rdf_triples show_error Turtle (write_statements ts) None = map Inr (map turtle_triple ts)"
    using decoded by (simp add: read_rdf_triples_def)
qed

lemma turtle_reads_ntriples_witness:
  "read_rdf_triples (\<lambda>e. []) Turtle (''_:n <p> '' @ [CHR 0x22] @ ''x'' @ [CHR 0x22] @ '' .'' @ [newline]) None =
    [Inr \<lparr>tr_subject = BlankNode (cps ''u_n''), tr_predicate = cps ''p'', tr_object = Literal (cps ''x'') None None,
       tr_graph = None\<rparr>]"
proof -
  let ?ts = "[\<lparr>tr_subject = BlankNode (cps ''n''), tr_predicate = cps ''p'', tr_object = Literal (cps ''x'') None None,
       tr_graph = None\<rparr>]"
  have "read_rdf_triples (\<lambda>e. []) Turtle (write_statements ?ts) None = map Inr (map turtle_triple ?ts)"
    by (rule conjunct2 [OF turtle_reads_ntriples])
      (simp add: statement_ok_def plain_triple_def label_ok_def label_end_def is_scalar_def cp_whitespace_def
        is_pn_local_char_def cp_alnum_def cp_alpha_def)
  moreover have "write_statements ?ts = ''_:n <p> '' @ [CHR 0x22] @ ''x'' @ [CHR 0x22] @ '' .'' @ [newline]"
    by code_simp
  ultimately show ?thesis by (simp add: turtle_triple_def user_label_def)
qed

end
