(* ===== verification/TurtleNodes.thy ===== *)
theory TurtleNodes
  imports TurtleParser
begin

text \<open>
  The nodes the Turtle parser makes: the labels of blank nodes, those of the document and those it
  generates, and the list cells of a collection.
\<close>

section \<open>Blank nodes\<close>

text \<open>
  The labels of blank nodes: those of the document with the prefix \<open>u_\<close>, and those generated, of
  which \<open>c\<close> exist.
\<close>

definition generated_label :: "nat \<Rightarrow> utext" where
  "generated_label k = cps (''_bnl'' @ dec k)"

definition label_known :: "nat \<Rightarrow> utext \<Rightarrow> bool" where
  "label_known c l \<longleftrightarrow> (\<exists>s. s \<noteq> [] \<and> l = cps ''u_'' @ s) \<or> (\<exists>k. 1 \<le> k \<and> k \<le> c \<and> l = generated_label k)"

fun resource_known :: "nat \<Rightarrow> rdf_resource \<Rightarrow> bool" where
  "resource_known c (Iri i) = True"
| "resource_known c (BlankNode l) = label_known c l"

fun term_known :: "nat \<Rightarrow> rdf_term \<Rightarrow> bool" where
  "term_known c (BlankTerm l) = label_known c l"
| "term_known c t = True"

definition triple_known :: "nat \<Rightarrow> rdf_triple \<Rightarrow> bool" where
  "triple_known c t \<longleftrightarrow> resource_known c (tr_subject t) \<and> term_known c (tr_object t) \<and> tr_graph t = None"

definition node_known :: "nat \<Rightarrow> turtle_node \<Rightarrow> bool" where
  "node_known c node = resource_known c (into_resource node)"

definition triples_known :: "turtle \<Rightarrow> bool" where
  "triples_known p \<longleftrightarrow> (\<forall>t \<in> set (tp_triples p). triple_known (tp_counter p) t)"

lemma label_known_mono: "label_known c l \<Longrightarrow> c \<le> d \<Longrightarrow> label_known d l"
  by (auto simp: label_known_def)

lemma resource_known_mono: "resource_known c r \<Longrightarrow> c \<le> d \<Longrightarrow> resource_known d r"
  by (cases r) (auto intro: label_known_mono)

lemma term_known_mono: "term_known c t \<Longrightarrow> c \<le> d \<Longrightarrow> term_known d t"
  by (cases t) (auto intro: label_known_mono)

lemma node_known_mono: "node_known c s \<Longrightarrow> c \<le> d \<Longrightarrow> node_known d s"
  by (auto simp: node_known_def intro: resource_known_mono)

lemma triple_known_mono: "triple_known c t \<Longrightarrow> c \<le> d \<Longrightarrow> triple_known d t"
  by (auto simp: triple_known_def intro: resource_known_mono term_known_mono)

lemma into_term_known: "node_known c s \<Longrightarrow> term_known c (into_term s)"
  by (cases s) (simp_all add: node_known_def)

text \<open>
  \<open>knows R m p\<close>: from a state whose triples have known labels, \<open>m\<close> reaches such a state, with no
  generated label given back, and a result of which \<open>R\<close> holds.
\<close>

definition knows :: "(nat \<Rightarrow> 'a \<Rightarrow> bool) \<Rightarrow> 'a parse \<Rightarrow> turtle \<Rightarrow> bool" where
  "knows R m p \<longleftrightarrow> (triples_known p \<longrightarrow>
     (case m p of (r, p1) \<Rightarrow> triples_known p1 \<and> tp_counter p \<le> tp_counter p1
        \<and> (\<forall>x. r = Inr x \<longrightarrow> R (tp_counter p1) x)))"

abbreviation anything :: "nat \<Rightarrow> 'a \<Rightarrow> bool" where
  "anything c x \<equiv> True"

lemma knows_bind:
  assumes "knows R m p" "\<And>x p1. tp_counter p \<le> tp_counter p1 \<Longrightarrow> R (tp_counter p1) x \<Longrightarrow> knows S (f x) p1"
  shows "knows S (act_bind m f) p"
proof (cases "m p")
  case (Pair r p1)
  show ?thesis
  proof (cases r)
    case (Inr x)
    show ?thesis
      unfolding knows_def
    proof
      assume p: "triples_known p"
      then have p1: "triples_known p1" "tp_counter p \<le> tp_counter p1" "R (tp_counter p1) x"
        using assms(1) Pair Inr by (simp_all add: knows_def)
      then have "knows S (f x) p1" using assms(2) by blast
      then show "case act_bind m f p of (r, p1) \<Rightarrow> triples_known p1 \<and> tp_counter p \<le> tp_counter p1
          \<and> (\<forall>x. r = Inr x \<longrightarrow> S (tp_counter p1) x)"
        using p1 Pair Inr by (auto simp: knows_def act_bind_def split: prod.splits)
    qed
  qed (use assms(1) Pair in \<open>simp add: knows_def act_bind_def\<close>)
qed

lemma knows_lexed: "(\<And>x rest. m (tp_rest p) = (Inr x, rest) \<Longrightarrow> R (tp_counter p) x) \<Longrightarrow> knows R (lexed m) p"
  by (auto simp: knows_def lexed_def triples_known_def split: prod.splits sum.splits)

lemma knows_looking: "knows R (f (tp_rest p)) p \<Longrightarrow> knows R (looking f) p"
  by (simp add: knows_def looking_def)

lemma knows_return: "R (tp_counter p) x \<Longrightarrow> knows R (act_return x) p"
  by (simp add: knows_def)

lemma knows_fail: "knows R (act_fail f) p"
  by (simp add: knows_def)

lemma knows_push:
  "node_known (tp_counter p) s \<Longrightarrow> term_known (tp_counter p) t \<Longrightarrow> knows anything (push_triple s pred t) p"
  by (auto simp: knows_def push_triple_def triples_known_def triple_known_def node_known_def)

lemma knows_fresh: "knows node_known fresh_blank p"
  by (auto simp: knows_def fresh_blank_def triples_known_def node_known_def label_known_def generated_label_def
      intro: triple_known_mono)

lemmas knows_token = knows_lexed [where R = anything, OF TrueI]

lemma knows_error: "knows R (lexed (lex_error msg)) p"
  by (rule knows_lexed) (simp add: lex_error_def)

lemma knows_iri_ref: "knows anything read_iri_ref p"
  unfolding read_iri_ref_def by (rule knows_bind [OF knows_token]) (simp add: knows_def)

lemma knows_prefixed_name: "knows anything read_prefixed_name p"
  unfolding read_prefixed_name_def
  by (rule knows_bind [OF knows_token])
    (auto simp: knows_def lexed_def lex_error_def triples_known_def split: option.splits)

lemma knows_blank_label: "knows (\<lambda>c l. label_known c l) (lexed read_blank_label) p"
  by (rule knows_lexed)
    (auto simp: read_blank_label_def act_bind_def expect_def label_known_def Let_def split: list.splits if_splits)

lemma knows_iri_or_blank: "knows node_known iri_or_blank p"
  unfolding iri_or_blank_def
  apply (rule knows_bind [OF knows_token], rule knows_looking)
  apply (simp split: option.split, intro conjI impI allI)
     apply (rule knows_error)
    apply (rule knows_bind [OF knows_blank_label], rule knows_return, simp add: node_known_def)
   apply (rule knows_bind [OF knows_iri_ref], rule knows_return, simp add: node_known_def)
  apply (rule knows_bind [OF knows_prefixed_name], rule knows_return, simp add: node_known_def)
  done

lemma knows_verb: "knows anything verb p"
  unfolding verb_def
  apply (rule knows_bind [OF knows_token], rule knows_looking)
  apply (simp split: if_split, intro conjI impI)
    apply (rule knows_bind [OF knows_token], rule knows_return, simp)
   apply (rule knows_bind [OF knows_iri_or_blank], simp split: turtle_node.split add: knows_return knows_error)+
  done

abbreviation literal_value :: "nat \<Rightarrow> rdf_term \<Rightarrow> bool" where
  "literal_value c t \<equiv> \<exists>v dt lang. t = Literal v dt lang"

lemma literal_known: "literal_value c t \<Longrightarrow> term_known c t"
  by auto

lemma knows_literal_suffix: "knows term_known (literal_suffix v) p"
proof -
  show ?thesis
    unfolding literal_suffix_def
    by (auto intro!: knows_looking knows_bind [OF knows_token] knows_return knows_bind [OF knows_iri_ref]
        knows_bind [OF knows_prefixed_name])
qed

lemma knows_string_literal: "knows term_known string_literal p"
  unfolding string_literal_def Let_def
  by (auto intro!: knows_looking knows_bind [OF knows_token] knows_literal_suffix knows_fail split: option.split)

lemma knows_numeric: "knows term_known (lexed numeric_literal) p"
  by (rule knows_lexed) (auto simp: numeric_literal_def Let_def split: prod.splits if_splits)

lemma knows_boolean: "knows term_known (lexed boolean_literal) p"
  by (rule knows_lexed)
    (auto simp: boolean_literal_def act_bind_def read_bare_word_def lex_error_def split: if_splits)

lemma knows_object_node: "knows node_known m p \<Longrightarrow> knows term_known (act_bind m (\<lambda>node. act_return (into_term node))) p"
  by (erule knows_bind) (auto intro: knows_return into_term_known)

lemma knows_cells:
  "node_known (tp_counter p) current \<Longrightarrow> list_all (term_known (tp_counter p)) items \<Longrightarrow>
    knows anything (build_cells current items) p"
proof (induction current items arbitrary: p rule: build_cells.induct)
  case (2 current item items)
  have nil: "term_known c (IriTerm i)" for c i by simp
  show ?case
    unfolding build_cells.simps
    apply (rule knows_bind, rule knows_push)
      apply (use 2(2,3) in simp_all)
    apply (intro conjI impI)
     apply (rule knows_push)
      apply (use 2(2) node_known_mono in blast)
     apply (rule nil)
    apply (rule knows_bind [OF knows_fresh], rule knows_bind, rule knows_push)
      apply (use 2(2) node_known_mono le_trans in blast)
     apply (erule into_term_known)
    apply (rule 2(1))
      apply assumption
     apply (erule (1) node_known_mono)
    apply (use 2(3) in \<open>auto simp: list_all_iff intro: term_known_mono\<close>)
    done
qed (simp add: knows_return)

lemma knows_build: "list_all (term_known (tp_counter p)) items \<Longrightarrow> knows node_known (build_collection items) p"
  unfolding build_collection_def
  apply (simp split: if_split, intro conjI impI)
   apply (rule knows_return, simp add: node_known_def)
  apply (rule knows_bind [OF knows_fresh], rule knows_bind, rule knows_cells)
    apply (auto simp: list_all_iff intro: term_known_mono knows_return node_known_mono)
  done

lemma grammar_knows:
  "(node_known (tp_counter p) s \<longrightarrow> knows anything (predicate_object_list n s) p)
   \<and> (node_known (tp_counter p) s \<longrightarrow> knows anything (object_list n s pred) p)
   \<and> knows term_known (turtle_object n) p
   \<and> knows node_known (blank_node_property_list n) p
   \<and> knows node_known (collection n) p
   \<and> (list_all (term_known (tp_counter p)) items \<longrightarrow>
       knows (\<lambda>c. list_all (term_known c)) (collection_items n items) p)"
proof (induction n arbitrary: p s pred items)
  case 0
  have "knows R (Pair (Inl OutOfFuel)) p" for R :: "nat \<Rightarrow> 'a \<Rightarrow> bool" by (simp add: knows_def)
  then show ?case by (simp add: knows_def)
next
  case (Suc n)
  have pol: "node_known (tp_counter p) s \<Longrightarrow> knows anything (predicate_object_list n s) p"
    and ol: "node_known (tp_counter p) s \<Longrightarrow> knows anything (object_list n s pred) p"
    and obj: "knows term_known (turtle_object n) p"
    and bnpl: "knows node_known (blank_node_property_list n) p"
    and coll: "knows node_known (collection n) p"
    and its: "list_all (term_known (tp_counter p)) items \<Longrightarrow>
      knows (\<lambda>c. list_all (term_known c)) (collection_items n items) p" for p s pred items
    using Suc.IH by blast+
  have "knows anything (predicate_object_list (Suc n) s) p" if s: "node_known (tp_counter p) s"
    unfolding predicate_object_list.simps
    apply (rule knows_bind [OF knows_token], rule knows_bind [OF knows_verb], rule knows_bind, rule ol)
     apply (use s node_known_mono le_trans in blast)
    apply (rule knows_bind [OF knows_token], rule knows_looking)
    apply (simp only: split: if_split, intro conjI impI)
     apply (rule knows_bind [OF knows_token], rule knows_bind [OF knows_token], rule knows_looking)
     apply (simp only: split: if_split, intro conjI impI)
      apply (rule knows_return, simp)
     apply (rule pol, rule node_known_mono [OF s], linarith)
    apply (rule knows_return, simp)
    done
  moreover have "knows anything (object_list (Suc n) s pred) p" if s: "node_known (tp_counter p) s"
    unfolding object_list.simps
    apply (rule knows_bind [OF knows_token], rule knows_bind [OF obj], rule knows_bind, rule knows_push)
      apply (use s node_known_mono le_trans in blast, assumption)
    apply (rule knows_bind [OF knows_token], rule knows_looking)
    apply (simp only: split: if_split, intro conjI impI)
     apply (rule knows_bind [OF knows_token], rule ol, rule node_known_mono [OF s], linarith)
    apply (rule knows_return, simp)
    done
  moreover have "knows term_known (turtle_object (Suc n)) p"
    unfolding turtle_object.simps
    by (auto intro!: knows_bind [OF knows_token] knows_looking knows_object_node knows_iri_or_blank bnpl coll
        knows_string_literal knows_numeric knows_boolean split: option.split)
  moreover have "knows node_known (blank_node_property_list (Suc n)) p"
    unfolding blank_node_property_list.simps
    apply (rule knows_bind [OF knows_token], rule knows_bind [OF knows_fresh], rule knows_bind [OF knows_token])
    apply (rule knows_looking)
    apply (simp only: split: if_split, intro conjI impI)
     apply (rule knows_bind [OF knows_token], rule knows_return, erule node_known_mono, linarith)
    apply (rule knows_bind, rule pol, erule (1) node_known_mono)
    apply (rule knows_bind [OF knows_token], rule knows_bind [OF knows_token], rule knows_return)
    apply (erule node_known_mono, linarith)
    done
  moreover have "knows node_known (collection (Suc n)) p"
    unfolding collection.simps
    by (rule knows_bind [OF knows_token], rule knows_bind, rule its) (simp_all add: knows_build)
  moreover have "knows (\<lambda>c. list_all (term_known c)) (collection_items (Suc n) items) p"
    if items: "list_all (term_known (tp_counter p)) items"
  proof -
    have later: "list_all (term_known c) items" if "tp_counter p \<le> c" for c
      using items that by (auto simp: list_all_iff intro: term_known_mono)
    show ?thesis
      unfolding collection_items.simps
      apply (rule knows_bind [OF knows_token], rule knows_looking)
      apply (simp only: split: option.split if_split, intro conjI impI allI)
        apply (rule knows_error)
       apply (rule knows_bind [OF knows_token], rule knows_return, rule later, linarith)
      apply (rule knows_bind [OF obj], rule its)
      apply (simp add: later)
      done
  qed
  ultimately show ?case by blast
qed

lemma knows_statement: "knows anything (turtle_statement n) p"
proof -
  have rules: "node_known (tp_counter p1) s \<Longrightarrow> knows anything (predicate_object_list n s) p1"
    "knows node_known (blank_node_property_list n) p1" "knows node_known (collection n) p1" for p1 s
    using grammar_knows by blast+
  have "knows node_known (read_subject n) p"
    unfolding read_subject_def
    by (auto intro!: knows_bind [OF knows_token] knows_looking rules knows_iri_or_blank)
  then show ?thesis
    unfolding turtle_statement_def
    by (rule knows_bind) (auto intro!: knows_bind [OF knows_token] knows_bind [OF rules(1)] knows_token
        elim: node_known_mono)
qed

lemma knows_settings: "knows anything (set_prefix b) p" "knows anything (set_base i) p"
  by (simp_all add: knows_def set_prefix_def set_base_def triples_known_def)

lemma knows_directives: "knows anything directive p" "knows anything sparql_directive p"
proof -
  have binding: "knows anything (act_bind read_prefix_binding set_prefix) p1"
    and base: "knows anything (act_bind read_iri_ref set_base) p1" for p1
    unfolding read_prefix_binding_def
    by (auto intro!: knows_bind [OF knows_iri_ref] knows_settings knows_return
        knows_bind [where R = anything and f = set_prefix] knows_bind [OF knows_token])
  have word: "knows anything (if b1 then act_bind (lexed skip_all) (\<lambda>_. act_bind read_prefix_binding set_prefix)
        else if b2 then act_bind (lexed skip_all) (\<lambda>_. act_bind read_iri_ref set_base)
        else lexed (lex_error msg)) p1" for b1 b2 msg p1
    by (auto intro!: knows_bind [OF knows_token] binding base knows_error)
  show "knows anything directive p"
    unfolding directive_def
    by (intro knows_bind [OF knows_token] knows_bind [OF word] knows_token)
  show "knows anything sparql_directive p"
    unfolding sparql_directive_def
    by (auto intro!: knows_bind [OF knows_token] binding base knows_fail)
qed

lemma knows_document: "knows anything (read_document n) p"
proof (induction n arbitrary: p)
  case (Suc n)
  have step: "knows anything (if b1 then directive else if b2 then sparql_directive else turtle_statement n) p1" for b1 b2 p1
    by (simp add: knows_directives knows_statement)
  show ?case
    unfolding read_document.simps
    apply (rule knows_bind [OF knows_token], rule knows_looking)
    apply (simp only: split: option.split, intro conjI impI allI)
     apply (rule knows_return, simp)
    apply (rule knows_bind [OF step], rule Suc.IH)
    done
qed (simp add: knows_def)

fun resource_labels :: "rdf_resource \<Rightarrow> utext set" where
  "resource_labels (BlankNode l) = {l}"
| "resource_labels (Iri i) = {}"

fun term_labels :: "rdf_term \<Rightarrow> utext set" where
  "term_labels (BlankTerm l) = {l}"
| "term_labels t = {}"

definition blank_labels :: "rdf_triple \<Rightarrow> utext set" where
  "blank_labels t = resource_labels (tr_subject t) \<union> term_labels (tr_object t)"

definition from_document :: "utext \<Rightarrow> bool" where
  "from_document l \<longleftrightarrow> (\<exists>s. s \<noteq> [] \<and> l = cps ''u_'' @ s)"

definition from_parser :: "utext \<Rightarrow> bool" where
  "from_parser l \<longleftrightarrow> (\<exists>k \<ge> 1. l = generated_label k)"

lemma label_known_once: "label_known c l \<Longrightarrow> from_document l \<noteq> from_parser l"
  by (auto simp: label_known_def from_document_def from_parser_def generated_label_def)

text \<open>
  C32: in what the Turtle parser gives, no triple has a graph, and every blank node label is either
  one of the document, kept with the prefix \<open>u_\<close>, or one that the parser made for a property list
  or a list cell, and never both: a label written in the document cannot name a generated node,
  whatever characters it has.
\<close>

theorem turtle_labels_apart:
  assumes "parse_turtle input = Inr ts"
  shows "\<forall>t \<in> set ts. tr_graph t = None \<and> (\<forall>l \<in> blank_labels t. from_document l \<noteq> from_parser l)"
proof -
  obtain x p where p: "read_document (turtle_fuel input) (turtle_new input) = (Inr x, p)" "ts = tp_triples p"
    using assms by (auto simp: parse_turtle_def split: prod.splits sum.splits)
  have "triples_known (turtle_new input)" by (simp add: triples_known_def turtle_new_def)
  then have known: "triples_known p"
    using p(1) knows_document [of "turtle_fuel input" "turtle_new input"] by (simp add: knows_def)
  have resource: "resource_known c r \<Longrightarrow> l \<in> resource_labels r \<Longrightarrow> from_document l \<noteq> from_parser l" for c r l
    by (cases r) (auto dest: label_known_once)
  have "term_known c t \<Longrightarrow> l \<in> term_labels t \<Longrightarrow> from_document l \<noteq> from_parser l" for c t l
    by (cases t) (auto dest: label_known_once)
  then show ?thesis using known resource p(2)
    by (fastforce simp: triples_known_def triple_known_def blank_labels_def)
qed

text \<open>Running the parser on a text: the fuel as a numeral, and what is behind a step left alone until it runs.\<close>

lemmas fuel_numeral =
  predicate_object_list.simps(2) [of "pred_numeral k" for k, folded numeral_eq_Suc]
  object_list.simps(2) [of "pred_numeral k" for k, folded numeral_eq_Suc]
  turtle_object.simps(2) [of "pred_numeral k" for k, folded numeral_eq_Suc]
  blank_node_property_list.simps(2) [of "pred_numeral k" for k, folded numeral_eq_Suc]
  collection.simps(2) [of "pred_numeral k" for k, folded numeral_eq_Suc]
  collection_items.simps(2) [of "pred_numeral k" for k, folded numeral_eq_Suc]
  read_document.simps(2) [of "pred_numeral k" for k, folded numeral_eq_Suc]

lemma run_weak: "m = m1 \<Longrightarrow> act_bind m f p = act_bind m1 f p" "looking g p = looking g p"
  by simp_all

lemmas run_simps = fuel_numeral parse_turtle_def turtle_fuel_def turtle_new_def act_bind_def looking_def
  lexed_def skip_all_def peek_def cp_whitespace_def matches_keyword_ci_def cp_lower_def turtle_statement_def
  read_subject_def iri_or_blank_def read_blank_label_def expect_def Let_def is_pn_local_char_def cp_alnum_def
  cp_alpha_def cp_digit_def verb_def read_iri_ref_def resolve_iri_def has_scheme_def advance_chars_def
  fresh_blank_def push_triple_def

lemma turtle_labels_apart_witness:
  "\<exists>t. parse_turtle (cps ''_:_bnl1 <p> [] .'') = Inr [t]
    \<and> tr_subject t = BlankNode (cps ''u__bnl1'') \<and> tr_object t = BlankTerm (cps ''_bnl1'')
    \<and> from_document (cps ''u__bnl1'') \<noteq> from_parser (cps ''u__bnl1'')
    \<and> from_document (cps ''_bnl1'') \<noteq> from_parser (cps ''_bnl1'')"
proof -
  let ?t = "\<lparr>tr_subject = BlankNode (cps ''u__bnl1''), tr_predicate = cps ''p'', tr_object = BlankTerm (cps ''_bnl1''),
    tr_graph = None\<rparr>"
  have parsed: "parse_turtle (cps ''_:_bnl1 <p> [] .'') = Inr [?t]"
  proof -
    have "dec (Suc 0) = ''1''" by code_simp
    then show ?thesis by (simp add: run_simps cong: run_weak)
  qed
  from turtle_labels_apart [OF this] show ?thesis
    by (intro exI [of _ ?t] conjI parsed) (simp_all add: blank_labels_def)
qed

section \<open>Collections\<close>

text \<open>The chain of list cells for some items when \<open>c\<close> labels are already made.\<close>

definition list_cell :: "nat \<Rightarrow> turtle_node" where
  "list_cell k = NodeBlank (generated_label k)"

definition cell_triples :: "nat \<Rightarrow> rdf_term list \<Rightarrow> nat \<Rightarrow> rdf_triple list" where
  "cell_triples c items i =
     [\<lparr>tr_subject = into_resource (list_cell (c + 1 + i)), tr_predicate = rdf_ns ''first'', tr_object = items ! i, tr_graph = None\<rparr>,
      \<lparr>tr_subject = into_resource (list_cell (c + 1 + i)), tr_predicate = rdf_ns ''rest'',
       tr_object = (if Suc i = length items then IriTerm (rdf_ns ''nil'') else into_term (list_cell (c + 2 + i))),
       tr_graph = None\<rparr>]"

definition list_triples :: "nat \<Rightarrow> rdf_term list \<Rightarrow> rdf_triple list" where
  "list_triples c items = concat (map (cell_triples c items) [0..<length items])"

lemma list_triples_Cons: "list_triples c (x # xs) = cell_triples c (x # xs) 0 @ list_triples (Suc c) xs"
proof -
  have "map (cell_triples c (x # xs)) [0..<length (x # xs)] =
      cell_triples c (x # xs) 0 # map (cell_triples c (x # xs)) (map Suc [0..<length xs])"
    by (simp only: map_Suc_upt list.size upt_conv_Cons list.map) simp
  moreover have "cell_triples c (x # xs) (Suc i) = cell_triples (Suc c) xs i" for i by (simp add: cell_triples_def)
  ultimately show ?thesis by (simp add: list_triples_def comp_def)
qed

lemma fresh_cell: "fresh_blank p = (Inr (list_cell (tp_counter p + 1)), p\<lparr>tp_counter := tp_counter p + 1\<rparr>)"
  by (simp add: fresh_blank_def list_cell_def generated_label_def)

lemma build_cells_triples:
  "items \<noteq> [] \<Longrightarrow> tp_counter p = Suc c \<Longrightarrow> build_cells (list_cell (Suc c)) items p =
    (Inr (), p\<lparr>tp_counter := c + length items, tp_triples := tp_triples p @ list_triples c items\<rparr>)"
proof (induction items arbitrary: c p)
  case (Cons x xs)
  show ?case
  proof (cases "xs = []")
    case True
    then show ?thesis using Cons.prems
      by (simp add: act_bind_def push_triple_def list_triples_def cell_triples_def)
  next
    case False
    let ?p = "p\<lparr>tp_counter := Suc (Suc c), tp_triples := tp_triples p @ cell_triples c (x # xs) 0\<rparr>"
    have "build_cells (list_cell (Suc c)) (x # xs) p = build_cells (list_cell (Suc (Suc c))) xs ?p"
      using False Cons.prems(2) by (simp add: act_bind_def push_triple_def fresh_cell cell_triples_def)
    also have "\<dots> = (Inr (), ?p\<lparr>tp_counter := Suc c + length xs, tp_triples := tp_triples ?p @ list_triples (Suc c) xs\<rparr>)"
      by (rule Cons.IH) (use False in simp_all)
    finally show ?thesis by (simp add: list_triples_Cons)
  qed
qed simp

text \<open>
  A collection becomes the list it stands for: for \<open>n\<close> items the parser makes \<open>n\<close> new nodes
  with consecutive labels and adds exactly \<open>2 n\<close> triples: the \<open>i\<close>-th node has the \<open>i\<close>-th item as its
  \<open>rdf:first\<close>, and as its \<open>rdf:rest\<close> the next node, for the last \<open>rdf:nil\<close>; the value of the
  collection is the first node.  The empty collection is \<open>rdf:nil\<close> and adds nothing.
\<close>

theorem collection_is_list:
  "build_collection items p =
    (if items = [] then (Inr (NodeIri (rdf_ns ''nil'')), p)
     else (Inr (list_cell (Suc (tp_counter p))),
       p\<lparr>tp_counter := tp_counter p + length items,
         tp_triples := tp_triples p @ list_triples (tp_counter p) items\<rparr>))"
proof (cases "items = []")
  case False
  have "build_cells (list_cell (Suc (tp_counter p))) items (p\<lparr>tp_counter := Suc (tp_counter p)\<rparr>) =
      (Inr (), (p\<lparr>tp_counter := Suc (tp_counter p)\<rparr>)\<lparr>tp_counter := tp_counter p + length items,
         tp_triples := tp_triples (p\<lparr>tp_counter := Suc (tp_counter p)\<rparr>) @ list_triples (tp_counter p) items\<rparr>)"
    by (rule build_cells_triples [OF False]) simp
  then show ?thesis using False by (simp add: build_collection_def act_bind_def fresh_cell)
qed (simp add: build_collection_def)

end
