(* ===== verification/Http.thy ===== *)
theory Http
  imports Retry Manifest
begin

text \<open>
  The transport half of \<open>client.rs\<close> of the crate \<open>arangodb-client\<close>, with \<open>auth.rs\<close> and the
  connection settings of \<open>config.rs\<close>: credentials, the token cache, one attempt at a request, the
  refresh after a 401 and the retry loop.  What lies outside the repository is the record
  \<open>http_env\<close>: the HTTP library with the server behind it (a function of a world of any type), the
  clock, URL joining, JSON text, base64 and HMAC.  \<open>cs_log\<close> is a ghost: every exchange with the
  clock when it was made.
\<close>

section \<open>Settings\<close>

datatype auth_config =
    AuthNone
  | AuthBasic string string
  | AuthBearer string
  | AuthJwtSecret string
  | AuthJwtLogin string string

record tls_config =
  tls_verify :: bool
  tls_ca_file :: "string option"

definition tls_default :: tls_config where
  "tls_default = \<lparr>tls_verify = True, tls_ca_file = None\<rparr>"

text \<open>Timeouts in seconds.\<close>

record connection_config =
  cn_endpoint :: string
  cn_database :: string
  cn_auth :: auth_config
  cn_tls :: tls_config
  cn_request_timeout :: nat
  cn_connect_timeout :: nat

definition connection_default :: connection_config where
  "connection_default = \<lparr>cn_endpoint = ''http://localhost:8529'', cn_database = ''_system'', cn_auth = AuthNone,
     cn_tls = tls_default, cn_request_timeout = 120, cn_connect_timeout = 10\<rparr>"

record client_builder =
  bd_config :: connection_config
  bd_retry :: retry_policy

definition builder_new :: client_builder where
  "builder_new = \<lparr>bd_config = connection_default, bd_retry = retry_policy_default\<rparr>"

definition set_endpoint :: "string \<Rightarrow> client_builder \<Rightarrow> client_builder" where
  "set_endpoint e b = b\<lparr>bd_config := (bd_config b)\<lparr>cn_endpoint := e\<rparr>\<rparr>"

definition set_database :: "string \<Rightarrow> client_builder \<Rightarrow> client_builder" where
  "set_database d b = b\<lparr>bd_config := (bd_config b)\<lparr>cn_database := d\<rparr>\<rparr>"

definition set_auth :: "auth_config \<Rightarrow> client_builder \<Rightarrow> client_builder" where
  "set_auth a b = b\<lparr>bd_config := (bd_config b)\<lparr>cn_auth := a\<rparr>\<rparr>"

definition basic_auth :: "string \<Rightarrow> string \<Rightarrow> client_builder \<Rightarrow> client_builder" where
  "basic_auth username password = set_auth (AuthBasic username password)"

definition jwt_secret :: "string \<Rightarrow> client_builder \<Rightarrow> client_builder" where
  "jwt_secret secret = set_auth (AuthJwtSecret secret)"

definition jwt_login :: "string \<Rightarrow> string \<Rightarrow> client_builder \<Rightarrow> client_builder" where
  "jwt_login username password = set_auth (AuthJwtLogin username password)"

definition bearer_auth :: "string \<Rightarrow> client_builder \<Rightarrow> client_builder" where
  "bearer_auth token = set_auth (AuthBearer token)"

definition set_request_timeout :: "nat \<Rightarrow> client_builder \<Rightarrow> client_builder" where
  "set_request_timeout t b = b\<lparr>bd_config := (bd_config b)\<lparr>cn_request_timeout := t\<rparr>\<rparr>"

definition set_connect_timeout :: "nat \<Rightarrow> client_builder \<Rightarrow> client_builder" where
  "set_connect_timeout t b = b\<lparr>bd_config := (bd_config b)\<lparr>cn_connect_timeout := t\<rparr>\<rparr>"

definition set_tls :: "tls_config \<Rightarrow> client_builder \<Rightarrow> client_builder" where
  "set_tls t b = b\<lparr>bd_config := (bd_config b)\<lparr>cn_tls := t\<rparr>\<rparr>"

definition set_insecure :: "bool \<Rightarrow> client_builder \<Rightarrow> client_builder" where
  "set_insecure i b = set_tls ((cn_tls (bd_config b))\<lparr>tls_verify := \<not> i\<rparr>) b"

definition set_retry :: "retry_policy \<Rightarrow> client_builder \<Rightarrow> client_builder" where
  "set_retry p b = b\<lparr>bd_retry := p\<rparr>"

section \<open>Requests and the world\<close>

datatype http_method = GET | POST | PUT | DELETE

datatype credential = NoCredential | BasicCredential string string | BearerCredential string

record http_request =
  rq_method :: http_method
  rq_url :: string
  rq_query :: "(string \<times> string) list"
  rq_credential :: credential
  rq_content_type :: "string option"
  rq_body :: "bytes option"

record http_response =
  rp_status :: nat
  rp_headers :: "(string \<times> string) list"
  rp_body :: bytes

datatype transport_fault = TimeoutFault string | ConnectFault string | OtherFault string

type_synonym exchange = "nat \<times> http_request \<times> (transport_fault + http_response)"

record 'w http_env =
  hx_send :: "http_request \<Rightarrow> 'w \<Rightarrow> (transport_fault + http_response) \<times> 'w"
  hx_now :: "'w \<Rightarrow> nat"
  hx_wait :: "nat \<Rightarrow> 'w \<Rightarrow> 'w"
  hx_join :: "string \<Rightarrow> string \<Rightarrow> string + string"
  hx_parse_url :: "string \<Rightarrow> string + string"
  hx_encode :: "json \<Rightarrow> bytes"
  hx_decode :: "bytes \<Rightarrow> json res"
  hx_base64 :: "bytes \<Rightarrow> string"
  hx_unbase64 :: "string \<Rightarrow> bytes option"
  hx_hmac :: "bytes \<Rightarrow> bytes \<Rightarrow> string + bytes"
  hx_lossy :: "bytes \<Rightarrow> codepoint list"
  hx_status_text :: "nat \<Rightarrow> string"

record client =
  cl_base :: string
  cl_config :: connection_config
  cl_retry :: retry_policy

definition cl_auth :: "client \<Rightarrow> auth_config" where
  "cl_auth cl = cn_auth (cl_config cl)"

record 'w client_state =
  cs_world :: 'w
  cs_token :: "(string \<times> nat option) option"
  cs_stats :: retry_stats
  cs_log :: "exchange list"

type_synonym ('w, 'a) call = "('w client_state, error, 'a) act"

text \<open>\<open>build\<close>, without the TLS set-up of the HTTP library.\<close>

definition client_build :: "'w http_env \<Rightarrow> client_builder \<Rightarrow> client res" where
  "client_build env b =
     (case hx_parse_url env (cn_endpoint (bd_config b)) of
        Inl err \<Rightarrow> Inl (Config (''invalid endpoint '' @ [CHR 0x27] @ cn_endpoint (bd_config b) @ [CHR 0x27] @ '': '' @ err))
      | Inr base \<Rightarrow> Inr \<lparr>cl_base = base, cl_config = bd_config b, cl_retry = bd_retry b\<rparr>)"

text \<open>The sibling on another database shares the state, the token cache included.\<close>

definition with_database :: "string \<Rightarrow> client \<Rightarrow> client" where
  "with_database d cl = cl\<lparr>cl_config := (cl_config cl)\<lparr>cn_database := d\<rparr>\<rparr>"

definition client_start :: "'w \<Rightarrow> 'w client_state" where
  "client_start w = \<lparr>cs_world = w, cs_token = None, cs_stats = stats_new, cs_log = []\<rparr>"

fun map_reqwest_error :: "transport_fault \<Rightarrow> error" where
  "map_reqwest_error (TimeoutFault e) = Connection (''request timed out: '' @ e)"
| "map_reqwest_error (ConnectFault e) = Connection (''could not connect: '' @ e)"
| "map_reqwest_error (OtherFault e) = Connection e"

text \<open>\<open>send\<close> and the reading of the body: either may fail, with the same error.\<close>

definition transmit :: "'w http_env \<Rightarrow> http_request \<Rightarrow> ('w, http_response) call" where
  "transmit env rq st =
     (case hx_send env rq (cs_world st) of
        (r, w) \<Rightarrow>
          (case r of Inl f \<Rightarrow> Inl (map_reqwest_error f) | Inr rp \<Rightarrow> Inr rp,
           st\<lparr>cs_world := w, cs_log := cs_log st @ [(hx_now env (cs_world st), rq, r)]\<rparr>))"

definition is_success :: "nat \<Rightarrow> bool" where
  "is_success status \<longleftrightarrow> 200 \<le> status \<and> status < 300"

definition arango_error_message :: "'w http_env \<Rightarrow> bytes \<Rightarrow> string option" where
  "arango_error_message env body =
     (case hx_decode env body of
        Inl _ \<Rightarrow> None
      | Inr v \<Rightarrow> Option.bind (jget v ''errorMessage'') as_str)"

definition lossy_text :: "'w http_env \<Rightarrow> bytes \<Rightarrow> codepoint list" where
  "lossy_text env b = (case from_utf8 b of Some s \<Rightarrow> s | None \<Rightarrow> hx_lossy env b)"

definition http_error :: "'w http_env \<Rightarrow> nat \<Rightarrow> bytes \<Rightarrow> error" where
  "http_error env status body =
     (case arango_error_message env body of
        Some message \<Rightarrow> Http status message ctx_new
      | None \<Rightarrow> Http status (hx_status_text env status) (ctx_server_response_truncated (lossy_text env body) ctx_new))"

fun is_unauthorized :: "error \<Rightarrow> bool" where
  "is_unauthorized (Http status _ _) = (status = 401)"
| "is_unauthorized _ = False"

section \<open>Tokens\<close>

definition expiry_skew :: nat where
  "expiry_skew = 60"

definition minted_lifetime :: nat where
  "minted_lifetime = 3600"

definition sign_hs256 :: "'w http_env \<Rightarrow> string \<Rightarrow> json \<Rightarrow> string res" where
  "sign_hs256 env secret payload =
     (let header = json_object [(''alg'', JString ''HS256''), (''typ'', JString ''JWT'')];
          signing_input = hx_base64 env (hx_encode env header) @ ''.'' @ hx_base64 env (hx_encode env payload) in
      case hx_hmac env secret signing_input of
        Inl err \<Rightarrow> Inl (Config (''JWT secret is not a usable HMAC key: '' @ err))
      | Inr mac \<Rightarrow> Inr (signing_input @ ''.'' @ hx_base64 env mac))"

definition token_claims :: "nat \<Rightarrow> json" where
  "token_claims issued = json_object
     [(''server_id'', JString ''arangodb-data-tools-rs''), (''iss'', JString ''arangodb''),
      (''iat'', jnat issued), (''exp'', jnat (issued + minted_lifetime))]"

definition mint_superuser_jwt :: "'w http_env \<Rightarrow> string \<Rightarrow> nat \<Rightarrow> string res" where
  "mint_superuser_jwt env secret issued = sign_hs256 env secret (token_claims issued)"

definition token_expiry :: "'w http_env \<Rightarrow> string \<Rightarrow> nat option" where
  "token_expiry env token =
     (case split_on (CHR ''.'') token of
        _ # payload # _ \<Rightarrow>
          Option.bind (hx_unbase64 env payload) (\<lambda>b.
            case hx_decode env b of
              Inl _ \<Rightarrow> None
            | Inr claims \<Rightarrow> Option.bind (jget claims ''exp'') as_u64)
      | _ \<Rightarrow> None)"

definition is_expiring :: "nat \<Rightarrow> nat option \<Rightarrow> bool" where
  "is_expiring now expires_at = (case expires_at of Some e \<Rightarrow> e \<le> now + expiry_skew | None \<Rightarrow> False)"

definition login :: "'w http_env \<Rightarrow> client \<Rightarrow> string \<Rightarrow> string \<Rightarrow> ('w, string) call" where
  "login env cl username password =
     (case hx_join env (cl_base cl) ''/_open/auth'' of
        Inl err \<Rightarrow> act_fail (Config (''invalid login URL for this endpoint: '' @ err))
      | Inr url \<Rightarrow>
          act_bind (transmit env \<lparr>rq_method = POST, rq_url = url, rq_query = [], rq_credential = NoCredential,
              rq_content_type = Some ''application/json'',
              rq_body = Some (hx_encode env (json_object [(''username'', JString username), (''password'', JString password)]))\<rparr>)
            (\<lambda>rp.
              if \<not> is_success (rp_status rp) then
                act_fail (Http (rp_status rp)
                  (''JWT login failed for user '' @ [CHR 0x27] @ username @ [CHR 0x27] @ '' at /_open/auth: ''
                   @ (case arango_error_message env (rp_body rp) of Some m \<Rightarrow> m | None \<Rightarrow> hx_status_text env (rp_status rp))
                   @ ''. Check the username and password; this endpoint does not accept a JWT secret (use --jwt-secret-file for that).'')
                  ctx_new)
              else
                (case Option.bind (case hx_decode env (rp_body rp) of Inl _ \<Rightarrow> None | Inr v \<Rightarrow> jget v ''jwt'') as_str of
                   Some token \<Rightarrow> act_return token
                 | None \<Rightarrow> act_fail (Config (''POST /_open/auth succeeded but returned no '' @ [CHR 0x27] @ ''jwt''
                             @ [CHR 0x27] @ '' field'')))))"

definition obtain_token :: "'w http_env \<Rightarrow> client \<Rightarrow> ('w, string) call" where
  "obtain_token env cl st =
     (case cl_auth cl of
        AuthJwtSecret secret \<Rightarrow> (mint_superuser_jwt env secret (hx_now env (cs_world st)), st)
      | AuthJwtLogin username password \<Rightarrow> login env cl username password st
      | _ \<Rightarrow> (Inl (Config ''no JWT credentials configured''), st))"

definition store_token :: "'w http_env \<Rightarrow> string \<Rightarrow> ('w, string) call" where
  "store_token env token st = (Inr token, st\<lparr>cs_token := Some (token, token_expiry env token)\<rparr>)"

definition bearer_token :: "'w http_env \<Rightarrow> client \<Rightarrow> ('w, string) call" where
  "bearer_token env cl st =
     (case cs_token st of
        Some (token, expires_at) \<Rightarrow>
          if \<not> is_expiring (hx_now env (cs_world st)) expires_at then (Inr token, st)
          else act_bind (obtain_token env cl) (store_token env) st
      | None \<Rightarrow> act_bind (obtain_token env cl) (store_token env) st)"

definition apply_auth :: "'w http_env \<Rightarrow> client \<Rightarrow> ('w, credential) call" where
  "apply_auth env cl =
     (case cl_auth cl of
        AuthNone \<Rightarrow> act_return NoCredential
      | AuthBasic username password \<Rightarrow> act_return (BasicCredential username password)
      | AuthBearer token \<Rightarrow> act_return (BearerCredential token)
      | _ \<Rightarrow> act_bind (bearer_token env cl) (\<lambda>token. act_return (BearerCredential token)))"

fun refreshable :: "auth_config \<Rightarrow> bool" where
  "refreshable (AuthJwtSecret _) = True"
| "refreshable (AuthJwtLogin _ _) = True"
| "refreshable _ = False"

definition can_refresh_token :: "client \<Rightarrow> bool" where
  "can_refresh_token cl = refreshable (cl_auth cl)"

definition auth_hint :: "auth_config \<Rightarrow> string" where
  "auth_hint a =
     (case a of
        AuthJwtSecret _ \<Rightarrow>
          ''the JWT secret was rejected. It must match the server'' @ [CHR 0x27]
          @ ''s --server.jwt-secret-keyfile byte for byte '' @ utf8 [0x2014]
          @ '' a trailing newline in the secret file is the usual cause (this client already trims one). Confirm with: curl -H ''
          @ [CHR 0x22] @ ''Authorization: bearer <token>'' @ [CHR 0x22] @ '' <endpoint>/_api/version''
      | _ \<Rightarrow>
          ''the login at POST /_open/auth succeeded earlier but the token was then refused. The user may lack rights on this database, or the server''
          @ [CHR 0x27] @ ''s JWT secret may have been rotated mid-run'')"

fun explain_auth_failure :: "client \<Rightarrow> error \<Rightarrow> error" where
  "explain_auth_failure cl (Http status message ctx) =
     (if status = 401 \<and> can_refresh_token cl
      then Http 401 (message @ ''. Hint: '' @ auth_hint (cl_auth cl)) ctx_new
      else Http status message ctx)"
| "explain_auth_failure cl err = err"

definition invalidate_token :: "unit \<Rightarrow> ('w, unit) call" where
  "invalidate_token u st = (Inr u, st\<lparr>cs_token := None\<rparr>)"

section \<open>Attempts\<close>

definition answer :: "'w http_env \<Rightarrow> http_response \<Rightarrow> bytes res" where
  "answer env rp = (if is_success (rp_status rp) then Inr (rp_body rp) else Inl (http_error env (rp_status rp) (rp_body rp)))"

definition attempt_response ::
  "'w http_env \<Rightarrow> client \<Rightarrow> http_method \<Rightarrow> string \<times> (string \<times> string) list \<Rightarrow> string option \<Rightarrow> bytes option
   \<Rightarrow> ('w, http_response) call"
where
  "attempt_response env cl method url ctype body =
     act_bind (apply_auth env cl) (\<lambda>cred.
       transmit env \<lparr>rq_method = method, rq_url = fst url, rq_query = snd url, rq_credential = cred,
         rq_content_type = ctype, rq_body = body\<rparr>)"

text \<open>An attempt at a request that is not refreshed after a 401.\<close>

definition attempt_plain ::
  "'w http_env \<Rightarrow> client \<Rightarrow> http_method \<Rightarrow> string \<times> (string \<times> string) list \<Rightarrow> ('w, bytes) call"
where
  "attempt_plain env cl method url =
     act_bind (attempt_response env cl method url None None) (\<lambda>rp. act_lift (answer env rp))"

definition attempt_body ::
  "'w http_env \<Rightarrow> client \<Rightarrow> http_method \<Rightarrow> string \<times> (string \<times> string) list \<Rightarrow> string \<Rightarrow> bytes \<Rightarrow> ('w, bytes) call"
where
  "attempt_body env cl method url ctype body =
     act_bind (attempt_response env cl method url (Some ctype) (Some body)) (\<lambda>rp. act_lift (answer env rp))"

definition url_for :: "'w http_env \<Rightarrow> client \<Rightarrow> string \<Rightarrow> string res" where
  "url_for env cl path =
     (let scoped = ''/_db/'' @ cn_database (cl_config cl) @ path in
      case hx_join env (cl_base cl) scoped of
        Inl err \<Rightarrow> Inl (Config (''invalid request URL '' @ [CHR 0x27] @ scoped @ [CHR 0x27] @ '': '' @ err))
      | Inr url \<Rightarrow> Inr url)"

definition attempt_request ::
  "'w http_env \<Rightarrow> client \<Rightarrow> http_method \<Rightarrow> string \<Rightarrow> bytes option \<Rightarrow> ('w, bytes) call"
where
  "attempt_request env cl method path body =
     act_bind (act_lift (url_for env cl path)) (\<lambda>url.
     act_bind (attempt_response env cl method (url, [])
         (map_option (\<lambda>_. ''application/json'') body) body) (\<lambda>rp. act_lift (answer env rp)))"

definition refreshing :: "client \<Rightarrow> ('w, 'a) call \<Rightarrow> ('w, 'a) call" where
  "refreshing cl m st =
     (case m st of
        (Inr x, st1) \<Rightarrow> (Inr x, st1)
      | (Inl err, st1) \<Rightarrow>
          if is_unauthorized err \<and> can_refresh_token cl then
            (case act_bind (invalidate_token ()) (\<lambda>_. m) st1 of
               (Inl err2, st2) \<Rightarrow> (Inl (explain_auth_failure cl err2), st2)
             | (Inr x, st2) \<Rightarrow> (Inr x, st2))
          else (Inl err, st1))"

definition send_body ::
  "'w http_env \<Rightarrow> client \<Rightarrow> http_method \<Rightarrow> string \<times> (string \<times> string) list \<Rightarrow> string \<Rightarrow> bytes \<Rightarrow> ('w, bytes) call"
where
  "send_body env cl method url ctype body = refreshing cl (attempt_body env cl method url ctype body)"

definition send_request :: "'w http_env \<Rightarrow> client \<Rightarrow> http_method \<Rightarrow> string \<Rightarrow> bytes option \<Rightarrow> ('w, bytes) call" where
  "send_request env cl method path body = refreshing cl (attempt_request env cl method path body)"

section \<open>The retry loop around an attempt\<close>

text \<open>\<open>retry\<close> of the core crate around an operation on the client's state; \<open>hx_wait\<close> is the sleep.\<close>

function retry_call :: "'w http_env \<Rightarrow> retry_policy \<Rightarrow> nat \<Rightarrow> ('w, 'a) call \<Rightarrow> ('w, 'a) call" where
  "retry_call env p attempt m st =
     (case m st of
        (Inr x, st1) \<Rightarrow> (Inr x, st1)
      | (Inl err, st1) \<Rightarrow>
          (let attempt1 = attempt + 1;
               st2 = (if has_stats p \<and> is_server_error err
                      then st1\<lparr>cs_stats := (cs_stats st1)\<lparr>rs_server_errors := rs_server_errors (cs_stats st1) + 1\<rparr>\<rparr>
                      else st1) in
           if max_attempts p \<le> attempt1 \<or> \<not> is_retryable err then (Inl err, st2)
           else (let st3 = (if has_stats p
                            then st2\<lparr>cs_stats := (cs_stats st2)\<lparr>rs_retries := rs_retries (cs_stats st2) + 1\<rparr>\<rparr>
                            else st2)
                 in retry_call env p attempt1 m (st3\<lparr>cs_world := hx_wait env attempt1 (cs_world st3)\<rparr>))))"
  by pat_completeness auto
termination
  by (relation "measure (\<lambda>(_, p, attempt, _, _). max_attempts p - attempt)") auto

declare retry_call.simps [simp del]

definition retried :: "'w http_env \<Rightarrow> client \<Rightarrow> ('w, 'a) call \<Rightarrow> ('w, 'a) call" where
  "retried env cl m = retry_call env (cl_retry cl) 0 m"

definition execute :: "'w http_env \<Rightarrow> client \<Rightarrow> http_method \<Rightarrow> string \<Rightarrow> bytes option \<Rightarrow> ('w, bytes) call" where
  "execute env cl method path body = retried env cl (send_request env cl method path body)"

end
