(* ===== verification/ClientOps.thy ===== *)
theory ClientOps
  imports Http RdfGraph Restore
begin

text \<open>
  The operations of \<open>client.rs\<close> on the transport of \<open>Http\<close>, with the answers of
  \<open>collection.rs\<close>, \<open>version.rs\<close>, \<open>cursor.rs\<close>, \<open>import.rs\<close>, \<open>replication.rs\<close> and \<open>topology.rs\<close>
  as the derived deserialisers read them.  One definition per operation, on the client that is
  asked and the state its clones share.
\<close>

section \<open>Answers\<close>

fun kind_type_id :: "collection_kind \<Rightarrow> nat" where
  "kind_type_id DocumentKind = 2"
| "kind_type_id EdgeKind = 3"

fun kind_debug :: "collection_kind \<Rightarrow> string" where
  "kind_debug DocumentKind = ''Document''"
| "kind_debug EdgeKind = ''Edge''"

record collection_info_doc =
  ci_name :: string
  ci_type_id :: nat

definition info_kind :: "collection_info_doc \<Rightarrow> collection_kind option" where
  "info_kind i = (if ci_type_id i = 2 then Some DocumentKind else if ci_type_id i = 3 then Some EdgeKind else None)"

definition as_u8 :: "json \<Rightarrow> nat option" where
  "as_u8 j = Option.bind (as_u64 j) (\<lambda>n. if n < 256 then Some n else None)"

definition collection_info_of_value :: "json \<Rightarrow> collection_info_doc option" where
  "collection_info_of_value j =
     Option.bind (req_field as_str j ''name'') (\<lambda>n.
     Option.bind (req_field as_u8 j ''type'') (\<lambda>t. Some \<lparr>ci_name = n, ci_type_id = t\<rparr>))"

definition collection_count_of_value :: "json \<Rightarrow> nat option" where
  "collection_count_of_value j = req_field as_u64 j ''count''"

record version_info =
  vi_server :: string
  vi_version :: string
  vi_license :: "string option"

definition version_info_of_value :: "json \<Rightarrow> version_info option" where
  "version_info_of_value j =
     Option.bind (req_field as_str j ''server'') (\<lambda>s.
     Option.bind (req_field as_str j ''version'') (\<lambda>v.
     Option.bind (opt_read as_str j ''license'') (\<lambda>l.
       Some \<lparr>vi_server = s, vi_version = v, vi_license = l\<rparr>)))"

definition role_of_value :: "json \<Rightarrow> string option" where
  "role_of_value j = req_field as_str j ''role''"

text \<open>Only the counts are kept; the details must still be a list of strings.\<close>

definition import_result_of_value :: "json \<Rightarrow> import_result option" where
  "import_result_of_value j =
     Option.bind (default_field 0 as_u64 j ''created'') (\<lambda>c.
     Option.bind (default_field 0 as_u64 j ''errors'') (\<lambda>e.
     Option.bind (default_field 0 as_u64 j ''empty'') (\<lambda>m.
     Option.bind (default_field 0 as_u64 j ''updated'') (\<lambda>u.
     Option.bind (default_field 0 as_u64 j ''ignored'') (\<lambda>i.
     Option.bind (default_field [] strings_of j ''details'') (\<lambda>_.
       Some \<lparr>ir_created = c, ir_errors = e, ir_empty = m, ir_updated = u, ir_ignored = i\<rparr>))))))"

definition cursor_batch_of_value :: "json \<Rightarrow> cursor_batch option" where
  "cursor_batch_of_value j =
     Option.bind (default_field [] as_array j ''result'') (\<lambda>r.
     Option.bind (default_field False as_bool j ''hasMore'') (\<lambda>h.
     Option.bind (opt_read as_str j ''id'') (\<lambda>i.
       Some \<lparr>cb_result = r, cb_has_more = h, cb_id = i\<rparr>)))"

definition inventory_collection_of_value :: "json \<Rightarrow> inventory_collection option" where
  "inventory_collection_of_value j =
     Option.bind (jget j ''parameters'') (\<lambda>p.
     Option.bind (default_field [] as_array j ''indexes'') (\<lambda>i.
       Some \<lparr>ic_parameters = p, ic_indexes = i\<rparr>))"

definition inventory_of_value :: "json \<Rightarrow> inventory option" where
  "inventory_of_value j =
     Option.bind (default_field [] (\<lambda>x. Option.bind (as_array x) (all_some inventory_collection_of_value)) j
                    ''collections'') (\<lambda>c.
     Option.bind (default_field [] as_array j ''views'') (\<lambda>v.
       Some \<lparr>inv_collections = c, inv_views = v\<rparr>))"

text \<open>\<open>to_str\<close> of a header and the parsers of its value.\<close>

definition visible :: "string \<Rightarrow> bool" where
  "visible s \<longleftrightarrow> (\<forall>c \<in> set s. (32 \<le> (of_char c :: nat) \<and> (of_char c :: nat) < 127) \<or> c = CHR 0x09)"

definition header_text :: "http_response \<Rightarrow> string \<Rightarrow> string option" where
  "header_text rp name = Option.bind (map_of (rp_headers rp) name) (\<lambda>v. if visible v then Some v else None)"

definition parse_u64 :: "string \<Rightarrow> nat option" where
  "parse_u64 s =
     (let digits = (case s of c # rest \<Rightarrow> if c = CHR ''+'' then rest else s | [] \<Rightarrow> []) in
      if digits = [] \<or> \<not> list_all is_digit digits \<or> 2 ^ 64 \<le> undec digits then None else Some (undec digits))"

definition header_u64 :: "http_response \<Rightarrow> string \<Rightarrow> 64 word" where
  "header_u64 rp name = (case Option.bind (header_text rp name) parse_u64 of Some n \<Rightarrow> of_nat n | None \<Rightarrow> 0)"

definition header_bool :: "http_response \<Rightarrow> string \<Rightarrow> bool" where
  "header_bool rp name = (case header_text rp name of Some v \<Rightarrow> to_ascii_lowercase v = ''true'' | None \<Rightarrow> False)"

section \<open>Databases and the server\<close>

definition joined :: "'w http_env \<Rightarrow> client \<Rightarrow> string \<Rightarrow> string \<Rightarrow> string res" where
  "joined env cl what path =
     (case hx_join env (cl_base cl) path of
        Inl err \<Rightarrow> Inl (Config (''invalid '' @ what @ '' URL: '' @ err))
      | Inr url \<Rightarrow> Inr url)"

definition database_names :: "json \<Rightarrow> string list res" where
  "database_names v =
     (case Option.bind (jget v ''result'') as_array of
        Some arr \<Rightarrow> Inr (List.map_filter as_str arr)
      | None \<Rightarrow>
          (case as_array v of
             Some arr \<Rightarrow> Inr (List.map_filter as_str arr)
           | None \<Rightarrow> Inl (Config ''unexpected response from /_api/database'')))"

definition list_databases :: "'w http_env \<Rightarrow> client \<Rightarrow> ('w, string list) call" where
  "list_databases env cl =
     act_bind (act_lift (joined env cl ''database list'' ''/_db/_system/_api/database'')) (\<lambda>url.
     act_bind (retried env cl (attempt_plain env cl GET (url, []))) (\<lambda>payload.
       act_lift (try_res (hx_decode env payload) database_names)))"

definition server_version :: "'w http_env \<Rightarrow> client \<Rightarrow> ('w, version_info) call" where
  "server_version env cl = act_bind (execute env cl GET ''/_api/version'' None) (\<lambda>body.
     act_lift (from_json (hx_decode env) version_info_of_value body))"

definition server_role_request :: "'w http_env \<Rightarrow> client \<Rightarrow> ('w, server_role) call" where
  "server_role_request env cl =
     act_bind (act_lift (joined env cl ''server role'' ''/_admin/server/role'')) (\<lambda>url.
     act_bind (retried env cl (attempt_plain env cl GET (url, []))) (\<lambda>payload.
       act_lift (try_res (from_json (hx_decode env) role_of_value payload) (\<lambda>r. Inr (server_role_parse r)))))"

definition create_database :: "'w http_env \<Rightarrow> client \<Rightarrow> string \<Rightarrow> ('w, unit) call" where
  "create_database env cl name =
     act_bind (act_lift (joined env cl ''database'' ''/_db/_system/_api/database'')) (\<lambda>url st.
       case retried env cl (send_body env cl POST (url, []) ''application/json''
              (hx_encode env (json_object [(''name'', JString name)]))) st of
         (Inr _, st1) \<Rightarrow> (Inr (), st1)
       | (Inl (Http status m c), st1) \<Rightarrow> (if status = 409 then Inr () else Inl (Http status m c), st1)
       | (Inl err, st1) \<Rightarrow> (Inl err, st1))"

text \<open>\<open>drop_database\<close> makes one attempt.\<close>

definition drop_database :: "'w http_env \<Rightarrow> client \<Rightarrow> string \<Rightarrow> ('w, unit) call" where
  "drop_database env cl name =
     act_bind (act_lift (joined env cl ''database'' (''/_db/_system/_api/database/'' @ name))) (\<lambda>url.
     act_bind (attempt_response env cl DELETE (url, []) None None) (\<lambda>rp.
       if is_success (rp_status rp) \<or> rp_status rp = 404 then act_return ()
       else act_fail (http_error env (rp_status rp) (rp_body rp))))"

text \<open>A request for its effect, and one for which 404 is as good.\<close>

definition done_by :: "'w http_env \<Rightarrow> client \<Rightarrow> http_method \<Rightarrow> string \<Rightarrow> bytes option \<Rightarrow> ('w, unit) call" where
  "done_by env cl method path body = act_bind (execute env cl method path body) (\<lambda>_. act_return ())"

definition gone_by :: "'w http_env \<Rightarrow> client \<Rightarrow> string \<Rightarrow> ('w, unit) call" where
  "gone_by env cl path st =
     (case execute env cl DELETE path None st of
        (Inr _, st1) \<Rightarrow> (Inr (), st1)
      | (Inl (Http status m c), st1) \<Rightarrow> (if status = 404 then Inr () else Inl (Http status m c), st1)
      | (Inl err, st1) \<Rightarrow> (Inl err, st1))"

section \<open>Imports and cursors\<close>

datatype on_duplicate = DupError | DupUpdate | DupReplace | DupIgnore

fun as_query_value :: "on_duplicate \<Rightarrow> string" where
  "as_query_value DupError = ''error''"
| "as_query_value DupUpdate = ''update''"
| "as_query_value DupReplace = ''replace''"
| "as_query_value DupIgnore = ''ignore''"

record import_options =
  io_collection :: string
  io_on_duplicate :: on_duplicate
  io_wait_for_sync :: bool
  io_complete :: bool
  io_details :: bool
  io_from_prefix :: "string option"
  io_to_prefix :: "string option"
  io_overwrite :: bool

definition import_options_new :: "string \<Rightarrow> import_options" where
  "import_options_new c = \<lparr>io_collection = c, io_on_duplicate = DupError, io_wait_for_sync = False,
     io_complete = False, io_details = False, io_from_prefix = None, io_to_prefix = None, io_overwrite = False\<rparr>"

definition import_query :: "import_options \<Rightarrow> (string \<times> string) list" where
  "import_query o1 =
     [(''collection'', io_collection o1), (''type'', ''documents''),
      (''onDuplicate'', as_query_value (io_on_duplicate o1))]
     @ (if io_wait_for_sync o1 then [(''waitForSync'', ''true'')] else [])
     @ (if io_complete o1 then [(''complete'', ''true'')] else [])
     @ (if io_details o1 then [(''details'', ''true'')] else [])
     @ (if io_overwrite o1 then [(''overwrite'', ''true'')] else [])
     @ (case io_from_prefix o1 of Some p \<Rightarrow> [(''fromPrefix'', p)] | None \<Rightarrow> [])
     @ (case io_to_prefix o1 of Some p \<Rightarrow> [(''toPrefix'', p)] | None \<Rightarrow> [])"

definition import_documents :: "'w http_env \<Rightarrow> client \<Rightarrow> import_options \<Rightarrow> bytes \<Rightarrow> ('w, import_result) call" where
  "import_documents env cl o1 body =
     (if io_collection o1 = [] then act_fail (Config ''import requires a collection name'')
      else act_bind (act_lift (url_for env cl ''/_api/import'')) (\<lambda>url.
           act_bind (retried env cl (send_body env cl POST (url, import_query o1) ''application/x-ndjson'' body)) (\<lambda>payload.
             act_lift (from_json (hx_decode env) import_result_of_value payload))))"

definition cursor_open :: "'w http_env \<Rightarrow> client \<Rightarrow> cursor_request \<Rightarrow> ('w, cursor_batch) call" where
  "cursor_open env cl rq =
     act_bind (execute env cl POST ''/_api/cursor'' (Some (hx_encode env (cursor_request_to_value rq)))) (\<lambda>body.
       act_lift (from_json (hx_decode env) cursor_batch_of_value body))"

definition cursor_next :: "'w http_env \<Rightarrow> client \<Rightarrow> string \<Rightarrow> ('w, cursor_batch) call" where
  "cursor_next env cl i =
     act_bind (execute env cl PUT (''/_api/cursor/'' @ i) None) (\<lambda>body.
       act_lift (from_json (hx_decode env) cursor_batch_of_value body))"

definition cursor_delete :: "'w http_env \<Rightarrow> client \<Rightarrow> string \<Rightarrow> ('w, unit) call" where
  "cursor_delete env cl i = gone_by env cl (''/_api/cursor/'' @ i)"

section \<open>Replication\<close>

definition bool_text :: "bool \<Rightarrow> string" where
  "bool_text b = (if b then ''true'' else ''false'')"

definition ttl_body :: "'w http_env \<Rightarrow> nat \<Rightarrow> bytes" where
  "ttl_body env ttl = hx_encode env (json_object [(''ttl'', jnat ttl)])"

definition replication_batch_create :: "'w http_env \<Rightarrow> client \<Rightarrow> nat \<Rightarrow> ('w, string) call" where
  "replication_batch_create env cl ttl =
     act_bind (execute env cl POST ''/_api/replication/batch'' (Some (ttl_body env ttl))) (\<lambda>body.
       act_lift (try_res (hx_decode env body) (\<lambda>v.
         ok_or (Config ''replication batch response missing id'') (Option.bind (jget v ''id'') as_str))))"

definition replication_batch_extend :: "'w http_env \<Rightarrow> client \<Rightarrow> string \<Rightarrow> nat \<Rightarrow> ('w, unit) call" where
  "replication_batch_extend env cl i ttl = done_by env cl PUT (''/_api/replication/batch/'' @ i) (Some (ttl_body env ttl))"

definition replication_batch_delete :: "'w http_env \<Rightarrow> client \<Rightarrow> string \<Rightarrow> ('w, unit) call" where
  "replication_batch_delete env cl i = gone_by env cl (''/_api/replication/batch/'' @ i)"

definition replication_inventory :: "'w http_env \<Rightarrow> client \<Rightarrow> string \<Rightarrow> bool \<Rightarrow> ('w, inventory) call" where
  "replication_inventory env cl batch include_system =
     act_bind (execute env cl GET (''/_api/replication/inventory?batchId='' @ batch @ ''&includeSystem=''
         @ bool_text include_system) None) (\<lambda>body.
       act_lift (from_json (hx_decode env) inventory_of_value body))"

definition replication_dump_chunk ::
  "'w http_env \<Rightarrow> client \<Rightarrow> string \<Rightarrow> string \<Rightarrow> 64 word \<Rightarrow> nat \<Rightarrow> ('w, dump_chunk) call"
where
  "replication_dump_chunk env cl coll batch from_tick chunk_size =
     act_bind (act_lift (url_for env cl ''/_api/replication/dump'')) (\<lambda>url.
       retried env cl
         (act_bind (attempt_response env cl GET
             (url, [(''collection'', coll), (''batchId'', batch), (''from'', dec (unat from_tick)),
                    (''chunkSize'', dec chunk_size)]) None None) (\<lambda>rp.
           if is_success (rp_status rp)
           then act_return \<lparr>ch_body = rp_body rp, ch_last_tick = header_u64 rp ''x-arango-replication-lastincluded'',
                  ch_has_more = header_bool rp ''x-arango-replication-checkmore''\<rparr>
           else act_fail (http_error env (rp_status rp) (rp_body rp)))))"

definition restore_collection :: "'w http_env \<Rightarrow> client \<Rightarrow> json \<Rightarrow> json list \<Rightarrow> bool \<Rightarrow> ('w, unit) call" where
  "restore_collection env cl parameters indexes overwrite =
     done_by env cl PUT (''/_api/replication/restore-collection?overwrite='' @ bool_text overwrite)
       (Some (hx_encode env (json_object [(''parameters'', parameters), (''indexes'', JArray indexes)])))"

definition restore_data :: "'w http_env \<Rightarrow> client \<Rightarrow> string \<Rightarrow> bytes \<Rightarrow> ('w, unit) call" where
  "restore_data env cl coll body =
     act_bind (act_lift (url_for env cl ''/_api/replication/restore-data'')) (\<lambda>url.
     act_bind (retried env cl (send_body env cl PUT (url, [(''collection'', coll)]) ''application/json'' body)) (\<lambda>_.
       act_return ()))"

section \<open>Collections, indexes, graphs and views\<close>

definition collection_info :: "'w http_env \<Rightarrow> client \<Rightarrow> string \<Rightarrow> ('w, collection_info_doc option) call" where
  "collection_info env cl name st =
     (case execute env cl GET (''/_api/collection/'' @ name) None st of
        (Inr body, st1) \<Rightarrow> (try_res (from_json (hx_decode env) collection_info_of_value body) (\<lambda>i. Inr (Some i)), st1)
      | (Inl (Http status m c), st1) \<Rightarrow> (if status = 404 then Inr None else Inl (Http status m c), st1)
      | (Inl err, st1) \<Rightarrow> (Inl err, st1))"

definition collection_count :: "'w http_env \<Rightarrow> client \<Rightarrow> string \<Rightarrow> ('w, nat) call" where
  "collection_count env cl name =
     act_bind (execute env cl GET (''/_api/collection/'' @ name @ ''/count'') None) (\<lambda>body.
       act_lift (from_json (hx_decode env) collection_count_of_value body))"

definition create_index :: "'w http_env \<Rightarrow> client \<Rightarrow> string \<Rightarrow> json \<Rightarrow> ('w, unit) call" where
  "create_index env cl coll definition1 =
     act_bind (act_lift (url_for env cl ''/_api/index'')) (\<lambda>url.
     act_bind (retried env cl (send_body env cl POST (url, [(''collection'', coll)]) ''application/json''
         (hx_encode env definition1))) (\<lambda>_. act_return ()))"

definition create_graph :: "'w http_env \<Rightarrow> client \<Rightarrow> json \<Rightarrow> ('w, unit) call" where
  "create_graph env cl definition1 = done_by env cl POST ''/_api/gharial'' (Some (hx_encode env definition1))"

definition drop_graph :: "'w http_env \<Rightarrow> client \<Rightarrow> string \<Rightarrow> bool \<Rightarrow> ('w, unit) call" where
  "drop_graph env cl name drop_collections =
     gone_by env cl (''/_api/gharial/'' @ name @ ''?dropCollections='' @ bool_text drop_collections)"

fun view_body :: "json \<Rightarrow> json" where
  "view_body (JObject kvs) = JObject (bt_remove ''globallyUniqueId'' (bt_remove ''id'' kvs))"
| "view_body j = j"

definition create_view :: "'w http_env \<Rightarrow> client \<Rightarrow> json \<Rightarrow> ('w, unit) call" where
  "create_view env cl definition1 =
     done_by env cl POST ''/_api/view'' (Some (hx_encode env (view_body definition1)))"

definition drop_view :: "'w http_env \<Rightarrow> client \<Rightarrow> string \<Rightarrow> ('w, unit) call" where
  "drop_view env cl name = gone_by env cl (''/_api/view/'' @ name)"

definition drop_collection :: "'w http_env \<Rightarrow> client \<Rightarrow> string \<Rightarrow> ('w, unit) call" where
  "drop_collection env cl name = done_by env cl DELETE (''/_api/collection/'' @ name) None"

definition create_collection_body :: "string \<Rightarrow> collection_kind \<Rightarrow> json" where
  "create_collection_body name kind = json_object [(''name'', JString name), (''type'', jnat (kind_type_id kind))]"

definition make_collection :: "'w http_env \<Rightarrow> client \<Rightarrow> string \<Rightarrow> collection_kind \<Rightarrow> ('w, unit) call" where
  "make_collection env cl name kind =
     done_by env cl POST ''/_api/collection'' (Some (hx_encode env (create_collection_body name kind)))"

definition ensure_collection :: "'w http_env \<Rightarrow> client \<Rightarrow> string \<Rightarrow> collection_kind \<Rightarrow> ('w, unit) call" where
  "ensure_collection env cl name kind =
     act_bind (collection_info env cl name) (\<lambda>found.
       case found of
         Some info \<Rightarrow>
           (case info_kind info of
              Some existing \<Rightarrow>
                if existing = kind then act_return ()
                else act_fail (Config (''collection '' @ quoted name @ '' already exists as '' @ kind_debug existing
                  @ '', but '' @ kind_debug kind @ '' was requested''))
            | None \<Rightarrow> act_fail (Config (''collection '' @ quoted name @ '' already exists with an unsupported type'')))
       | None \<Rightarrow> make_collection env cl name kind)"

end
