(* ===== verification/ClientLaws.thy ===== *)
theory ClientLaws
  imports ClientOps
begin

text \<open>
  What holds of every operation of the client: how many exchanges it may make, that the success it
  reports is one the server gave, and which tokens it sends.
\<close>

section \<open>How many exchanges\<close>

definition exchanges :: "nat \<Rightarrow> ('w, 'a) call \<Rightarrow> bool" where
  "exchanges k m \<longleftrightarrow> (\<forall>st. length (cs_log (snd (m st))) \<le> length (cs_log st) + k)"

named_theorems exchange_intros \<open>bounds on the exchanges of an operation\<close>

lemma exchangesD: "exchanges k m \<Longrightarrow> m st = (r, st1) \<Longrightarrow> length (cs_log st1) \<le> length (cs_log st) + k"
  unfolding exchanges_def by (metis snd_conv)

lemma exchanges_mono: "exchanges j m \<Longrightarrow> j \<le> k \<Longrightarrow> exchanges k m"
  unfolding exchanges_def by (meson add_left_mono order.trans)

lemma exchanges_basic:
  "exchanges 0 (act_return x)" "exchanges 0 (act_fail e)" "exchanges 0 (act_lift r)"
  by (simp_all add: exchanges_def)

lemma exchanges_bind:
  assumes "exchanges j m" "\<And>x. exchanges i (f x)"
  shows "exchanges (j + i) (act_bind m f)"
  unfolding exchanges_def
proof
  fix st
  obtain r st1 where m: "m st = (r, st1)" by fastforce
  have l: "length (cs_log st1) \<le> length (cs_log st) + j" by (rule exchangesD [OF assms(1) m])
  show "length (cs_log (snd (act_bind m f st))) \<le> length (cs_log st) + (j + i)"
  proof (cases r)
    case (Inr x)
    have "length (cs_log (snd (f x st1))) \<le> length (cs_log st1) + i" using assms(2) by (simp add: exchanges_def)
    then show ?thesis using l m Inr by (simp add: act_bind_def)
  qed (use l m in \<open>simp add: act_bind_def\<close>)
qed

lemmas exchanges_then = exchanges_bind [where i = 0, simplified]

lemma exchanges_transmit: "exchanges (Suc 0) (transmit env rq)"
  by (simp add: exchanges_def transmit_def split: prod.splits)

text \<open>Only a login takes an exchange before the request.\<close>

definition login_cost :: "client \<Rightarrow> nat" where
  "login_cost cl = (case cl_auth cl of AuthJwtLogin _ _ \<Rightarrow> 1 | _ \<Rightarrow> 0)"

lemma exchanges_login: "exchanges (Suc 0) (login env cl u p)"
  unfolding login_def
  by (auto intro!: exchanges_mono [OF exchanges_basic(2)] exchanges_then exchanges_transmit exchanges_basic
      split: sum.split option.split)

lemma exchanges_obtain: "exchanges (login_cost cl) (obtain_token env cl)"
  using exchanges_login [of env cl]
  by (auto simp: exchanges_def obtain_token_def login_cost_def split: auth_config.splits)

lemma exchanges_bearer: "exchanges (login_cost cl) (bearer_token env cl)"
proof -
  have "exchanges 0 (store_token env t)" for t by (simp add: exchanges_def store_token_def)
  then have "exchanges (login_cost cl) (act_bind (obtain_token env cl) (store_token env))"
    by (intro exchanges_then exchanges_obtain)
  then show ?thesis unfolding exchanges_def bearer_token_def by (auto split: option.split)
qed

lemma exchanges_auth: "exchanges (login_cost cl) (apply_auth env cl)"
  unfolding apply_auth_def
  by (auto intro!: exchanges_then exchanges_bearer exchanges_basic exchanges_mono [OF exchanges_basic(1)]
      split: auth_config.split)

lemma exchanges_attempt: "exchanges (login_cost cl + 1) (attempt_response env cl method url ctype body)"
  unfolding attempt_response_def One_nat_def by (intro exchanges_bind exchanges_auth exchanges_transmit)

lemma exchanges_attempt_body: "exchanges (login_cost cl + 1) (attempt_body env cl method url ctype body)"
  unfolding attempt_body_def by (intro exchanges_then exchanges_attempt exchanges_basic)

lemma exchanges_attempt_request: "exchanges (login_cost cl + 1) (attempt_request env cl method path body)"
proof -
  have "exchanges (0 + (login_cost cl + 1)) (attempt_request env cl method path body)"
    unfolding attempt_request_def
    by (intro exchanges_bind [where j = 0] exchanges_then exchanges_attempt exchanges_basic)
  then show ?thesis by simp
qed

definition send_cost :: "client \<Rightarrow> nat" where
  "send_cost cl = (if can_refresh_token cl then 2 else 1) * (login_cost cl + 1)"

lemma exchanges_refreshing:
  assumes "exchanges (login_cost cl + 1) m"
  shows "exchanges (send_cost cl) (refreshing cl m)"
  unfolding exchanges_def
proof
  fix st
  let ?k = "login_cost cl + 1"
  obtain r st1 where m: "m st = (r, st1)" by fastforce
  have l1: "length (cs_log st1) \<le> length (cs_log st) + ?k" by (rule exchangesD [OF assms m])
  obtain r2 st2 where m2: "m (st1\<lparr>cs_token := None\<rparr>) = (r2, st2)" by fastforce
  have "length (cs_log st2) \<le> length (cs_log (st1\<lparr>cs_token := None\<rparr>)) + ?k" by (rule exchangesD [OF assms m2])
  then have l2: "length (cs_log st2) \<le> length (cs_log st) + 2 * ?k" using l1 by simp
  have k: "?k \<le> send_cost cl" by (simp add: send_cost_def)
  show "length (cs_log (snd (refreshing cl m st))) \<le> length (cs_log st) + send_cost cl"
  proof (cases "\<exists>err. r = Inl err \<and> is_unauthorized err \<and> can_refresh_token cl")
    case True
    then have "snd (refreshing cl m st) = st2" "send_cost cl = 2 * ?k"
      using m m2 by (auto simp: refreshing_def act_bind_def invalidate_token_def send_cost_def split: sum.splits)
    then show ?thesis using l2 by simp
  next
    case False
    then have "snd (refreshing cl m st) = st1" using m by (auto simp: refreshing_def split: sum.splits)
    then show ?thesis using order_trans [OF l1 add_left_mono [OF k]] by simp
  qed
qed

lemma exchanges_retry_call:
  "exchanges k m \<Longrightarrow>
    length (cs_log (snd (retry_call env p a m st))) \<le> length (cs_log st) + max 1 (max_attempts p - a) * k"
proof (induction env p a m st rule: retry_call.induct)
  case (1 env p a m st)
  obtain r st1 where m: "m st = (r, st1)" by fastforce
  have l1: "length (cs_log st1) \<le> length (cs_log st) + k" by (rule exchangesD [OF 1(2) m])
  have one: "k \<le> max 1 (max_attempts p - a) * k" by simp
  show ?case
  proof (cases "\<exists>err. r = Inl err \<and> \<not> (max_attempts p \<le> a + 1 \<or> \<not> is_retryable err)")
    case False
    then have "cs_log (snd (retry_call env p a m st)) = cs_log st1"
      using m by (subst retry_call.simps) (auto simp: Let_def split: sum.splits)
    then show ?thesis using order_trans [OF l1 add_left_mono [OF one]] by simp
  next
    case True
    then obtain err where err: "r = Inl err" "\<not> (max_attempts p \<le> a + 1 \<or> \<not> is_retryable err)" by blast
    define st2 where "st2 = (if has_stats p \<and> is_server_error err
                      then st1\<lparr>cs_stats := (cs_stats st1)\<lparr>rs_server_errors := rs_server_errors (cs_stats st1) + 1\<rparr>\<rparr>
                      else st1)"
    define st3 where "st3 = (if has_stats p
                            then st2\<lparr>cs_stats := (cs_stats st2)\<lparr>rs_retries := rs_retries (cs_stats st2) + 1\<rparr>\<rparr>
                            else st2)"
    let ?st = "st3\<lparr>cs_world := hx_wait env (a + 1) (cs_world st3)\<rparr>"
    have "retry_call env p a m st = retry_call env p (a + 1) m ?st"
      using m err by (subst retry_call.simps) (simp add: Let_def st2_def st3_def)
    moreover have "length (cs_log (snd (retry_call env p (a + 1) m ?st))) \<le>
        length (cs_log ?st) + max 1 (max_attempts p - (a + 1)) * k"
      by (rule 1(1) [OF m [symmetric] err(1) refl st2_def err(2) st3_def 1(2)])
    moreover have "cs_log ?st = cs_log st1" by (simp add: st2_def st3_def)
    moreover have "max 1 (max_attempts p - a) = Suc (max 1 (max_attempts p - (a + 1)))"
      using err(2) by (auto simp: max_def)
    ultimately show ?thesis using l1 by simp
  qed
qed

definition operation_cost :: "client \<Rightarrow> nat" where
  "operation_cost cl = max 1 (max_attempts (cl_retry cl)) * send_cost cl"

lemma exchanges_retried: "exchanges (send_cost cl) m \<Longrightarrow> exchanges (operation_cost cl) (retried env cl m)"
  using exchanges_retry_call [of "send_cost cl" m env "cl_retry cl" 0]
  by (simp add: exchanges_def retried_def operation_cost_def)

lemma exchanges_execute: "exchanges (operation_cost cl) (execute env cl method path body)"
  unfolding execute_def send_request_def
  by (intro exchanges_retried exchanges_refreshing exchanges_attempt_request)

section \<open>Whose success\<close>

text \<open>\<open>answered Q m\<close>: when \<open>m\<close> succeeds, its last exchange is a successful answer for which \<open>Q\<close> holds.\<close>

definition answered :: "(http_request \<Rightarrow> http_response \<Rightarrow> 'a \<Rightarrow> bool) \<Rightarrow> ('w, 'a) call \<Rightarrow> bool" where
  "answered Q m \<longleftrightarrow> (\<forall>st x st1. m st = (Inr x, st1) \<longrightarrow>
     (\<exists>before t rq rp. cs_log st1 = cs_log st @ before @ [(t, rq, Inr rp)] \<and> is_success (rp_status rp) \<and> Q rq rp x))"

definition extends :: "('w, 'a) call \<Rightarrow> bool" where
  "extends m \<longleftrightarrow> (\<forall>st. \<exists>xs. cs_log (snd (m st)) = cs_log st @ xs)"

lemma extendsD: "extends m \<Longrightarrow> m st = (r, st1) \<Longrightarrow> \<exists>xs. cs_log st1 = cs_log st @ xs"
  unfolding extends_def by (metis snd_conv)

lemma extends_basic: "extends (act_return x)" "extends (act_fail e)" "extends (act_lift r)"
  by (simp_all add: extends_def)

lemma extends_bind:
  assumes "extends m" "\<And>x. extends (f x)"
  shows "extends (act_bind m f)"
  unfolding extends_def
proof
  fix st
  obtain r st1 where m: "m st = (r, st1)" by fastforce
  obtain xs where xs: "cs_log st1 = cs_log st @ xs" using extendsD [OF assms(1) m] by blast
  show "\<exists>xs. cs_log (snd (act_bind m f st)) = cs_log st @ xs"
  proof (cases r)
    case (Inr x)
    obtain ys where "cs_log (snd (f x st1)) = cs_log st1 @ ys" using assms(2) unfolding extends_def by blast
    then show ?thesis using m Inr xs by (simp add: act_bind_def)
  qed (use m xs in \<open>simp add: act_bind_def\<close>)
qed

lemma extends_transmit: "extends (transmit env rq)"
  by (simp add: extends_def transmit_def split: prod.splits)

lemma extends_auth: "extends (apply_auth env cl)"
proof -
  have login: "extends (login env cl u p)" for u p
    unfolding login_def
    by (auto intro!: extends_bind extends_transmit extends_basic split: sum.split option.split)
  have "extends (obtain_token env cl)"
    using login unfolding extends_def obtain_token_def by (auto split: auth_config.splits)
  moreover have "extends (store_token env t)" for t by (simp add: extends_def store_token_def)
  ultimately have "extends (act_bind (obtain_token env cl) (store_token env))" by (intro extends_bind)
  then have "extends (bearer_token env cl)" unfolding extends_def bearer_token_def by (auto split: option.split)
  then show ?thesis unfolding apply_auth_def by (auto intro!: extends_bind extends_basic split: auth_config.split)
qed

lemma answered_bind:
  assumes "extends m" "\<And>x. answered Q (f x)"
  shows "answered Q (act_bind m f)"
  unfolding answered_def
proof (intro allI impI)
  fix st y st2
  assume "act_bind m f st = (Inr y, st2)"
  then obtain x st1 where s: "m st = (Inr x, st1)" "f x st1 = (Inr y, st2)"
    by (auto simp: act_bind_def split: prod.splits sum.splits)
  obtain xs where xs: "cs_log st1 = cs_log st @ xs" using extendsD [OF assms(1) s(1)] by blast
  obtain bef t rq rp where "cs_log st2 = cs_log st1 @ bef @ [(t, rq, Inr rp)]" "is_success (rp_status rp)" "Q rq rp y"
    using assms(2) s(2) unfolding answered_def by blast
  then show "\<exists>before t rq rp. cs_log st2 = cs_log st @ before @ [(t, rq, Inr rp)] \<and> is_success (rp_status rp) \<and> Q rq rp y"
    using xs by (intro exI [of _ "xs @ bef"] exI [of _ t] exI [of _ rq] exI [of _ rp]) simp
qed

lemma answered_weaken: "answered Q m \<Longrightarrow> (\<And>rq rp x. Q rq rp x \<Longrightarrow> R rq rp x) \<Longrightarrow> answered R m"
  unfolding answered_def by blast

text \<open>The request that an attempt makes, whatever its credential.\<close>

definition asks :: "http_method \<Rightarrow> string \<times> (string \<times> string) list \<Rightarrow> string option \<Rightarrow> bytes option \<Rightarrow> http_request \<Rightarrow> bool" where
  "asks method url ctype body rq \<longleftrightarrow> rq_method rq = method \<and> rq_url rq = fst url \<and> rq_query rq = snd url
     \<and> rq_content_type rq = ctype \<and> rq_body rq = body"

lemma answered_transmit:
  assumes "asks method url ctype body rq"
  shows "answered (\<lambda>rq rp x. asks method url ctype body rq \<and> x = rp_body rp)
    (act_bind (transmit env rq) (\<lambda>rp. act_lift (answer env rp)))"
  using assms
  by (auto simp: answered_def act_bind_def transmit_def answer_def split: prod.splits sum.splits if_splits)

lemma answered_attempt:
  "answered (\<lambda>rq rp x. asks method url ctype body rq \<and> x = rp_body rp)
    (act_bind (attempt_response env cl method url ctype body) (\<lambda>rp. act_lift (answer env rp)))"
  unfolding attempt_response_def act_bind_assoc
  by (intro answered_bind extends_auth answered_transmit) (simp add: asks_def)

lemma extends_attempt:
  "extends (act_bind (attempt_response env cl method url ctype body) (\<lambda>rp. act_lift (answer env rp)))"
  unfolding attempt_response_def
  by (intro extends_bind extends_auth extends_transmit extends_basic)

definition asks_path :: "'w http_env \<Rightarrow> client \<Rightarrow> http_method \<Rightarrow> string \<Rightarrow> bytes option \<Rightarrow> http_request \<Rightarrow> bool" where
  "asks_path env cl method path body rq \<longleftrightarrow> url_for env cl path = Inr (rq_url rq) \<and> rq_method rq = method
     \<and> rq_query rq = [] \<and> rq_body rq = body"

lemma answered_attempt_request:
  "answered (\<lambda>rq rp x. asks_path env cl method path body rq \<and> x = rp_body rp) (attempt_request env cl method path body)"
proof (cases "url_for env cl path")
  case (Inl e)
  then show ?thesis by (simp add: answered_def attempt_request_def act_bind_def)
next
  case (Inr url)
  have "answered (\<lambda>rq rp x. asks_path env cl method path body rq \<and> x = rp_body rp)
      (act_bind (attempt_response env cl method (url, []) (map_option (\<lambda>_. ''application/json'') body) body)
        (\<lambda>rp. act_lift (answer env rp)))"
    by (rule answered_weaken [OF answered_attempt]) (use Inr in \<open>simp add: asks_def asks_path_def\<close>)
  moreover have "attempt_request env cl method path body =
      act_bind (attempt_response env cl method (url, []) (map_option (\<lambda>_. ''application/json'') body) body)
        (\<lambda>rp. act_lift (answer env rp))"
    using Inr by (simp add: attempt_request_def act_bind_def fun_eq_iff)
  ultimately show ?thesis by simp
qed

lemma extends_attempt_request: "extends (attempt_request env cl method path body)"
  unfolding attempt_request_def by (intro extends_bind extends_attempt extends_basic)

lemma refreshing_extends: "extends m \<Longrightarrow> extends (refreshing cl m)"
  unfolding extends_def
proof
  assume m: "\<forall>st. \<exists>xs. cs_log (snd (m st)) = cs_log st @ xs"
  fix st
  obtain r st1 where s: "m st = (r, st1)" by fastforce
  obtain xs where xs: "cs_log st1 = cs_log st @ xs" using m s by (metis snd_conv)
  obtain r2 st2 where s2: "m (st1\<lparr>cs_token := None\<rparr>) = (r2, st2)" by fastforce
  obtain ys where "cs_log st2 = cs_log (st1\<lparr>cs_token := None\<rparr>) @ ys" using m s2 by (metis snd_conv)
  then have "cs_log st2 = cs_log st @ xs @ ys" using xs by simp
  then show "\<exists>xs. cs_log (snd (refreshing cl m st)) = cs_log st @ xs"
    using s s2 xs by (auto simp: refreshing_def act_bind_def invalidate_token_def split: sum.splits)
qed

lemma answered_refreshing:
  assumes "answered Q m" "extends m"
  shows "answered Q (refreshing cl m)"
  unfolding answered_def
proof (intro allI impI)
  fix st x st2
  assume run: "refreshing cl m st = (Inr x, st2)"
  obtain r st1 where s: "m st = (r, st1)" by fastforce
  obtain xs where xs: "cs_log st1 = cs_log st @ xs" using extendsD [OF assms(2) s] by blast
  show "\<exists>before t rq rp. cs_log st2 = cs_log st @ before @ [(t, rq, Inr rp)] \<and> is_success (rp_status rp) \<and> Q rq rp x"
  proof (cases r)
    case (Inr y)
    then have "m st = (Inr x, st2)" using run s by (simp add: refreshing_def)
    then show ?thesis using assms(1) unfolding answered_def by blast
  next
    case (Inl err)
    then have "m (st1\<lparr>cs_token := None\<rparr>) = (Inr x, st2)"
      using run s by (auto simp: refreshing_def act_bind_def invalidate_token_def split: if_splits prod.splits sum.splits)
    then obtain bef t rq rp where "cs_log st2 = cs_log (st1\<lparr>cs_token := None\<rparr>) @ bef @ [(t, rq, Inr rp)]"
      "is_success (rp_status rp)" "Q rq rp x"
      using assms(1) unfolding answered_def by blast
    then show ?thesis using xs by (intro exI [of _ "xs @ bef"] exI [of _ t] exI [of _ rq] exI [of _ rp]) simp
  qed
qed

text \<open>One round of the retry loop: it stops, or goes on from a state with the same log and token.\<close>

lemma retry_call_cases:
  assumes "m st = (r, st1)"
  obtains (over) "\<exists>st2. retry_call env p a m st = (r, st2) \<and> cs_log st2 = cs_log st1 \<and> cs_token st2 = cs_token st1"
  | (again) err st3 where "r = Inl err" "is_retryable err" "a + 1 < max_attempts p"
      "retry_call env p a m st = retry_call env p (a + 1) m st3" "cs_log st3 = cs_log st1" "cs_token st3 = cs_token st1"
proof (cases "\<exists>err. r = Inl err \<and> \<not> (max_attempts p \<le> a + 1 \<or> \<not> is_retryable err)")
  case False
  have "\<exists>st2. retry_call env p a m st = (r, st2) \<and> cs_log st2 = cs_log st1 \<and> cs_token st2 = cs_token st1"
    using assms False by (subst retry_call.simps) (auto simp: Let_def split: sum.splits)
  then show ?thesis by (rule over)
next
  case True
  then obtain err where err: "r = Inl err" "\<not> (max_attempts p \<le> a + 1 \<or> \<not> is_retryable err)" by blast
  define st2 where "st2 = (if has_stats p \<and> is_server_error err
                    then st1\<lparr>cs_stats := (cs_stats st1)\<lparr>rs_server_errors := rs_server_errors (cs_stats st1) + 1\<rparr>\<rparr>
                    else st1)"
  define st3 where "st3 = (if has_stats p
                          then st2\<lparr>cs_stats := (cs_stats st2)\<lparr>rs_retries := rs_retries (cs_stats st2) + 1\<rparr>\<rparr>
                          else st2)"
  have "retry_call env p a m st = retry_call env p (a + 1) m (st3\<lparr>cs_world := hx_wait env (a + 1) (cs_world st3)\<rparr>)"
    using assms err by (subst retry_call.simps) (simp add: Let_def st2_def st3_def)
  then show ?thesis by (rule again [OF err(1), rotated 2]) (use err(2) in \<open>simp_all add: st2_def st3_def\<close>)
qed

lemma retry_call_log: "extends m \<Longrightarrow> \<exists>xs. cs_log (snd (retry_call env p a m st)) = cs_log st @ xs"
proof (induction "max_attempts p - a" arbitrary: a st rule: less_induct)
  case less
  obtain r st1 where m: "m st = (r, st1)" by fastforce
  obtain xs where xs: "cs_log st1 = cs_log st @ xs" using extendsD [OF less(2) m] by blast
  from m show ?case
  proof (cases rule: retry_call_cases [where env = env and p = p and a = a])
    case over
    then show ?thesis using xs by auto
  next
    case (again err st3)
    have "\<exists>ys. cs_log (snd (retry_call env p (a + 1) m st3)) = cs_log st3 @ ys"
      by (rule less(1) [OF _ less(2)]) (use again(3) in simp)
    then show ?thesis using again(4,5) xs by auto
  qed
qed

lemma retried_extends: "extends m \<Longrightarrow> extends (retried env cl m)"
  unfolding retried_def extends_def [of "retry_call env (cl_retry cl) 0 m"] by (auto intro: retry_call_log)

lemma answered_retry_call:
  "answered Q m \<Longrightarrow> extends m \<Longrightarrow> retry_call env p a m st = (Inr x, st2) \<Longrightarrow>
    \<exists>bef t rq rp. cs_log st2 = cs_log st @ bef @ [(t, rq, Inr rp)] \<and> is_success (rp_status rp) \<and> Q rq rp x"
proof (induction "max_attempts p - a" arbitrary: a st rule: less_induct)
  case less
  obtain r st1 where m: "m st = (r, st1)" by fastforce
  obtain xs where xs: "cs_log st1 = cs_log st @ xs" using extendsD [OF less(3) m] by blast
  from m show ?case
  proof (cases rule: retry_call_cases [where env = env and p = p and a = a])
    case over
    then have "m st = (Inr x, st1)" "cs_log st2 = cs_log st1" using m less(4) by auto
    then show ?thesis using less(2) unfolding answered_def by metis
  next
    case (again err st3)
    have "\<exists>bef t rq rp. cs_log st2 = cs_log st3 @ bef @ [(t, rq, Inr rp)] \<and> is_success (rp_status rp) \<and> Q rq rp x"
      by (rule less(1) [OF _ less(2,3)]) (use again(3,4) less(4) in simp_all)
    then show ?thesis using again(5) xs by auto
  qed
qed

lemma answered_retried: "answered Q m \<Longrightarrow> extends m \<Longrightarrow> answered Q (retried env cl m)"
  unfolding retried_def answered_def [of Q "retry_call env (cl_retry cl) 0 m"]  by (intro allI impI) (rule answered_retry_call)

lemma extends_execute: "extends (execute env cl method path body)"
  unfolding execute_def send_request_def
  by (intro retried_extends refreshing_extends extends_attempt_request)

lemma answered_execute:
  "answered (\<lambda>rq rp x. asks_path env cl method path body rq \<and> x = rp_body rp) (execute env cl method path body)"
  unfolding execute_def send_request_def
  by (intro answered_retried answered_refreshing refreshing_extends answered_attempt_request extends_attempt_request)

lemma answered_send_body:
  "answered (\<lambda>rq rp x. asks method url (Some ctype) (Some body) rq \<and> x = rp_body rp)
    (send_body env cl method url ctype body)"
  "extends (send_body env cl method url ctype body)"
  unfolding send_body_def attempt_body_def
  by (intro answered_refreshing answered_attempt extends_attempt refreshing_extends)+

section \<open>Whose refusal\<close>

text \<open>
  \<open>refused R m\<close>: when \<open>m\<close> fails with a status, its last exchange asked for \<open>R\<close> and was answered
  with this status.
\<close>

definition refused :: "(http_request \<Rightarrow> bool) \<Rightarrow> ('w, 'a) call \<Rightarrow> bool" where
  "refused R m \<longleftrightarrow> (\<forall>st s msg ctx st1. m st = (Inl (Http s msg ctx), st1) \<longrightarrow>
     (\<exists>before t rq rp. cs_log st1 = cs_log st @ before @ [(t, rq, Inr rp)] \<and> rp_status rp = s \<and> R rq))"

definition no_status :: "('w, 'a) call \<Rightarrow> bool" where
  "no_status m \<longleftrightarrow> (\<forall>st s msg ctx st1. m st \<noteq> (Inl (Http s msg ctx), st1))"

lemma refused_bind:
  assumes "extends m" "no_status m" "\<And>x. refused R (f x)"
  shows "refused R (act_bind m f)"
  unfolding refused_def
proof (intro allI impI)
  fix st s msg ctx st2
  assume "act_bind m f st = (Inl (Http s msg ctx), st2)"
  then obtain x st1 where s: "m st = (Inr x, st1)" "f x st1 = (Inl (Http s msg ctx), st2)"
    using assms(2) by (auto simp: act_bind_Inl no_status_def)
  obtain xs where xs: "cs_log st1 = cs_log st @ xs" using extendsD [OF assms(1) s(1)] by blast
  obtain bef t rq rp where "cs_log st2 = cs_log st1 @ bef @ [(t, rq, Inr rp)]" "rp_status rp = s" "R rq"
    using assms(3) s(2) unfolding refused_def by blast
  then show "\<exists>before t rq rp. cs_log st2 = cs_log st @ before @ [(t, rq, Inr rp)] \<and> rp_status rp = s \<and> R rq"
    using xs by (intro exI [of _ "xs @ bef"] exI [of _ t] exI [of _ rq] exI [of _ rp]) simp
qed

lemma bearer_token_cases:
  assumes "bearer_token env cl st = (r, st1)"
  obtains (cached) token e where "cs_token st = Some (token, e)"
      "\<not> is_expiring (hx_now env (cs_world st)) e" "r = Inr token" "st1 = st"
    | (fresh) "act_bind (obtain_token env cl) (store_token env) st = (r, st1)"
proof (cases "\<exists>token e. cs_token st = Some (token, e) \<and> \<not> is_expiring (hx_now env (cs_world st)) e")
  case True
  then obtain token e where c: "cs_token st = Some (token, e)" "\<not> is_expiring (hx_now env (cs_world st)) e" by blast
  then have "bearer_token env cl st = (Inr token, st)" by (simp add: bearer_token_def)
  then show ?thesis using cached [OF c] assms by simp
next
  case False
  then have "bearer_token env cl st = act_bind (obtain_token env cl) (store_token env) st"
    unfolding bearer_token_def by (auto split: option.split)
  then show ?thesis using fresh assms by simp
qed

lemma no_status_auth:
  assumes "\<And>u p. cl_auth cl \<noteq> AuthJwtLogin u p"
  shows "no_status (apply_auth env cl)"
proof -
  have o: "no_status (obtain_token env cl)"
    using assms by (auto simp: no_status_def obtain_token_def mint_superuser_jwt_def sign_hs256_def Let_def
        split: auth_config.splits sum.splits)
  have "no_status (bearer_token env cl)"
    unfolding no_status_def
  proof (intro allI notI)
    fix st s msg ctx st1
    assume "bearer_token env cl st = (Inl (Http s msg ctx), st1)"
    then show False using o
      by (cases rule: bearer_token_cases) (auto simp: act_bind_Inl store_token_def no_status_def)
  qed
  then show ?thesis
    by (auto simp: apply_auth_def no_status_def act_bind_Inl split: auth_config.splits)
qed

lemma refused_transmit:
  "refused (\<lambda>q. q = rq) (act_bind (transmit env rq) (\<lambda>rp. act_lift (answer env rp)))"
proof -
  have e: "\<not> (map_reqwest_error f = Http s msg ctx)" for f s msg ctx by (cases f) auto
  show ?thesis
    by (auto simp: refused_def act_bind_def transmit_def answer_def http_error_def e
        split: prod.splits sum.splits if_splits option.splits)
qed

lemma refused_weaken: "refused R m \<Longrightarrow> (\<And>rq. R rq \<Longrightarrow> Q rq) \<Longrightarrow> refused Q m"
  unfolding refused_def by blast

lemma refused_attempt_request:
  assumes "\<And>u p. cl_auth cl \<noteq> AuthJwtLogin u p"
  shows "refused (asks_path env cl method path body) (attempt_request env cl method path body)"
  unfolding attempt_request_def
proof (cases "url_for env cl path")
  case (Inl e)
  then have "e \<noteq> Http s msg ctx" for s msg ctx by (auto simp: url_for_def Let_def split: sum.splits)
  then show "refused (asks_path env cl method path body) (act_bind (act_lift (url_for env cl path))
      (\<lambda>url. act_bind (attempt_response env cl method (url, []) (map_option (\<lambda>_. ''application/json'') body) body)
        (\<lambda>rp. act_lift (answer env rp))))"
    by (simp add: refused_def act_bind_def Inl)
next
  case (Inr url)
  have "refused (asks_path env cl method path body)
      (act_bind (attempt_response env cl method (url, []) (map_option (\<lambda>_. ''application/json'') body) body)
        (\<lambda>rp. act_lift (answer env rp)))"
    unfolding attempt_response_def act_bind_assoc
    by (intro refused_bind extends_auth no_status_auth assms refused_weaken [OF refused_transmit])
      (simp add: asks_path_def Inr)
  then show "refused (asks_path env cl method path body) (act_bind (act_lift (url_for env cl path))
      (\<lambda>url. act_bind (attempt_response env cl method (url, []) (map_option (\<lambda>_. ''application/json'') body) body)
        (\<lambda>rp. act_lift (answer env rp))))"
    by (simp add: refused_def act_bind_def [of "act_lift _"] Inr)
qed

lemma explain_status: "explain_auth_failure cl err = Http s msg ctx \<Longrightarrow> \<exists>msg1 ctx1. err = Http s msg1 ctx1"
  by (cases err) (auto split: if_splits)

lemma refused_refreshing:
  assumes "refused R m" "extends m"
  shows "refused R (refreshing cl m)"
  unfolding refused_def
proof (intro allI impI)
  fix st s msg ctx st2
  assume run: "refreshing cl m st = (Inl (Http s msg ctx), st2)"
  obtain r st1 where m: "m st = (r, st1)" by fastforce
  obtain xs where xs: "cs_log st1 = cs_log st @ xs" using extendsD [OF assms(2) m] by blast
  show "\<exists>before t rq rp. cs_log st2 = cs_log st @ before @ [(t, rq, Inr rp)] \<and> rp_status rp = s \<and> R rq"
  proof (cases "\<exists>err. r = Inl err \<and> is_unauthorized err \<and> can_refresh_token cl")
    case False
    then have "m st = (Inl (Http s msg ctx), st2)" using run m by (auto simp: refreshing_def split: sum.splits)
    then show ?thesis using assms(1) unfolding refused_def by blast
  next
    case True
    then obtain err where "m (st1\<lparr>cs_token := None\<rparr>) = (Inl err, st2)" "explain_auth_failure cl err = Http s msg ctx"
      using run m by (auto simp: refreshing_def act_bind_def invalidate_token_def split: prod.splits sum.splits)
    then obtain bef t rq rp where "cs_log st2 = cs_log (st1\<lparr>cs_token := None\<rparr>) @ bef @ [(t, rq, Inr rp)]"
      "rp_status rp = s" "R rq"
      using explain_status assms(1) unfolding refused_def by metis
    then show ?thesis using xs by (intro exI [of _ "xs @ bef"] exI [of _ t] exI [of _ rq] exI [of _ rp]) simp
  qed
qed

lemma refused_retry_call:
  "refused R m \<Longrightarrow> extends m \<Longrightarrow> retry_call env p a m st = (Inl (Http s msg ctx), st2) \<Longrightarrow>
    \<exists>bef t rq rp. cs_log st2 = cs_log st @ bef @ [(t, rq, Inr rp)] \<and> rp_status rp = s \<and> R rq"
proof (induction "max_attempts p - a" arbitrary: a st rule: less_induct)
  case less
  obtain r st1 where m: "m st = (r, st1)" by fastforce
  obtain xs where xs: "cs_log st1 = cs_log st @ xs" using extendsD [OF less(3) m] by blast
  from m show ?case
  proof (cases rule: retry_call_cases [where env = env and p = p and a = a])
    case over
    then have "m st = (Inl (Http s msg ctx), st1)" "cs_log st2 = cs_log st1" using m less(4) by auto
    then show ?thesis using less(2) unfolding refused_def by metis
  next
    case (again err st3)
    have "\<exists>bef t rq rp. cs_log st2 = cs_log st3 @ bef @ [(t, rq, Inr rp)] \<and> rp_status rp = s \<and> R rq"
      by (rule less(1) [OF _ less(2,3)]) (use again(3,4) less(4) in simp_all)
    then show ?thesis using again(5) xs by auto
  qed
qed

lemma refused_execute:
  assumes "\<And>u p. cl_auth cl \<noteq> AuthJwtLogin u p"
  shows "refused (asks_path env cl method path body) (execute env cl method path body)"
  unfolding execute_def send_request_def retried_def refused_def
  by (intro allI impI refused_retry_call [where m = "refreshing cl (attempt_request env cl method path body)"]
      refused_refreshing refused_attempt_request refreshing_extends extends_attempt_request assms)

section \<open>A small server\<close>

text \<open>Base64 with a dot kept out by an escape; JSON text of the claims as the number of their second.\<close>

fun tiny_escape :: "bytes \<Rightarrow> string" where
  "tiny_escape [] = []"
| "tiny_escape (c # cs) =
     (if c = CHR ''.'' then CHR ''~'' # CHR ''a'' # tiny_escape cs
      else if c = CHR ''~'' then CHR ''~'' # CHR ''b'' # tiny_escape cs
      else c # tiny_escape cs)"

fun tiny_unescape :: "string \<Rightarrow> bytes" where
  "tiny_unescape [] = []"
| "tiny_unescape [c] = [c]"
| "tiny_unescape (c # d # s) =
     (if c = CHR ''~'' then (if d = CHR ''a'' then CHR ''.'' else CHR ''~'') # tiny_unescape s
      else c # tiny_unescape (d # s))"

lemma tiny_unescape_escape [simp]: "tiny_unescape (tiny_escape b) = b"
proof (induction b)
  case (Cons c b)
  have "c \<noteq> CHR ''~'' \<Longrightarrow> tiny_unescape (c # s) = c # tiny_unescape s" for s by (cases s) auto
  then show ?case using Cons.IH by simp
qed simp

lemma tiny_escape_no_dot [simp]: "CHR ''.'' \<notin> set (tiny_escape b)"
  by (induction b) auto

definition tiny_answer :: json where
  "tiny_answer = json_object [(''name'', JString ''c''), (''type'', JInt 2), (''role'', JString ''COORDINATOR'')]"

definition tiny_http :: "nat http_env" where
  "tiny_http = \<lparr>hx_send = (\<lambda>rq w. (Inr \<lparr>rp_status = 200, rp_headers = [], rp_body = ''{}''\<rparr>, w + 1)),
     hx_now = (\<lambda>w. min w 4000000000), hx_wait = (\<lambda>n w. w + 100),
     hx_join = (\<lambda>base path. Inr (base @ path)), hx_parse_url = (\<lambda>s. Inr s),
     hx_encode = (\<lambda>j. case jget j ''iat'' of Some (JInt i) \<Rightarrow> dec (nat i) | _ \<Rightarrow> ''{}''),
     hx_decode = (\<lambda>b. Inr (if b \<noteq> [] \<and> list_all is_digit b then token_claims (undec b) else tiny_answer)),
     hx_base64 = tiny_escape, hx_unbase64 = (\<lambda>s. Some (tiny_unescape s)),
     hx_hmac = (\<lambda>k b. Inr k), hx_lossy = (\<lambda>b. []), hx_status_text = dec\<rparr>"

definition tiny_http_client :: client where
  "tiny_http_client = \<lparr>cl_base = ''http://h'', cl_config = connection_default\<lparr>cn_auth := AuthJwtSecret ''s''\<rparr>,
     cl_retry = retry_policy_default\<rparr>"

lemmas tiny_defs = execute_def retried_def retry_call.simps send_request_def refreshing_def attempt_request_def
  attempt_response_def apply_auth_def bearer_token_def obtain_token_def act_bind_def client_start_def url_for_def
  Let_def tiny_http_client_def cl_auth_def connection_default_def tiny_http_def store_token_def
  transmit_def answer_def is_success_def with_database_def

lemma tiny_ensure:
  "fst (ensure_collection tiny_http (tiny_http_client\<lparr>cl_config := connection_default\<rparr>) ''c'' DocumentKind (client_start 1000)) = Inr ()"
  by (simp add: ensure_collection_def collection_info_def tiny_defs
      jget_json_object from_json_def tiny_answer_def collection_info_of_value_def req_field_def as_u8_def info_kind_def is_digit_def res_simps)

section \<open>Properties of a request\<close>

text \<open>
  A request costs a bounded number of exchanges, whatever the server does: at most the attempts
  of the retry policy, each at most twice when the token can be refreshed after a 401, each time
  with at most one login before it.  So a server that refuses every request cannot keep the client
  busy, and a password goes out at most so often.
\<close>

theorem request_exchanges_bounded:
  "length (cs_log (snd (execute env cl method path body st)))
     \<le> length (cs_log st) + max 1 (max_attempts (cl_retry cl))
          * (if can_refresh_token cl then 2 else 1) * (case cl_auth cl of AuthJwtLogin _ _ \<Rightarrow> 2 | _ \<Rightarrow> 1)"
proof -
  have "login_cost cl + 1 = (case cl_auth cl of AuthJwtLogin _ _ \<Rightarrow> 2 | _ \<Rightarrow> 1)"
    by (simp add: login_cost_def split: auth_config.split)
  then have "operation_cost cl = max 1 (max_attempts (cl_retry cl)) * (if can_refresh_token cl then 2 else 1)
      * (case cl_auth cl of AuthJwtLogin _ _ \<Rightarrow> 2 | _ \<Rightarrow> 1)"
    by (simp add: operation_cost_def send_cost_def)
  then show ?thesis using exchanges_execute [of cl env _ path body] by (simp add: exchanges_def)
qed

text \<open>What is said of a collection by the last exchange of a log.\<close>

definition server_says :: "'w http_env \<Rightarrow> client \<Rightarrow> string \<Rightarrow> collection_kind \<Rightarrow> exchange \<Rightarrow> bool" where
  "server_says env cl name kind e =
     (case e of
        (t, rq, Inr rp) \<Rightarrow> is_success (rp_status rp)
          \<and> ((asks_path env cl GET (''/_api/collection/'' @ name) None rq
                \<and> (\<exists>i. from_json (hx_decode env) collection_info_of_value (rp_body rp) = Inr i \<and> info_kind i = Some kind))
             \<or> asks_path env cl POST ''/_api/collection'' (Some (hx_encode env (create_collection_body name kind))) rq)
      | (t, rq, Inl f) \<Rightarrow> False)"

text \<open>
  C16: \<open>ensure_collection\<close> never claims what the server did not say: when it reports success, the
  last thing the server did was to describe the collection with the kind asked for, or to accept
  the request that creates it with that name and kind.  In particular a collection of the other
  kind, and one of an unknown kind, is never taken for the one asked for.
\<close>

theorem ensure_collection_truthful:
  assumes "ensure_collection env cl name kind st = (Inr (), st1)"
  shows "\<exists>earlier e. cs_log st1 = cs_log st @ earlier @ [e] \<and> server_says env cl name kind e"
proof -
  obtain found sti where info: "collection_info env cl name st = (Inr found, sti)"
    and rest: "(case found of
         Some info \<Rightarrow>
           (case info_kind info of
              Some existing \<Rightarrow>
                if existing = kind then act_return ()
                else act_fail (Config (''collection '' @ quoted name @ '' already exists as '' @ kind_debug existing
                  @ '', but '' @ kind_debug kind @ '' was requested''))
            | None \<Rightarrow> act_fail (Config (''collection '' @ quoted name @ '' already exists with an unsupported type'')))
       | None \<Rightarrow> make_collection env cl name kind) sti = (Inr (), st1)"
    using assms by (auto simp: ensure_collection_def act_bind_def split: prod.splits sum.splits)
  obtain r ste where ex: "execute env cl GET (''/_api/collection/'' @ name) None st = (r, ste)" by fastforce
  have sti: "sti = ste" using info ex by (auto simp: collection_info_def split: sum.splits error.splits)
  show ?thesis
  proof (cases found)
    case None
    then have "make_collection env cl name kind sti = (Inr (), st1)" using rest by simp
    then obtain b where "execute env cl POST ''/_api/collection''
        (Some (hx_encode env (create_collection_body name kind))) sti = (Inr b, st1)"
      by (auto simp: make_collection_def done_by_def act_bind_def split: prod.splits sum.splits)
    then obtain bef t rq rp where e: "cs_log st1 = cs_log sti @ bef @ [(t, rq, Inr rp)]" "is_success (rp_status rp)"
      "asks_path env cl POST ''/_api/collection'' (Some (hx_encode env (create_collection_body name kind))) rq"
      using answered_execute unfolding answered_def by blast
    obtain xs where "cs_log sti = cs_log st @ xs" using extendsD [OF extends_execute ex] sti by blast
    then show ?thesis using e
      by (intro exI [of _ "xs @ bef"] exI [of _ "(t, rq, Inr rp)"]) (simp add: server_says_def)
  next
    case (Some i)
    then have same: "info_kind i = Some kind" "st1 = sti"
      using rest by (auto split: option.splits if_splits)
    obtain b where b: "execute env cl GET (''/_api/collection/'' @ name) None st = (Inr b, st1)"
      "from_json (hx_decode env) collection_info_of_value b = Inr i"
      using info ex sti Some same(2)
      by (auto simp: collection_info_def res_simps split: sum.splits error.splits if_splits)
    then obtain bef t rq rp where "cs_log st1 = cs_log st @ bef @ [(t, rq, Inr rp)]" "is_success (rp_status rp)"
      "asks_path env cl GET (''/_api/collection/'' @ name) None rq" "b = rp_body rp"
      using answered_execute unfolding answered_def by blast
    then show ?thesis using b(2) same(1)
      by (intro exI [of _ bef] exI [of _ "(t, rq, Inr rp)"]) (auto simp: server_says_def)
  qed
qed


lemma ensure_collection_truthful_witness:
  "\<exists>(st :: nat client_state) earlier e. cs_log st = earlier @ [e]
    \<and> server_says tiny_http (tiny_http_client\<lparr>cl_config := connection_default\<rparr>) ''c'' DocumentKind e"
proof -
  let ?cl = "tiny_http_client\<lparr>cl_config := connection_default\<rparr>"
  obtain st1 where run: "ensure_collection tiny_http ?cl ''c'' DocumentKind (client_start 1000) = (Inr (), st1)"
    using tiny_ensure by (metis prod.collapse)
  show ?thesis
    by (rule exI [of _ st1]) (use ensure_collection_truthful [OF run] in \<open>simp add: client_start_def\<close>)
qed

text \<open>
  A drop that reports success was done or was not needed: unless the client has to log in
  first, the last exchange of a drop that succeeds is the deletion asked for, and the server
  answered it with a success or with 404.  This holds for graphs, views, cursors and replication
  batches, all of which are dropped this way.
\<close>

theorem gone_is_gone:
  assumes "gone_by env cl path st = (Inr (), st1)" "\<And>u p. cl_auth cl \<noteq> AuthJwtLogin u p"
  shows "\<exists>earlier t rq rp. cs_log st1 = cs_log st @ earlier @ [(t, rq, Inr rp)]
    \<and> asks_path env cl DELETE path None rq \<and> (is_success (rp_status rp) \<or> rp_status rp = 404)"
proof -
  obtain r st2 where ex: "execute env cl DELETE path None st = (r, st2)" by fastforce
  have st: "st2 = st1" using assms(1) ex by (auto simp: gone_by_def split: sum.splits error.splits)
  show ?thesis
  proof (cases r)
    case (Inr b)
    then show ?thesis
      using answered_execute [of env cl DELETE path None] ex st unfolding answered_def by blast
  next
    case (Inl err)
    then obtain msg ctx where "err = Http 404 msg ctx"
      using assms(1) ex by (auto simp: gone_by_def split: error.splits if_splits)
    then show ?thesis
      using refused_execute [of cl env DELETE path None, OF assms(2)] ex st Inl unfolding refused_def by blast
  qed
qed


lemma gone_is_gone_witness:
  "\<exists>(st :: nat client_state) earlier t rq rp. cs_log st = earlier @ [(t, rq, Inr rp)]
    \<and> asks_path tiny_http tiny_http_client DELETE ''/_api/view/v'' None rq
    \<and> (is_success (rp_status rp) \<or> rp_status rp = 404)"
proof -
  have "fst (gone_by tiny_http tiny_http_client ''/_api/view/v'' (client_start 1000)) = Inr ()"
    by (simp add: gone_by_def tiny_defs mint_superuser_jwt_def sign_hs256_def)
  then obtain st1 where run: "gone_by tiny_http tiny_http_client ''/_api/view/v'' (client_start 1000) = (Inr (), st1)"
    by (metis prod.collapse)
  have "cl_auth tiny_http_client \<noteq> AuthJwtLogin u p" for u p by (simp add: tiny_http_client_def cl_auth_def)
  then show ?thesis
    by (intro exI [of _ st1]) (use gone_is_gone [OF run] in \<open>simp add: client_start_def\<close>)
qed

text \<open>
  Without the hypothesis it fails: a 404 of the login passes for the absence of the object.  Here
  the drop of a view reports success, and the deletion was never sent.
\<close>

lemma drop_view_never_sent:
  "\<exists>st1. drop_view (tiny_http\<lparr>hx_send := \<lambda>rq w. (Inr \<lparr>rp_status = 404, rp_headers = [], rp_body = ''{}''\<rparr>, w + 1)\<rparr>)
      (tiny_http_client\<lparr>cl_config := connection_default\<lparr>cn_auth := AuthJwtLogin ''u'' ''p''\<rparr>\<rparr>) ''v'' (client_start 1000)
    = (Inr (), st1) \<and> map (\<lambda>(t, rq, r). rq_method rq) (cs_log st1) = [POST]"
  by (simp add: drop_view_def gone_by_def tiny_defs login_def can_refresh_token_def)

end
