(* ===== verification/ClientSession.thy ===== *)
theory ClientSession
  imports ClientLaws
begin

text \<open>
  Sessions: any sequence of the client's operations, each on a database of its own, as the commands
  run them through \<open>with_database\<close>.  \<open>op_requests\<close> lists the requests an operation may send.  The
  locale \<open>client_invariant\<close> says what a predicate of the client's state has to satisfy to hold along
  every session; its interpretations are about the tokens, the requests and the credentials.
\<close>

section \<open>What every operation keeps\<close>

lemma sibling_simps [simp]:
  "cl_base (with_database db cl) = cl_base cl" "cl_auth (with_database db cl) = cl_auth cl"
  "cl_retry (with_database db cl) = cl_retry cl"
  by (simp_all add: with_database_def cl_auth_def)

lemma sibling_same: "with_database (cn_database (cl_config cl)) cl = cl"
  by (simp add: with_database_def)

lemma attempt_sibling [simp]:
  "attempt_response env (with_database db cl) m url ct b = attempt_response env cl m url ct b"
proof -
  have "obtain_token env (with_database db cl) = obtain_token env cl"
    by (simp add: fun_eq_iff obtain_token_def login_def split: auth_config.split)
  then have "bearer_token env (with_database db cl) = bearer_token env cl"
    by (intro ext) (simp add: bearer_token_def split: option.split)
  then show ?thesis by (simp add: attempt_response_def apply_auth_def split: auth_config.split)
qed

text \<open>
  A predicate that looks at the log and the token only and survives the loss of the token passes
  through the refresh and the retry loop.
\<close>

locale client_frame =
  fixes env :: "'w http_env" and I :: "'w client_state \<Rightarrow> bool"
  assumes frame: "I st \<Longrightarrow> cs_log st1 = cs_log st \<Longrightarrow> cs_token st1 = cs_token st \<or> cs_token st1 = None \<Longrightarrow> I st1"

context client_frame
begin

lemma keeps_refreshing [act_intros]:
  assumes "act_keeps I m"
  shows "act_keeps I (refreshing c m)"
  unfolding act_keeps_def
proof (intro allI impI)
  fix st r st2
  assume st: "I st" "refreshing c m st = (r, st2)"
  obtain r0 st1 where m: "m st = (r0, st1)" by fastforce
  have I1: "I st1" by (rule act_keepsD [OF assms st(1) m])
  then have "I (st1\<lparr>cs_token := None\<rparr>)" by (rule frame) simp_all
  then have "m (st1\<lparr>cs_token := None\<rparr>) = (r', st') \<Longrightarrow> I st'" for r' st' by (rule act_keepsD [OF assms])
  then show "I st2" using st(2) m I1
    by (auto simp: refreshing_def act_bind_def invalidate_token_def split: sum.splits if_splits prod.splits)
qed

lemma keeps_sndI: "(\<And>st. I st \<Longrightarrow> I (snd (m st))) \<Longrightarrow> act_keeps I m"
  unfolding act_keeps_def by (metis snd_conv)

lemma keeps_retry_call:
  assumes "act_keeps I m" "I st"
  shows "I (snd (retry_call env p a m st))"
  using assms(2)
proof (induction "max_attempts p - a" arbitrary: a st rule: less_induct)
  case less
  obtain r st1 where m: "m st = (r, st1)" by fastforce
  have I1: "I st1" by (rule act_keepsD [OF assms(1) less(2) m])
  from m show ?case
  proof (cases rule: retry_call_cases [where env = env and p = p and a = a])
    case over
    then show ?thesis using frame [OF I1] by auto
  next
    case (again err st3)
    have "I (snd (retry_call env p (a + 1) m st3))"
      by (rule less(1)) (use again(3,5,6) frame [OF I1] in auto)
    then show ?thesis using again(4) by simp
  qed
qed

lemma keeps_retried [act_intros]: "act_keeps I m \<Longrightarrow> act_keeps I (retried env c m)"
  unfolding retried_def by (rule keeps_sndI) (rule keeps_retry_call)

lemma keeps_lift_bind:
  "(\<And>x. r = Inr x \<Longrightarrow> act_keeps I (f x)) \<Longrightarrow> act_keeps I (act_bind (act_lift r) f)"
  by (cases r) (auto simp: act_keeps_def act_bind_def)

end

section \<open>Sessions\<close>

datatype client_op =
    ListDatabases | ServerVersion | ServerRole
  | CreateDatabase string | DropDatabase string
  | ImportDocuments import_options bytes
  | CursorOpen cursor_request | CursorNext string | CursorDelete string
  | BatchCreate nat | BatchExtend string nat | BatchDelete string
  | GetInventory string bool | GetChunk string string "64 word" nat
  | RestoreStructure json "json list" bool | RestoreDocuments string bytes
  | GetCollection string | CountCollection string | CreateIndex string json
  | CreateGraph json | DropGraph string bool
  | CreateView json | DropView string
  | DropCollection string | CreateCollection string collection_kind | EnsureCollection string collection_kind

text \<open>
  The requests an operation may send, as the HTTP interface of the server has them: the verb, the
  path, the query, the content type and the body.  They are made of the database, the arguments of
  the operation and the JSON text of its body; the settings of the client, and so its credentials,
  have no part in them.
\<close>

type_synonym request_shape = "http_method \<times> string \<times> (string \<times> string) list \<times> string option \<times> bytes option"

abbreviation bare :: "http_method \<Rightarrow> string \<Rightarrow> request_shape" where
  "bare m path \<equiv> (m, path, [], None, None)"

abbreviation with_json :: "http_method \<Rightarrow> string \<Rightarrow> (string \<times> string) list \<Rightarrow> bytes \<Rightarrow> request_shape" where
  "with_json m path q b \<equiv> (m, path, q, Some ''application/json'', Some b)"

definition scoped :: "string \<Rightarrow> string \<Rightarrow> string" where
  "scoped db path = ''/_db/'' @ db @ path"

fun op_requests :: "'w http_env \<Rightarrow> string \<Rightarrow> client_op \<Rightarrow> request_shape list" where
  "op_requests env db ListDatabases = [bare GET ''/_db/_system/_api/database'']"
| "op_requests env db ServerVersion = [bare GET (scoped db ''/_api/version'')]"
| "op_requests env db ServerRole = [bare GET ''/_admin/server/role'']"
| "op_requests env db (CreateDatabase n) = [with_json POST ''/_db/_system/_api/database'' []
     (hx_encode env (json_object [(''name'', JString n)]))]"
| "op_requests env db (DropDatabase n) = [bare DELETE (''/_db/_system/_api/database/'' @ n)]"
| "op_requests env db (ImportDocuments opts b) =
     [(POST, scoped db ''/_api/import'', import_query opts, Some ''application/x-ndjson'', Some b)]"
| "op_requests env db (CursorOpen q) =
     [with_json POST (scoped db ''/_api/cursor'') [] (hx_encode env (cursor_request_to_value q))]"
| "op_requests env db (CursorNext i) = [bare PUT (scoped db (''/_api/cursor/'' @ i))]"
| "op_requests env db (CursorDelete i) = [bare DELETE (scoped db (''/_api/cursor/'' @ i))]"
| "op_requests env db (BatchCreate ttl) =
     [with_json POST (scoped db ''/_api/replication/batch'') [] (ttl_body env ttl)]"
| "op_requests env db (BatchExtend i ttl) =
     [with_json PUT (scoped db (''/_api/replication/batch/'' @ i)) [] (ttl_body env ttl)]"
| "op_requests env db (BatchDelete i) = [bare DELETE (scoped db (''/_api/replication/batch/'' @ i))]"
| "op_requests env db (GetInventory i sys) = [bare GET (scoped db
     (''/_api/replication/inventory?batchId='' @ i @ ''&includeSystem='' @ bool_text sys))]"
| "op_requests env db (GetChunk c i lo n) = [(GET, scoped db ''/_api/replication/dump'',
     [(''collection'', c), (''batchId'', i), (''from'', dec (unat lo)), (''chunkSize'', dec n)], None, None)]"
| "op_requests env db (RestoreStructure ps is ow) =
     [with_json PUT (scoped db (''/_api/replication/restore-collection?overwrite='' @ bool_text ow)) []
        (hx_encode env (json_object [(''parameters'', ps), (''indexes'', JArray is)]))]"
| "op_requests env db (RestoreDocuments c b) =
     [with_json PUT (scoped db ''/_api/replication/restore-data'') [(''collection'', c)] b]"
| "op_requests env db (GetCollection n) = [bare GET (scoped db (''/_api/collection/'' @ n))]"
| "op_requests env db (CountCollection n) = [bare GET (scoped db (''/_api/collection/'' @ n @ ''/count''))]"
| "op_requests env db (CreateIndex c d) =
     [with_json POST (scoped db ''/_api/index'') [(''collection'', c)] (hx_encode env d)]"
| "op_requests env db (CreateGraph d) = [with_json POST (scoped db ''/_api/gharial'') [] (hx_encode env d)]"
| "op_requests env db (DropGraph n cs) =
     [bare DELETE (scoped db (''/_api/gharial/'' @ n @ ''?dropCollections='' @ bool_text cs))]"
| "op_requests env db (CreateView d) = [with_json POST (scoped db ''/_api/view'') [] (hx_encode env (view_body d))]"
| "op_requests env db (DropView n) = [bare DELETE (scoped db (''/_api/view/'' @ n))]"
| "op_requests env db (DropCollection n) = [bare DELETE (scoped db (''/_api/collection/'' @ n))]"
| "op_requests env db (CreateCollection n k) =
     [with_json POST (scoped db ''/_api/collection'') [] (hx_encode env (create_collection_body n k))]"
| "op_requests env db (EnsureCollection n k) = [bare GET (scoped db (''/_api/collection/'' @ n)),
     with_json POST (scoped db ''/_api/collection'') [] (hx_encode env (create_collection_body n k))]"

text \<open>Every path is absolute and under one of the server's own roots.\<close>

lemma op_requests_absolute: "(m, path, rest) \<in> set (op_requests env db op) \<Longrightarrow> take 2 path = ''/_''"
  by (cases op) (auto simp: scoped_def)

fun perform :: "'w http_env \<Rightarrow> client \<Rightarrow> client_op \<Rightarrow> 'w client_state \<Rightarrow> 'w client_state" where
  "perform env cl ListDatabases st = snd (list_databases env cl st)"
| "perform env cl ServerVersion st = snd (server_version env cl st)"
| "perform env cl ServerRole st = snd (server_role_request env cl st)"
| "perform env cl (CreateDatabase n) st = snd (create_database env cl n st)"
| "perform env cl (DropDatabase n) st = snd (drop_database env cl n st)"
| "perform env cl (ImportDocuments opts b) st = snd (import_documents env cl opts b st)"
| "perform env cl (CursorOpen q) st = snd (cursor_open env cl q st)"
| "perform env cl (CursorNext i) st = snd (cursor_next env cl i st)"
| "perform env cl (CursorDelete i) st = snd (cursor_delete env cl i st)"
| "perform env cl (BatchCreate ttl) st = snd (replication_batch_create env cl ttl st)"
| "perform env cl (BatchExtend i ttl) st = snd (replication_batch_extend env cl i ttl st)"
| "perform env cl (BatchDelete i) st = snd (replication_batch_delete env cl i st)"
| "perform env cl (GetInventory i sys) st = snd (replication_inventory env cl i sys st)"
| "perform env cl (GetChunk c i lo n) st = snd (replication_dump_chunk env cl c i lo n st)"
| "perform env cl (RestoreStructure p is ow) st = snd (ClientOps.restore_collection env cl p is ow st)"
| "perform env cl (RestoreDocuments c b) st = snd (restore_data env cl c b st)"
| "perform env cl (GetCollection n) st = snd (collection_info env cl n st)"
| "perform env cl (CountCollection n) st = snd (collection_count env cl n st)"
| "perform env cl (CreateIndex c d) st = snd (create_index env cl c d st)"
| "perform env cl (CreateGraph d) st = snd (create_graph env cl d st)"
| "perform env cl (DropGraph n cs) st = snd (drop_graph env cl n cs st)"
| "perform env cl (CreateView d) st = snd (create_view env cl d st)"
| "perform env cl (DropView n) st = snd (drop_view env cl n st)"
| "perform env cl (DropCollection n) st = snd (drop_collection env cl n st)"
| "perform env cl (CreateCollection n k) st = snd (make_collection env cl n k st)"
| "perform env cl (EnsureCollection n k) st = snd (ensure_collection env cl n k st)"

fun session :: "'w http_env \<Rightarrow> client \<Rightarrow> (string \<times> client_op) list \<Rightarrow> 'w client_state \<Rightarrow> 'w client_state" where
  "session env cl [] st = st"
| "session env cl ((db, op) # ops) st = session env cl ops (perform env (with_database db cl) op st)"

lemma session_append: "session env cl (xs @ ys) st = session env cl ys (session env cl xs st)"
  by (induction xs arbitrary: st) auto

section \<open>Invariants of sessions\<close>

text \<open>The contract of an invariant: any attempt at a request that may be sent keeps it too.\<close>

locale client_invariant = client_frame env I for env :: "'w http_env" and I +
  fixes cl :: client and may :: "request_shape \<Rightarrow> bool"
  assumes attempt: "may (m, path, q, ct, b) \<Longrightarrow> hx_join env (cl_base cl) path = Inr u
      \<Longrightarrow> act_keeps I (attempt_response env cl m (u, q) ct b)"

context client_invariant
begin

lemma joined_join: "joined env (with_database db cl) what path = Inr u \<Longrightarrow> hx_join env (cl_base cl) path = Inr u"
  by (simp add: joined_def split: sum.splits)

lemma url_for_join: "url_for env (with_database db cl) path = Inr u \<Longrightarrow> hx_join env (cl_base cl) (scoped db path) = Inr u"
  by (auto simp: url_for_def Let_def scoped_def with_database_def split: sum.splits)

lemma keeps_execute:
  assumes "may (m, scoped db path, [], map_option (\<lambda>_. ''application/json'') b, b)"
  shows "act_keeps I (execute env (with_database db cl) m path b)"
  unfolding execute_def send_request_def attempt_request_def attempt_sibling
  by (intro keeps_retried keeps_refreshing keeps_lift_bind act_keeps_bind act_keeps_basic attempt [OF assms] url_for_join)

lemma keeps_send_body:
  "may (m, path, q, Some ct, Some b) \<Longrightarrow> hx_join env (cl_base cl) path = Inr u
    \<Longrightarrow> act_keeps I (send_body env (with_database db cl) m (u, q) ct b)"
  unfolding send_body_def attempt_body_def attempt_sibling by (intro act_intros attempt)

lemma keeps_plain:
  "may (m, path, q, None, None) \<Longrightarrow> hx_join env (cl_base cl) path = Inr u
    \<Longrightarrow> act_keeps I (attempt_plain env (with_database db cl) m (u, q))"
  unfolding attempt_plain_def attempt_sibling by (intro act_intros attempt)

lemma keeps_recover: "act_keeps I m \<Longrightarrow> (\<And>st. snd (f st) = snd (m st)) \<Longrightarrow> act_keeps I f"
  unfolding act_keeps_def by (metis prod.collapse snd_conv)

lemma keeps_bare: "may (bare m (scoped db path)) \<Longrightarrow> act_keeps I (execute env (with_database db cl) m path None)"
  by (simp add: keeps_execute)

lemma keeps_json: "may (with_json m (scoped db path) [] b) \<Longrightarrow> act_keeps I (execute env (with_database db cl) m path (Some b))"
  by (simp add: keeps_execute)

lemma keeps_gone: "may (bare DELETE (scoped db path)) \<Longrightarrow> act_keeps I (gone_by env (with_database db cl) path)"
  by (rule keeps_recover [OF keeps_bare])
    (auto simp: gone_by_def split: prod.splits sum.splits error.splits)

lemma keeps_done:
  "may (bare m (scoped db path)) \<Longrightarrow> act_keeps I (done_by env (with_database db cl) m path None)"
  "may (with_json m (scoped db path) [] b) \<Longrightarrow> act_keeps I (done_by env (with_database db cl) m path (Some b))"
  unfolding done_by_def by (auto intro!: act_keeps_bind act_keeps_basic keeps_bare keeps_json)

lemma keeps_info:
  "may (bare GET (scoped db (''/_api/collection/'' @ name))) \<Longrightarrow> act_keeps I (collection_info env (with_database db cl) name)"
  by (rule keeps_recover [OF keeps_bare])
    (auto simp: collection_info_def split: prod.splits sum.splits error.splits)

lemmas keeps_sent = keeps_lift_bind act_keeps_bind act_keeps_basic keeps_retried

lemma keeps_joined_ops:
  "may (bare GET ''/_db/_system/_api/database'') \<Longrightarrow> act_keeps I (list_databases env (with_database db cl))"
  "may (bare GET ''/_admin/server/role'') \<Longrightarrow> act_keeps I (server_role_request env (with_database db cl))"
  "may (bare DELETE (''/_db/_system/_api/database/'' @ name)) \<Longrightarrow> act_keeps I (drop_database env (with_database db cl) name)"
  unfolding list_databases_def server_role_request_def drop_database_def attempt_sibling
  by (auto intro!: keeps_sent keeps_plain attempt dest: joined_join)

lemma keeps_create_database:
  assumes "may (with_json POST ''/_db/_system/_api/database'' [] (hx_encode env (json_object [(''name'', JString name)])))"
  shows "act_keeps I (create_database env (with_database db cl) name)"
  unfolding create_database_def
proof (rule keeps_lift_bind)
  fix u assume "joined env (with_database db cl) ''database'' ''/_db/_system/_api/database'' = Inr u"
  then have k: "act_keeps I (retried env (with_database db cl) (send_body env (with_database db cl) POST (u, [])
      ''application/json'' (hx_encode env (json_object [(''name'', JString name)]))))"
    by (intro keeps_retried keeps_send_body [OF assms] joined_join)
  show "act_keeps I (\<lambda>st. case retried env (with_database db cl) (send_body env (with_database db cl) POST (u, [])
      ''application/json'' (hx_encode env (json_object [(''name'', JString name)]))) st of
         (Inr _, st1) \<Rightarrow> (Inr (), st1)
       | (Inl (Http status m c), st1) \<Rightarrow> (if status = 409 then Inr () else Inl (Http status m c), st1)
       | (Inl err, st1) \<Rightarrow> (Inl err, st1))"
    by (rule keeps_recover [OF k]) (auto split: prod.splits sum.splits error.splits)
qed

lemma keeps_import:
  "may (POST, scoped db ''/_api/import'', import_query opts, Some ''application/x-ndjson'', Some b)
    \<Longrightarrow> act_keeps I (import_documents env (with_database db cl) opts b)"
  unfolding import_documents_def by (auto intro!: keeps_sent keeps_send_body url_for_join)

lemma keeps_chunk:
  "may (GET, scoped db ''/_api/replication/dump'',
      [(''collection'', coll), (''batchId'', batch), (''from'', dec (unat lo)), (''chunkSize'', dec n)], None, None)
    \<Longrightarrow> act_keeps I (replication_dump_chunk env (with_database db cl) coll batch lo n)"
  unfolding replication_dump_chunk_def attempt_sibling by (auto intro!: keeps_sent attempt url_for_join)

lemma keeps_restore_data:
  "may (with_json PUT (scoped db ''/_api/replication/restore-data'') [(''collection'', coll)] b)
    \<Longrightarrow> act_keeps I (restore_data env (with_database db cl) coll b)"
  unfolding restore_data_def by (auto intro!: keeps_sent keeps_send_body url_for_join)

lemma keeps_create_index:
  "may (with_json POST (scoped db ''/_api/index'') [(''collection'', coll)] (hx_encode env j))
    \<Longrightarrow> act_keeps I (create_index env (with_database db cl) coll j)"
  unfolding create_index_def by (auto intro!: keeps_sent keeps_send_body url_for_join)

lemma keeps_ensure:
  "may (bare GET (scoped db (''/_api/collection/'' @ name)))
    \<Longrightarrow> may (with_json POST (scoped db ''/_api/collection'') [] (hx_encode env (create_collection_body name kind)))
    \<Longrightarrow> act_keeps I (ensure_collection env (with_database db cl) name kind)"
  unfolding ensure_collection_def make_collection_def
  by (auto intro!: act_keeps_bind act_keeps_basic keeps_info keeps_done split: option.split)

lemmas keeps_ops = keeps_bare keeps_json keeps_gone keeps_done keeps_info keeps_joined_ops keeps_create_database
  keeps_import keeps_chunk keeps_restore_data keeps_create_index keeps_ensure

lemma keeps_snd: "act_keeps I m \<Longrightarrow> I st \<Longrightarrow> I (snd (m st))"
  unfolding act_keeps_def by (metis prod.collapse)

lemma perform_invariant:
  assumes "\<forall>x \<in> set (op_requests env db op). may x" "I st"
  shows "I (perform env (with_database db cl) op st)"
proof -
  have keep: "act_keeps I m \<Longrightarrow> I (snd (m st))" for m :: "('w, 'b) call" by (rule keeps_snd [OF _ assms(2)])
  note once = server_version_def cursor_open_def cursor_next_def cursor_delete_def replication_batch_create_def
    replication_batch_extend_def replication_batch_delete_def replication_inventory_def
    ClientOps.restore_collection_def collection_count_def create_graph_def drop_graph_def create_view_def
    drop_view_def drop_collection_def make_collection_def
  show ?thesis
    using assms(1)
    by (cases op; simp only: perform.simps once)
      (rule keep, ((intro act_keeps_bind act_keeps_basic)?)[1], (rule keeps_ops; simp; fail))+
qed

lemma session_invariant:
  "\<forall>(db, op) \<in> set ops. \<forall>x \<in> set (op_requests env db op). may x \<Longrightarrow> I st \<Longrightarrow> I (session env cl ops st)"
proof (induction ops arbitrary: st)
  case (Cons x ops)
  show ?case
  proof (cases x)
    case (Pair db op)
    then have "I (perform env (with_database db cl) op st)"
      using perform_invariant [of db op st] Cons.prems by simp
    then show ?thesis using Cons.IH Cons.prems(1) Pair by simp
  qed
qed simp

end

text \<open>An invariant that any request keeps.\<close>

locale request_invariant = client_invariant env I cl "\<lambda>_. True" for env :: "'w http_env" and I cl

context request_invariant
begin

lemma any_session_invariant: "I st \<Longrightarrow> I (session env cl ops st)"
  by (rule session_invariant) auto

lemma any_perform_invariant: "I st \<Longrightarrow> I (perform env (with_database db cl) op st)"
  by (rule perform_invariant) auto

end

end
