(* ===== verification/ClientTokens.thy ===== *)
theory ClientTokens
  imports ClientSession
begin

text \<open>
  Which credentials a session sends: tokens that are current when they go out, only the configured
  credential, only to the configured endpoint.
\<close>

section \<open>Current tokens\<close>

text \<open>
  What is relied on of base64 and of the JSON text of the claims the client writes itself: they
  read back, and base64 has no dot.
\<close>

definition jwt_codec :: "'w http_env \<Rightarrow> bool" where
  "jwt_codec env \<longleftrightarrow>
     (\<forall>b. CHR ''.'' \<notin> set (hx_base64 env b) \<and> hx_unbase64 env (hx_base64 env b) = Some b)
     \<and> (\<forall>n < 2 ^ 63. hx_decode env (hx_encode env (token_claims n)) = Inr (token_claims n))"

definition clock_bounded :: "'w http_env \<Rightarrow> bool" where
  "clock_bounded env \<longleftrightarrow> (\<forall>w. hx_now env w < 2 ^ 63)"

lemma minted_expiry:
  assumes "jwt_codec env" "mint_superuser_jwt env secret n = Inr token" "n < 2 ^ 63"
  shows "token_expiry env token = Some (n + minted_lifetime)"
proof -
  let ?p = "hx_base64 env (hx_encode env (token_claims n))"
  obtain h mac where token: "token = (h @ CHR ''.'' # ?p) @ CHR ''.'' # mac" "CHR ''.'' \<notin> set h"
    using assms(1,2) by (auto simp: mint_superuser_jwt_def sign_hs256_def Let_def jwt_codec_def split: sum.splits)
  have "split_on (CHR ''.'') token = h # split_on (CHR ''.'') (?p @ CHR ''.'' # mac)"
    using token by (simp add: split_on_append)
  also have "\<dots> = h # ?p # split_on (CHR ''.'') mac"
    using assms(1) by (simp add: split_on_append jwt_codec_def)
  finally have s: "split_on (CHR ''.'') token = h # ?p # split_on (CHR ''.'') mac" .
  have "jget (token_claims n) ''exp'' = Some (jnat (n + minted_lifetime))"
    by (simp add: token_claims_def jget_json_object)
  moreover have "as_u64 (jnat (n + minted_lifetime)) = Some (n + minted_lifetime)"
    using assms(3) by (intro as_u64_jnat) (simp add: minted_lifetime_def)
  ultimately show ?thesis using assms(1,3) by (simp add: token_expiry_def s jwt_codec_def)
qed

definition current_at :: "'w http_env \<Rightarrow> nat \<Rightarrow> string \<Rightarrow> bool" where
  "current_at env t token \<longleftrightarrow> (\<exists>e. token_expiry env token = Some e \<and> t + expiry_skew < e)"

fun sent_current :: "'w http_env \<Rightarrow> exchange \<Rightarrow> bool" where
  "sent_current env (t, rq, r) \<longleftrightarrow> (\<exists>token. rq_credential rq = BearerCredential token \<and> current_at env t token)"

text \<open>The log is fine, and the cache knows the expiry of what it holds.\<close>

definition tokens_current :: "'w http_env \<Rightarrow> 'w client_state \<Rightarrow> bool" where
  "tokens_current env st \<longleftrightarrow> list_all (sent_current env) (cs_log st)
     \<and> (\<forall>token e. cs_token st = Some (token, e) \<longrightarrow> e \<noteq> None \<and> token_expiry env token = e)"

definition minting :: "'w http_env \<Rightarrow> client \<Rightarrow> bool" where
  "minting env cl \<longleftrightarrow> (\<exists>secret. cl_auth cl = AuthJwtSecret secret) \<and> jwt_codec env \<and> clock_bounded env"

lemma bearer_current:
  assumes "minting env cl" "tokens_current env st" "bearer_token env cl st = (r, st1)"
  shows "tokens_current env st1 \<and> cs_world st1 = cs_world st
    \<and> (\<forall>token. r = Inr token \<longrightarrow> current_at env (hx_now env (cs_world st)) token)"
proof -
  let ?now = "hx_now env (cs_world st)"
  obtain secret where auth: "cl_auth cl = AuthJwtSecret secret" using assms(1) by (auto simp: minting_def)
  from assms(3) show ?thesis
  proof (cases rule: bearer_token_cases)
    case cached
    then show ?thesis using assms(2)
      by (auto simp: tokens_current_def current_at_def is_expiring_def split: option.splits)
  next
    case fresh
    show ?thesis
    proof (cases "mint_superuser_jwt env secret ?now")
      case (Inl err)
      then show ?thesis using fresh auth assms(2) by (auto simp: act_bind_def obtain_token_def)
    next
      case (Inr token)
      have "token_expiry env token = Some (?now + minted_lifetime)"
        by (rule minted_expiry [OF _ Inr]) (use assms(1) in \<open>auto simp: minting_def clock_bounded_def\<close>)
      moreover have "r = Inr token" "st1 = st\<lparr>cs_token := Some (token, token_expiry env token)\<rparr>"
        using fresh auth Inr by (auto simp: act_bind_def obtain_token_def store_token_def)
      ultimately show ?thesis using assms(2)
        by (auto simp: tokens_current_def current_at_def minted_lifetime_def expiry_skew_def)
    qed
  qed
qed

lemma attempt_current:
  assumes "minting env cl"
  shows "act_keeps (tokens_current env) (attempt_response env cl m url ct b)"
  unfolding act_keeps_def
proof (intro allI impI)
  fix st r st2
  assume st: "tokens_current env st" "attempt_response env cl m url ct b st = (r, st2)"
  obtain secret where "cl_auth cl = AuthJwtSecret secret" using assms by (auto simp: minting_def)
  then have run: "act_bind (bearer_token env cl) (\<lambda>token. transmit env \<lparr>rq_method = m, rq_url = fst url,
      rq_query = snd url, rq_credential = BearerCredential token, rq_content_type = ct, rq_body = b\<rparr>) st = (r, st2)"
    using st(2) by (auto simp: attempt_response_def apply_auth_def act_bind_def split: prod.splits sum.splits)
  obtain r1 st1 where b: "bearer_token env cl st = (r1, st1)" by fastforce
  note cur = bearer_current [OF assms st(1) b]
  show "tokens_current env st2"
  proof (cases r1)
    case (Inl e)
    then show ?thesis using run b cur by (simp add: act_bind_def)
  next
    case (Inr token)
    then show ?thesis using run b cur
      by (auto simp: act_bind_def transmit_def tokens_current_def split: prod.splits)
  qed
qed

interpretation current: request_invariant env "\<lambda>st. minting env cl \<longrightarrow> tokens_current env st" cl
  for env :: "'w http_env" and cl
proof
  show "act_keeps (\<lambda>st. minting env cl \<longrightarrow> tokens_current env st) (attempt_response env cl m (u, q) ct b)" for m u q ct b
    using attempt_current [of env cl m "(u, q)" ct b] by (auto simp: act_keeps_def)
  show "minting env cl \<longrightarrow> tokens_current env st1"
    if "minting env cl \<longrightarrow> tokens_current env st" "cs_log st1 = cs_log st" "cs_token st1 = cs_token st \<or> cs_token st1 = None"
    for st st1 :: "'w client_state"
    using that by (auto simp: tokens_current_def)
qed

section \<open>Confined credentials\<close>

definition login_request :: "'w http_env \<Rightarrow> client \<Rightarrow> string \<Rightarrow> string \<Rightarrow> http_request \<Rightarrow> bool" where
  "login_request env cl username password rq \<longleftrightarrow> rq_method rq = POST
     \<and> hx_join env (cl_base cl) ''/_open/auth'' = Inr (rq_url rq) \<and> rq_query rq = []
     \<and> rq_credential rq = NoCredential \<and> rq_content_type rq = Some ''application/json''
     \<and> rq_body rq = Some (hx_encode env (json_object [(''username'', JString username), (''password'', JString password)]))"

text \<open>Tokens the server issued at a login of the log.\<close>

definition issued :: "'w http_env \<Rightarrow> client \<Rightarrow> string \<Rightarrow> string \<Rightarrow> exchange list \<Rightarrow> string \<Rightarrow> bool" where
  "issued env cl username password past token \<longleftrightarrow> (\<exists>t rq rp v. (t, rq, Inr rp) \<in> set past
     \<and> login_request env cl username password rq \<and> is_success (rp_status rp)
     \<and> hx_decode env (rp_body rp) = Inr v \<and> jget v ''jwt'' = Some (JString token))"

definition token_source :: "'w http_env \<Rightarrow> client \<Rightarrow> exchange list \<Rightarrow> string \<Rightarrow> bool" where
  "token_source env cl past token =
     (case cl_auth cl of
        AuthJwtSecret secret \<Rightarrow> \<exists>n. mint_superuser_jwt env secret n = Inr token
      | AuthJwtLogin username password \<Rightarrow> issued env cl username password past token
      | _ \<Rightarrow> False)"

definition credential_ok :: "'w http_env \<Rightarrow> client \<Rightarrow> exchange list \<Rightarrow> credential \<Rightarrow> bool" where
  "credential_ok env cl past c =
     (case cl_auth cl of
        AuthNone \<Rightarrow> c = NoCredential
      | AuthBasic username password \<Rightarrow> c = BasicCredential username password
      | AuthBearer token \<Rightarrow> c = BearerCredential token
      | _ \<Rightarrow> \<exists>token. c = BearerCredential token \<and> token_source env cl past token)"

text \<open>
  An exchange that follows \<open>past\<close>: one of the requests that may be sent, at the endpoint and with the
  credential configured, or a login.
\<close>

definition request_ok :: "'w http_env \<Rightarrow> client \<Rightarrow> (request_shape \<Rightarrow> bool) \<Rightarrow> http_request \<Rightarrow> bool" where
  "request_ok env cl may rq \<longleftrightarrow> (\<exists>path. hx_join env (cl_base cl) path = Inr (rq_url rq)
     \<and> may (rq_method rq, path, rq_query rq, rq_content_type rq, rq_body rq))"

fun exchange_ok :: "'w http_env \<Rightarrow> client \<Rightarrow> (request_shape \<Rightarrow> bool) \<Rightarrow> exchange list \<Rightarrow> exchange \<Rightarrow> bool" where
  "exchange_ok env cl may past (t, rq, r) \<longleftrightarrow>
     request_ok env cl may rq \<and> credential_ok env cl past (rq_credential rq)
     \<or> (\<exists>username password. cl_auth cl = AuthJwtLogin username password
          \<and> login_request env cl username password rq)"

definition credentials_confined ::
  "'w http_env \<Rightarrow> client \<Rightarrow> (request_shape \<Rightarrow> bool) \<Rightarrow> 'w client_state \<Rightarrow> bool"
where
  "credentials_confined env cl may st \<longleftrightarrow>
     (\<forall>earlier e later. cs_log st = earlier @ e # later \<longrightarrow> exchange_ok env cl may earlier e)
     \<and> (\<forall>token e. cs_token st = Some (token, e) \<longrightarrow> token_source env cl (cs_log st) token)"

lemma issued_mono: "issued env cl u p past token \<Longrightarrow> issued env cl u p (past @ xs) token"
  unfolding issued_def by auto

lemma token_source_mono: "token_source env cl past token \<Longrightarrow> token_source env cl (past @ xs) token"
  by (auto simp: token_source_def issued_mono split: auth_config.splits)

lemma confined_append:
  assumes "credentials_confined env cl may st" "exchange_ok env cl may (cs_log st) e"
    and "cs_log st1 = cs_log st @ [e]" "cs_token st1 = cs_token st"
  shows "credentials_confined env cl may st1"
proof -
  have "exchange_ok env cl may earlier e1" if "cs_log st @ [e] = earlier @ e1 # later" for earlier e1 later
  proof (cases later rule: rev_cases)
    case Nil
    then show ?thesis using that assms(2) by simp
  next
    case (snoc ys y)
    then have "cs_log st = earlier @ e1 # ys" using that by simp
    then show ?thesis using assms(1) unfolding credentials_confined_def by blast
  qed
  then show ?thesis using assms by (auto simp: credentials_confined_def token_source_mono)
qed

lemma confined_transmit:
  assumes "credentials_confined env cl may st" "transmit env rq st = (r, st1)"
    and "\<And>r0. exchange_ok env cl may (cs_log st) (hx_now env (cs_world st), rq, r0)"
  shows "credentials_confined env cl may st1"
proof -
  obtain r0 w where "hx_send env rq (cs_world st) = (r0, w)" by fastforce
  then show ?thesis
    using confined_append [OF assms(1) assms(3) [of r0], of st1] assms(2) by (auto simp: transmit_def)
qed

lemma confined_store:
  "credentials_confined env cl may st \<Longrightarrow> token_source env cl (cs_log st) token
    \<Longrightarrow> credentials_confined env cl may (st\<lparr>cs_token := Some (token, e)\<rparr>)"
  by (simp add: credentials_confined_def)

lemma login_confined:
  assumes "cl_auth cl = AuthJwtLogin username password"
    and "credentials_confined env cl may st" "login env cl username password st = (r, st1)"
  shows "credentials_confined env cl may st1
    \<and> (\<forall>token. r = Inr token \<longrightarrow> token_source env cl (cs_log st1) token)"
proof (cases "hx_join env (cl_base cl) ''/_open/auth''")
  case (Inl e)
  then show ?thesis using assms by (auto simp: login_def)
next
  case (Inr url)
  define rq where "rq = \<lparr>rq_method = POST, rq_url = url, rq_query = [], rq_credential = NoCredential,
      rq_content_type = Some ''application/json'',
      rq_body = Some (hx_encode env (json_object [(''username'', JString username), (''password'', JString password)]))\<rparr>"
  have lr: "login_request env cl username password rq" using Inr by (simp add: login_request_def rq_def)
  obtain r1 st2 where t: "transmit env rq st = (r1, st2)" by fastforce
  have ok: "credentials_confined env cl may st2"
    by (rule confined_transmit [OF assms(2) t]) (use lr Inr assms(1) in \<open>auto simp: rq_def\<close>)
  have st1: "st1 = st2" using assms(3) Inr t
    by (auto simp: login_def act_bind_def rq_def [symmetric] split: sum.splits if_splits option.splits)
  have "token_source env cl (cs_log st2) token" if tok: "r = Inr token" for token
  proof -
    obtain rp v where rp: "r1 = Inr rp" "is_success (rp_status rp)" "hx_decode env (rp_body rp) = Inr v"
      "Option.bind (jget v ''jwt'') as_str = Some token"
      using assms(3) Inr t tok
      by (auto simp: login_def act_bind_def rq_def [symmetric] split: sum.splits if_splits option.splits)
    then have "jget v ''jwt'' = Some (JString token)" by (auto simp: bind_eq_Some_conv elim: as_str.elims)
    moreover have "\<exists>n. (n, rq, Inr rp) \<in> set (cs_log st2)"
      using t rp(1) by (auto simp: transmit_def split: prod.splits sum.splits)
    ultimately show ?thesis using lr rp(2,3) assms(1) by (auto simp: token_source_def issued_def)
  qed
  then show ?thesis using ok st1 by simp
qed

lemma bearer_confined:
  assumes "credentials_confined env cl may st" "bearer_token env cl st = (r, st1)" "refreshable (cl_auth cl)"
  shows "credentials_confined env cl may st1
    \<and> (\<forall>token. r = Inr token \<longrightarrow> token_source env cl (cs_log st1) token)"
proof -
  have "credentials_confined env cl may st1 \<and> (\<forall>token. r = Inr token \<longrightarrow> token_source env cl (cs_log st1) token)"
    if fresh: "act_bind (obtain_token env cl) (store_token env) st = (r, st1)"
  proof -
    obtain r0 st0 where o: "obtain_token env cl st = (r0, st0)" by fastforce
    have "credentials_confined env cl may st0 \<and> (\<forall>token. r0 = Inr token \<longrightarrow> token_source env cl (cs_log st0) token)"
    proof (cases "cl_auth cl")
      case (AuthJwtSecret secret)
      then show ?thesis using o assms(1) by (auto simp: obtain_token_def token_source_def)
    next
      case (AuthJwtLogin u p)
      then show ?thesis using o login_confined [OF AuthJwtLogin assms(1)] by (simp add: obtain_token_def)
    qed (use assms(3) in simp_all)
    then show ?thesis using fresh o
      by (auto simp: act_bind_def store_token_def confined_store split: sum.splits)
  qed
  moreover have "cs_token st = Some (token, e) \<Longrightarrow> token_source env cl (cs_log st) token" for token e
    using assms(1) unfolding credentials_confined_def by blast
  ultimately show ?thesis using assms(1) by (cases rule: bearer_token_cases [OF assms(2)]) auto
qed

lemma attempt_confined:
  assumes "may (m, path, q, ct, b)" "hx_join env (cl_base cl) path = Inr u"
  shows "act_keeps (credentials_confined env cl may) (attempt_response env cl m (u, q) ct b)"
  unfolding act_keeps_def
proof (intro allI impI)
  fix st r st2
  assume st: "credentials_confined env cl may st" "attempt_response env cl m (u, q) ct b st = (r, st2)"
  obtain rc st1 where c: "apply_auth env cl st = (rc, st1)" by fastforce
  have c1: "credentials_confined env cl may st1 \<and> (\<forall>cred. rc = Inr cred \<longrightarrow> credential_ok env cl (cs_log st1) cred)"
  proof (cases "refreshable (cl_auth cl)")
    case True
    obtain rb sb where b: "bearer_token env cl st = (rb, sb)" by fastforce
    have "sb = st1" "rc = (case rb of Inl e \<Rightarrow> Inl e | Inr t \<Rightarrow> Inr (BearerCredential t))"
      using True c b by (auto simp: apply_auth_def act_bind_def split: auth_config.splits sum.splits)
    then show ?thesis using bearer_confined [OF st(1) b True] True
      by (auto simp: credential_ok_def split: auth_config.splits sum.splits)
  next
    case False
    then show ?thesis using c st(1)
      by (auto simp: apply_auth_def credential_ok_def split: auth_config.splits)
  qed
  show "credentials_confined env cl may st2"
  proof (cases rc)
    case (Inl e)
    then show ?thesis using st(2) c c1 by (auto simp: attempt_response_def act_bind_def)
  next
    case (Inr cred)
    define rq where "rq = \<lparr>rq_method = m, rq_url = u, rq_query = q, rq_credential = cred, rq_content_type = ct, rq_body = b\<rparr>"
    have "transmit env rq st1 = (r, st2)" using st(2) c Inr by (simp add: attempt_response_def act_bind_def rq_def)
    then show ?thesis
      by (rule confined_transmit [rotated]) (use c1 Inr assms in \<open>auto simp: rq_def request_ok_def\<close>)
  qed
qed

interpretation confined: client_invariant env "credentials_confined env cl may" cl may
  for env :: "'w http_env" and cl may
proof
  show "act_keeps (credentials_confined env cl may) (attempt_response env cl m (u, q) ct b)"
    if "may (m, path, q, ct, b)" "hx_join env (cl_base cl) path = Inr u" for path u m q ct b
    using that by (rule attempt_confined [of may])
qed (auto simp: credentials_confined_def)

section \<open>Properties of sessions\<close>

lemma tiny_codec: "jwt_codec tiny_http"
proof -
  have "jget (token_claims n) ''iat'' = Some (jnat n)" for n by (simp add: token_claims_def jget_json_object)
  then have "hx_encode tiny_http (token_claims n) = dec n" for n by (simp add: tiny_http_def jnat_def)
  moreover have "list_all is_digit (dec n)" for n using dec_digits by (simp add: list_all_iff)
  ultimately show ?thesis by (simp add: jwt_codec_def) (simp add: tiny_http_def)
qed

lemma tiny_clock: "clock_bounded tiny_http"
  by (simp add: clock_bounded_def tiny_http_def min_def)

lemma tiny_session:
  "length (cs_log (session tiny_http tiny_http_client [(''d'', ServerVersion)] (client_start 1000))) = Suc 0"
  by (simp add: server_version_def tiny_defs mint_superuser_jwt_def sign_hs256_def)


text \<open>
  C12: under a JWT secret, no request ever goes out with a token that has lapsed or lapses within
  the next minute, in any session and whatever the server answers: every exchange of the log
  carries a bearer token whose expiry, as the token itself states it, is more than the skew after
  the clock at which it was sent.  This covers retries, the second attempt after a 401, and the
  clients of other databases, which share the cache.
\<close>

theorem client_tokens_current:
  assumes "cl_auth cl = AuthJwtSecret secret" "jwt_codec env" "clock_bounded env"
    and "(t, rq, r) \<in> set (cs_log (session env cl ops (client_start w)))"
  shows "\<exists>token e. rq_credential rq = BearerCredential token
    \<and> token_expiry env token = Some e \<and> t + expiry_skew < e"
proof -
  have m: "minting env cl" using assms(1-3) by (auto simp: minting_def)
  have "minting env cl \<longrightarrow> tokens_current env (session env cl ops (client_start w))"
    by (rule current.any_session_invariant) (simp add: tokens_current_def client_start_def)
  then have "list_all (sent_current env) (cs_log (session env cl ops (client_start w)))"
    using m by (simp add: tokens_current_def)
  then have "sent_current env (t, rq, r)" using assms(4) by (auto simp only: list_all_iff)
  then show ?thesis by (auto simp: current_at_def)
qed

lemma client_tokens_current_witness:
  "\<exists>t rq r token e. (t, rq, r) \<in> set (cs_log (session tiny_http tiny_http_client [(''d'', ServerVersion)] (client_start 1000)))
    \<and> token_expiry tiny_http token = Some e \<and> t + expiry_skew < e"
proof -
  let ?log = "cs_log (session tiny_http tiny_http_client [(''d'', ServerVersion)] (client_start 1000))"
  obtain t rq r where e: "(t, rq, r) \<in> set ?log"
    using tiny_session by (cases ?log) auto
  have "cl_auth tiny_http_client = AuthJwtSecret ''s''" by (simp add: tiny_http_client_def cl_auth_def)
  then show ?thesis using client_tokens_current [OF _ tiny_codec tiny_clock e] e by blast
qed

text \<open>
  C13: credentials stay where they belong, in any session, whatever the server answers.  Every
  exchange but a login is a request that \<open>op_requests\<close> lists for an operation of the session: its
  verb, path, query, content type and body are those, made of the database and the arguments of the
  operation alone, and its URL is the configured endpoint joined with that path, an absolute one
  under \<open>/_\<close>, which leaves the host of the endpoint as it is.  The credential it carries is
  the configured one: none, the user and password, the token, a token minted with the JWT
  secret (never the secret itself), or, after a login, a token that the server issued in an
  earlier exchange of the session.  A login happens under login credentials only; it is the POST
  to \<open>/_open/auth\<close> without query or credential, with the user and password as its body, and no
  other request is given that password.
\<close>

theorem client_credentials_confined:
  assumes "cs_log (session env cl ops (client_start w)) = earlier @ (t, rq, r) # later"
  shows "(\<exists>username password. cl_auth cl = AuthJwtLogin username password
        \<and> rq_method rq = POST \<and> hx_join env (cl_base cl) ''/_open/auth'' = Inr (rq_url rq)
        \<and> rq_query rq = [] \<and> rq_credential rq = NoCredential
        \<and> rq_body rq = Some (hx_encode env
             (json_object [(''username'', JString username), (''password'', JString password)])))
    \<or> (\<exists>(db, op) \<in> set ops. \<exists>path.
          (rq_method rq, path, rq_query rq, rq_content_type rq, rq_body rq) \<in> set (op_requests env db op)
          \<and> take 2 path = ''/_'' \<and> hx_join env (cl_base cl) path = Inr (rq_url rq))
      \<and> (case cl_auth cl of
           AuthNone \<Rightarrow> rq_credential rq = NoCredential
         | AuthBasic username password \<Rightarrow> rq_credential rq = BasicCredential username password
         | AuthBearer token \<Rightarrow> rq_credential rq = BearerCredential token
         | AuthJwtSecret secret \<Rightarrow> \<exists>token n. rq_credential rq = BearerCredential token
             \<and> mint_superuser_jwt env secret n = Inr token
         | AuthJwtLogin username password \<Rightarrow> \<exists>token. rq_credential rq = BearerCredential token
             \<and> issued env cl username password earlier token)"
proof -
  define may where "may = (\<lambda>x. \<exists>(db, op) \<in> set ops. x \<in> set (op_requests env db op))"
  have "credentials_confined env cl may (session env cl ops (client_start w))"
    by (rule confined.session_invariant) (auto simp: may_def credentials_confined_def client_start_def)
  then have "exchange_ok env cl may earlier (t, rq, r)" using assms unfolding credentials_confined_def by blast
  then consider (login) username password where "cl_auth cl = AuthJwtLogin username password"
      "login_request env cl username password rq"
    | (asked) "request_ok env cl may rq" "credential_ok env cl earlier (rq_credential rq)"
    by auto
  then show ?thesis
  proof cases
    case login
    then show ?thesis by (simp add: login_request_def)
  next
    case asked
    then have "\<exists>(db, op) \<in> set ops. \<exists>path.
        (rq_method rq, path, rq_query rq, rq_content_type rq, rq_body rq) \<in> set (op_requests env db op)
        \<and> take 2 path = ''/_'' \<and> hx_join env (cl_base cl) path = Inr (rq_url rq)"
      using op_requests_absolute unfolding request_ok_def may_def by blast
    then show ?thesis using asked(2) by (cases "cl_auth cl") (simp_all add: credential_ok_def token_source_def)
  qed
qed

lemma client_credentials_confined_witness:
  "\<exists>rq :: http_request. hx_join tiny_http (cl_base tiny_http_client) ''/_db/d/_api/version'' = Inr (rq_url rq)
    \<and> rq_query rq = [] \<and> rq_body rq = None
    \<and> (\<exists>token n. rq_credential rq = BearerCredential token \<and> mint_superuser_jwt tiny_http ''s'' n = Inr token)"
proof -
  let ?log = "cs_log (session tiny_http tiny_http_client [(''d'', ServerVersion)] (client_start 1000))"
  obtain t rq r later where e: "?log = [] @ (t, rq, r) # later"
    using tiny_session by (cases ?log) auto
  have "cl_auth tiny_http_client = AuthJwtSecret ''s''" by (simp add: tiny_http_client_def cl_auth_def)
  then show ?thesis using client_credentials_confined [OF e] by (auto simp: scoped_def)
qed

end
