(* ===== verification/ImportSend.thy ===== *)
theory ImportSend
  imports ClientSession Pipeline
begin

text \<open>
  \<open>ArangoBatchSender\<close> of \<open>sender.rs\<close>: the batches of an import on the client.
\<close>

section \<open>Sending a batch\<close>

definition batch_send :: "'w http_env \<Rightarrow> client \<Rightarrow> import_options \<Rightarrow> batch \<Rightarrow> ('w, import_result) call" where
  "batch_send env cl opts b st =
     (case import_documents env cl opts (b_body b) st of
        (Inl err, st1) \<Rightarrow> (Inl (with_batch_context err (io_collection opts) (b_index b)), st1)
      | (Inr r, st1) \<Rightarrow> (Inr r, st1))"

text \<open>The request of a batch.\<close>

definition import_request :: "'w http_env \<Rightarrow> client \<Rightarrow> import_options \<Rightarrow> bytes \<Rightarrow> http_request \<Rightarrow> bool" where
  "import_request env cl opts body rq \<longleftrightarrow> rq_method rq = POST
     \<and> url_for env cl ''/_api/import'' = Inr (rq_url rq) \<and> rq_query rq = import_query opts
     \<and> rq_body rq = Some body"

lemma import_documents_answered:
  assumes "import_documents env cl opts body st = (Inr r, st1)"
  shows "\<exists>earlier t rq rp. cs_log st1 = cs_log st @ earlier @ [(t, rq, Inr rp)] \<and> is_success (rp_status rp)
    \<and> import_request env cl opts body rq
    \<and> from_json (hx_decode env) import_result_of_value (rp_body rp) = Inr r"
proof -
  obtain url payload where u: "url_for env cl ''/_api/import'' = Inr url"
    and run: "retried env cl (send_body env cl POST (url, import_query opts) ''application/x-ndjson'' body) st = (Inr payload, st1)"
    and r: "from_json (hx_decode env) import_result_of_value payload = Inr r"
    using assms by (auto simp: import_documents_def act_bind_Inr split: if_splits)
  have "answered (\<lambda>rq rp x. asks POST (url, import_query opts) (Some ''application/x-ndjson'') (Some body) rq \<and> x = rp_body rp)
      (retried env cl (send_body env cl POST (url, import_query opts) ''application/x-ndjson'' body))"
    by (intro answered_retried answered_send_body)
  then obtain bef t rq rp where "cs_log st1 = cs_log st @ bef @ [(t, rq, Inr rp)]" "is_success (rp_status rp)"
    "asks POST (url, import_query opts) (Some ''application/x-ndjson'') (Some body) rq" "payload = rp_body rp"
    using run unfolding answered_def by blast
  then show ?thesis using r u
    by (intro exI [of _ bef] exI [of _ t] exI [of _ rq] exI [of _ rp]) (simp add: import_request_def asks_def)
qed

lemma batch_send_ok: "batch_send env cl opts b st = (Inr r, st1) \<longleftrightarrow> import_documents env cl opts (b_body b) st = (Inr r, st1)"
  by (auto simp: batch_send_def split: prod.splits sum.splits)

lemma import_query_overwrite: "(''overwrite'', ''true'') \<in> set (import_query opts) \<longleftrightarrow> io_overwrite opts"
  by (auto simp: import_query_def split: option.splits)

section \<open>Properties of sending\<close>

text \<open>
  C8: a batch that is acknowledged was accepted: when the sender returns statistics for a batch,
  the last thing the server did was to answer, with success, the import request that carries
  exactly the bytes of this batch and the parameters of the options, and the statistics are the
  ones of that answer.  This is the acknowledgement that the pipeline counts and that a checkpoint
  records.  The parameters are the same for every batch: with the overwrite option each request,
  whatever the number of the batch, asks the server to truncate the collection.  When the sender
  reports an HTTP error, it carries a collection and the number of the batch.
\<close>

theorem batch_send_acknowledged:
  assumes "batch_send env cl opts b st = (r, st1)"
  shows "case r of
      Inr stats \<Rightarrow> \<exists>earlier t rq rp. cs_log st1 = cs_log st @ earlier @ [(t, rq, Inr rp)] \<and> is_success (rp_status rp)
        \<and> rq_method rq = POST \<and> url_for env cl ''/_api/import'' = Inr (rq_url rq)
        \<and> rq_query rq = import_query opts \<and> rq_body rq = Some (b_body b)
        \<and> ((''overwrite'', ''true'') \<in> set (rq_query rq) \<longleftrightarrow> io_overwrite opts)
        \<and> from_json (hx_decode env) import_result_of_value (rp_body rp) = Inr stats
    | Inl (Http status message ctx) \<Rightarrow>
        ec_collection ctx \<noteq> None \<and> ec_batch ctx = Some (b_index b)
    | Inl _ \<Rightarrow> True"
proof (cases r)
  case (Inl err)
  then obtain err0 where "err = with_batch_context err0 (io_collection opts) (b_index b)"
    using assms by (auto simp: batch_send_def split: prod.splits sum.splits)
  then show ?thesis using Inl by (cases err0) simp_all
next
  case (Inr stats)
  then have "import_documents env cl opts (b_body b) st = (Inr stats, st1)" using assms batch_send_ok by blast
  from import_documents_answered [OF this] show ?thesis
    unfolding Inr by (simp add: import_request_def) (metis import_query_overwrite)
qed

text \<open>A batch with overwrite.\<close>

definition tiny_batch :: "string \<Rightarrow> nat \<Rightarrow> batch" where
  "tiny_batch body i = \<lparr>b_body = body, b_documents = 1, b_index = i\<rparr>"

definition tiny_import_options :: import_options where
  "tiny_import_options = (import_options_new ''c'')\<lparr>io_overwrite := True\<rparr>"

abbreviation tiny_open_client :: client where
  "tiny_open_client \<equiv> tiny_http_client\<lparr>cl_config := connection_default\<rparr>"

lemma tiny_send:
  "fst (batch_send tiny_http tiny_open_client tiny_import_options b st) =
     Inr \<lparr>ir_created = 0, ir_errors = 0, ir_empty = 0, ir_updated = 0, ir_ignored = 0\<rparr>"
  by (simp add: batch_send_def import_documents_def tiny_import_options_def import_options_new_def send_body_def
      attempt_body_def tiny_defs from_json_def tiny_answer_def import_result_of_value_def default_field_def
      jget_json_object is_digit_def strings_of_def res_simps)

lemma batch_send_acknowledged_witness:
  "\<exists>(st :: nat client_state) earlier t rq rp. cs_log st = earlier @ [(t, rq, Inr rp)]
    \<and> rq_body rq = Some ''{}'' \<and> (''overwrite'', ''true'') \<in> set (rq_query rq) \<and> is_success (rp_status rp)"
proof -
  obtain r st1 where run: "batch_send tiny_http tiny_open_client tiny_import_options (tiny_batch ''{}'' 1) (client_start 1000) = (Inr r, st1)"
    using tiny_send [of "tiny_batch ''{}'' 1" "client_start 1000"] by (metis prod.collapse)
  show ?thesis
    by (rule exI [of _ st1]) (use batch_send_acknowledged [OF run] in
        \<open>auto simp: client_start_def tiny_batch_def tiny_import_options_def import_options_new_def\<close>)
qed

end
