(* ===== verification/ClientRestore.thy ===== *)
theory ClientRestore
  imports ClientTokens Restore
begin

text \<open>
  The restore of \<open>arangodb-restore\<close> over the client of \<open>arangodb-client\<close>: every invariant of the
  client's operations is one of a whole restore, and a restore that succeeds has had everything
  of the dump accepted by the server.
\<close>

section \<open>What the server side of a restore keeps\<close>

lemma act_keeps_shift: "act_keeps I m \<Longrightarrow> (\<And>st. I st \<Longrightarrow> I (g st)) \<Longrightarrow> act_keeps I (\<lambda>st. m (g st))"
  unfolding act_keeps_def by blast

lemma act_keeps_split: "(\<And>x y. act_keeps I (f x y)) \<Longrightarrow> act_keeps I (case p of (x, y) \<Rightarrow> f x y)"
  by (cases p) simp

locale restore_invariant =
  fixes rcl :: "'c restore_client" and P :: "'c \<Rightarrow> bool"
  assumes create_database: "P c \<Longrightarrow> P (snd (rt_create_database rcl d c))"
    and restore_collection: "P c \<Longrightarrow> P (snd (rt_restore_collection rcl d ps is ow c))"
    and restore_data: "P c \<Longrightarrow> P (snd (rt_restore_data rcl d n b c))"
    and create_index: "P c \<Longrightarrow> P (snd (rt_create_index rcl d n i c))"
    and drop_view: "P c \<Longrightarrow> P (snd (rt_drop_view rcl d n c))"
    and create_view: "P c \<Longrightarrow> P (snd (rt_create_view rcl d v c))"

context restore_invariant
begin

definition serves :: "('c, 'k) restore_state \<Rightarrow> bool" where
  "serves st \<longleftrightarrow> P (r_server st)"

lemma serves_ask: "(\<And>c. P c \<Longrightarrow> P (snd (f c))) \<Longrightarrow> act_keeps serves (ask f)"
  unfolding act_keeps_def serves_def ask_def Let_def by (auto split: prod.splits) (metis snd_conv)

lemma serves_asks [act_intros]:
  "act_keeps serves (ask (rt_create_database rcl d))"
  "act_keeps serves (ask (rt_restore_collection rcl d ps is ow))"
  "act_keeps serves (ask (rt_restore_data rcl d n b))"
  "act_keeps serves (ask (rt_create_index rcl d n i))"
  "act_keeps serves (ask (rt_drop_view rcl d n))"
  "act_keeps serves (ask (rt_create_view rcl d v))"
  by (intro serves_ask create_database restore_collection restore_data create_index drop_view create_view; assumption)+

lemma serves_record [act_intros]: "act_keeps serves (record_unit ser opts i)"
  by (auto simp: act_keeps_def serves_def record_unit_def Let_def split: option.splits)

lemma serves_view: "act_keeps serves (view_step rcl show_error ser opts v)"
proof -
  have create: "act_keeps serves (\<lambda>st. case ask (rt_create_view rcl d w) st of
      (Inr u, st1) \<Rightarrow> (Inr u, st1) | (Inl err, st1) \<Rightarrow> (Inl (f err), st1))" for d w f
    using act_keepsD [OF serves_asks(6)] unfolding act_keeps_def by (auto split: prod.splits sum.splits)
  have one: "act_keeps serves (restore_view rcl show_error opts v)"
    unfolding restore_view_def Let_def by (auto intro!: act_intros create)
  have count: "act_keeps serves (\<lambda>st. record_unit ser opts (view_unit_id v) (st\<lparr>r_views := r_views st + 1\<rparr>))"
    by (rule act_keeps_shift [OF serves_record]) (simp add: serves_def)
  show ?thesis
    using act_keeps_bind [OF one count] unfolding act_keeps_def view_step_def by (auto split: if_splits)
qed

lemma serves_load: "act_keeps serves (load_collection_data rcl src m db g s)"
  unfolding load_collection_data_def by (auto intro!: act_intros)

lemma serves_create: "act_keeps serves (create_collection rcl opts u)"
  using act_keepsD [OF serves_asks(2)] unfolding act_keeps_def create_collection_def
  by (auto split: prod.splits if_splits)

lemma serves_step: "act_keeps serves (data_step rcl src ser opts m u)"
proof (cases u)
  case (Pair g s)
  have end1: "act_keeps serves (\<lambda>st2. (Inr (), st2\<lparr>r_events := r_events st2 @ [r_restored st2 + r_skipped st2]\<rparr>))"
    by (simp add: act_keeps_def serves_def)
  have "act_keeps serves (act_bind (record_unit ser opts (unit_id g)) (\<lambda>_ st2.
      (Inr (), st2\<lparr>r_events := r_events st2 @ [r_restored st2 + r_skipped st2]\<rparr>)))"
    by (intro act_keeps_bind serves_record end1)
  then have rest: "act_keeps serves (\<lambda>st1. act_bind (record_unit ser opts (unit_id g)) (\<lambda>_ st2.
      (Inr (), st2\<lparr>r_events := r_events st2 @ [r_restored st2 + r_skipped st2]\<rparr>))
      (st1\<lparr>r_restored := r_restored st1 + 1\<rparr>))"
    by (rule act_keeps_shift) (simp add: serves_def)
  note k = act_keeps_bind [OF serves_load rest]
  show ?thesis
    unfolding act_keeps_def data_step_def Pair Let_def prod.case
    using act_keepsD [OF k] by (auto simp: serves_def split: if_splits)
qed

lemma serves_phases: "act_keeps serves (run_phases rcl src show_error ser opts m us vs)"
  unfolding run_phases_def by (intro act_intros serves_create serves_view serves_step)

lemma serves_restore: "act_keeps serves (run_restore rcl src show_error ser opts)"
proof -
  have checkpoint: "act_keeps serves (\<lambda>st. act_lift (open_checkpoint src opts fp (r_ckstore st)) st)" for fp
    by (simp add: act_keeps_def)
  have reset: "act_keeps serves (\<lambda>st. (Inr (), st\<lparr>r_checkpoint := c, r_restored := 0, r_skipped := 0, r_views := 0\<rparr>))" for c
    by (simp add: act_keeps_def serves_def)
  have summary: "act_keeps serves (\<lambda>st. (Inr (f st), st))" for f by (simp add: act_keeps_def)
  show ?thesis
    unfolding run_restore_def
    by (intro act_keeps_bind act_keeps_basic act_keeps_split act_keeps_all serves_asks checkpoint reset summary serves_phases)
qed

lemma run_restore_serves:
  "run_restore rcl src show_error ser opts st = (r, st1) \<Longrightarrow> P (r_server st) \<Longrightarrow> P (r_server st1)"
  using act_keepsD [OF serves_restore] by (simp add: serves_def)

end

section \<open>The client as the restore's server\<close>

definition http_restore_client :: "'w http_env \<Rightarrow> client \<Rightarrow> 'w client_state restore_client" where
  "http_restore_client env cl =
     \<lparr>rt_database = cn_database (cl_config cl),
      rt_create_database = create_database env cl,
      rt_restore_collection = (\<lambda>db. ClientOps.restore_collection env (with_database db cl)),
      rt_restore_data = (\<lambda>db. restore_data env (with_database db cl)),
      rt_create_index = (\<lambda>db. create_index env (with_database db cl)),
      rt_drop_view = (\<lambda>db. drop_view env (with_database db cl)),
      rt_create_view = (\<lambda>db. create_view env (with_database db cl))\<rparr>"

text \<open>An invariant of the client is one of every restore over it.\<close>

context request_invariant
begin

lemma restore_invariant: "restore_invariant (http_restore_client env cl) I"
proof
  fix c d
  assume c: "I c"
  note keep = any_perform_invariant [OF c]
  show "I (snd (rt_create_database (http_restore_client env cl) d c))"
    using keep [of "cn_database (cl_config cl)" "CreateDatabase d"]
    by (simp add: sibling_same http_restore_client_def)
  show "I (snd (rt_restore_collection (http_restore_client env cl) d ps is ow c))" for ps "is" ow
    using keep [of d "RestoreStructure ps is ow"] by (simp add: http_restore_client_def)
  show "I (snd (rt_restore_data (http_restore_client env cl) d n b c))" for n b
    using keep [of d "RestoreDocuments n b"] by (simp add: http_restore_client_def)
  show "I (snd (rt_create_index (http_restore_client env cl) d n i c))" for n i
    using keep [of d "CreateIndex n i"] by (simp add: http_restore_client_def)
  show "I (snd (rt_drop_view (http_restore_client env cl) d n c))" for n
    using keep [of d "DropView n"] by (simp add: http_restore_client_def)
  show "I (snd (rt_create_view (http_restore_client env cl) d v c))" for v
    using keep [of d "CreateView v"] by (simp add: http_restore_client_def)
qed

end

sublocale request_invariant \<subseteq> restoring: restore_invariant "http_restore_client env cl" I
  by (rule restore_invariant)

section \<open>Accepted requests\<close>

text \<open>The server answered, with success, the request with this path, these parameters and this body.\<close>

definition accepted ::
  "'w http_env \<Rightarrow> client \<Rightarrow> http_method \<Rightarrow> string \<Rightarrow> (string \<times> string) list \<Rightarrow> bytes \<Rightarrow> 'w client_state \<Rightarrow> bool"
where
  "accepted env cl m path q b st \<longleftrightarrow> (\<exists>t rq rp. (t, rq, Inr rp) \<in> set (cs_log st) \<and> is_success (rp_status rp)
     \<and> rq_method rq = m \<and> url_for env cl path = Inr (rq_url rq) \<and> rq_query rq = q \<and> rq_body rq = Some b)"

lemma extends_response: "extends (attempt_response env cl m url ct b)"
  unfolding attempt_response_def by (intro extends_bind extends_auth extends_transmit)

interpretation accepting: request_invariant env "accepted env c m path q b" cl
  for env :: "'w http_env" and c m path q b cl
proof
  show "accepted env c m path q b st1"
    if "accepted env c m path q b st" "cs_log st1 = cs_log st" for st st1 :: "'w client_state"
    using that by (simp add: accepted_def)
  show "act_keeps (accepted env c m path q b) (attempt_response env cl m1 (u, q1) ct b1)" for m1 u q1 ct b1
    unfolding act_keeps_def accepted_def using extendsD [OF extends_response] by fastforce
qed

lemma accepted_body:
  assumes "act_bind (act_lift (url_for env cl path)) (\<lambda>url.
      act_bind (retried env cl (send_body env cl m (url, q) ct b)) (\<lambda>_. act_return ())) st = (Inr u, st1)"
  shows "accepted env cl m path q b st1"
proof -
  obtain url x where url: "url_for env cl path = Inr url"
    and run: "retried env cl (send_body env cl m (url, q) ct b) st = (Inr x, st1)"
    using assms by (auto simp: act_bind_Inr)
  have "answered (\<lambda>rq rp x. asks m (url, q) (Some ct) (Some b) rq \<and> x = rp_body rp)
      (retried env cl (send_body env cl m (url, q) ct b))"
    by (intro answered_retried answered_send_body)
  then show ?thesis using run url unfolding answered_def accepted_def asks_def by fastforce
qed

lemma accepted_done:
  assumes "done_by env cl m path (Some b) st = (Inr u, st1)"
  shows "accepted env cl m path [] b st1"
proof -
  obtain x where "execute env cl m path (Some b) st = (Inr x, st1)"
    using assms by (auto simp: done_by_def act_bind_Inr)
  then show ?thesis using answered_execute [of env cl m path "Some b"]
    unfolding answered_def accepted_def asks_path_def by fastforce
qed

lemma restore_requests_accepted:
  "restore_data env cl coll b st = (Inr u, st1)
    \<Longrightarrow> accepted env cl PUT ''/_api/replication/restore-data'' [(''collection'', coll)] b st1"
  "create_index env cl coll i st = (Inr u, st1)
    \<Longrightarrow> accepted env cl POST ''/_api/index'' [(''collection'', coll)] (hx_encode env i) st1"
  "ClientOps.restore_collection env cl ps is ow st = (Inr u, st1)
    \<Longrightarrow> accepted env cl PUT (''/_api/replication/restore-collection?overwrite='' @ bool_text ow) []
      (hx_encode env (json_object [(''parameters'', ps), (''indexes'', JArray is)])) st1"
  "create_view env cl v st = (Inr u, st1)
    \<Longrightarrow> accepted env cl POST ''/_api/view'' [] (hx_encode env (view_body v)) st1"
  unfolding restore_data_def create_index_def ClientOps.restore_collection_def create_view_def
  by (rule accepted_body accepted_done, assumption)+

section \<open>A restore that succeeds\<close>

lemma ask_Inr: "ask f st = (Inr x, st1) \<longleftrightarrow> (\<exists>c. f (r_server st) = (Inr x, c) \<and> st1 = st\<lparr>r_server := c\<rparr>)"
  by (auto simp: ask_def Let_def split: prod.splits)

lemma recovered_Inr:
  "(case p of (Inr u, t) \<Rightarrow> (Inr u, t) | (Inl err, t) \<Rightarrow> (Inl (f err), t)) = (Inr x, st1) \<longleftrightarrow> p = (Inr x, st1)"
  by (auto split: prod.splits sum.splits)

text \<open>What every element establishes and no element breaks holds for all of them in the end.\<close>

lemma act_all_gives:
  assumes "act_all f xs st = (Inr u, st1)"
    and "\<And>x st st1. x \<in> set xs \<Longrightarrow> f x st = (Inr (), st1) \<Longrightarrow> Q x st1"
    and "\<And>x y. act_keeps (Q x) (f y)"
  shows "\<forall>x \<in> set xs. Q x st1"
  using assms(1,2)
proof (induction xs arbitrary: st)
  case (Cons x xs)
  obtain st2 where run: "f x st = (Inr (), st2)" "act_all f xs st2 = (Inr u, st1)"
    using Cons.prems(1) by (auto simp: act_bind_Inr)
  have "Q x st2" using Cons.prems(2) run(1) by simp
  then have "Q x st1" by (rule act_keepsD [OF act_keeps_all [OF assms(3)] _ run(2)])
  then show ?case using Cons.IH [OF run(2)] Cons.prems(2) by auto
qed simp

lemma http_restore_simps [simp]:
  "rt_create_database (http_restore_client env cl) = create_database env cl"
  "rt_restore_collection (http_restore_client env cl) db = ClientOps.restore_collection env (with_database db cl)"
  "rt_restore_data (http_restore_client env cl) db = restore_data env (with_database db cl)"
  "rt_create_index (http_restore_client env cl) db = create_index env (with_database db cl)"
  "rt_drop_view (http_restore_client env cl) db = drop_view env (with_database db cl)"
  "rt_create_view (http_restore_client env cl) db = create_view env (with_database db cl)"
  by (simp_all add: http_restore_client_def)

text \<open>The client on the database of a unit, and what it means that the server has the unit.\<close>

definition unit_client :: "'w http_env \<Rightarrow> client \<Rightarrow> 'k restore_options \<Rightarrow> string option \<Rightarrow> client" where
  "unit_client env cl opts db = with_database (unit_database (http_restore_client env cl) opts db) cl"

definition structure_accepted ::
  "'w http_env \<Rightarrow> client \<Rightarrow> 'k restore_options \<Rightarrow> collection_group \<times> structure_doc \<Rightarrow> 'w client_state \<Rightarrow> bool"
where
  "structure_accepted env cl opts u c \<longleftrightarrow>
     accepted env (unit_client env cl opts (cg_database (fst u))) PUT
       (''/_api/replication/restore-collection?overwrite='' @ bool_text (ro_overwrite opts)) []
       (hx_encode env (json_object [(''parameters'', st_parameters (snd u)), (''indexes'', JArray [])])) c"

definition page_accepted ::
  "'w http_env \<Rightarrow> client \<Rightarrow> dump_source \<Rightarrow> manifest \<Rightarrow> string \<Rightarrow> string \<Rightarrow> 'w client_state \<Rightarrow> bool"
where
  "page_accepted env cl src m name p c \<longleftrightarrow> (\<exists>b. read_data src p m = Inr b
     \<and> accepted env cl PUT ''/_api/replication/restore-data'' [(''collection'', name)] b c)"

definition index_accepted :: "'w http_env \<Rightarrow> client \<Rightarrow> string \<Rightarrow> json \<Rightarrow> 'w client_state \<Rightarrow> bool" where
  "index_accepted env cl name i c \<longleftrightarrow>
     accepted env cl POST ''/_api/index'' [(''collection'', name)] (hx_encode env i) c"

definition data_accepted ::
  "'w http_env \<Rightarrow> client \<Rightarrow> dump_source \<Rightarrow> manifest \<Rightarrow> 'k restore_options \<Rightarrow> collection_group \<times> structure_doc
   \<Rightarrow> 'w client_state \<Rightarrow> bool"
where
  "data_accepted env cl src m opts u c \<longleftrightarrow> (let db = unit_client env cl opts (cg_database (fst u)) in
     (\<forall>p \<in> set (cg_data_paths (fst u)). page_accepted env db src m (cg_name (fst u)) p c)
     \<and> (\<forall>i \<in> set (st_indexes (snd u)). \<not> implicit_index i \<longrightarrow> index_accepted env db (cg_name (fst u)) i c))"

definition view_accepted ::
  "'w http_env \<Rightarrow> client \<Rightarrow> 'k restore_options \<Rightarrow> view_artifact_doc \<Rightarrow> 'w client_state \<Rightarrow> bool"
where
  "view_accepted env cl opts v c \<longleftrightarrow> accepted env (unit_client env cl opts (va_database v)) POST ''/_api/view'' []
     (hx_encode env (view_body (va_definition v))) c"

lemmas accepted_units = structure_accepted_def page_accepted_def index_accepted_def data_accepted_def view_accepted_def

text \<open>Each of them stays, whatever else the restore asks.\<close>

lemma accepted_stays:
  assumes "\<And>c m path q b. act_keeps (\<lambda>st. accepted env c m path q b (r_server st)) f"
  shows "act_keeps (\<lambda>st. structure_accepted env cl opts u (r_server st)) f"
    "act_keeps (\<lambda>st. page_accepted env d src m name p (r_server st)) f"
    "act_keeps (\<lambda>st. \<not> implicit_index i \<longrightarrow> index_accepted env d name i (r_server st)) f"
    "act_keeps (\<lambda>st. data_accepted env cl src m opts u (r_server st)) f"
    "act_keeps (\<lambda>st. view_accepted env cl opts v (r_server st)) f"
  using assms unfolding act_keeps_def accepted_units Let_def by blast+

lemmas kept_by = accepting.restoring.serves_asks [unfolded accepting.restoring.serves_def [abs_def]]
lemmas kept_by_steps =
  accepting.restoring.serves_create [unfolded accepting.restoring.serves_def [abs_def]]
  accepting.restoring.serves_view [unfolded accepting.restoring.serves_def [abs_def]]
  accepting.restoring.serves_step [unfolded accepting.restoring.serves_def [abs_def]]

lemma load_accepted:
  assumes "load_collection_data (http_restore_client env cl) src m (unit_database (http_restore_client env cl) opts (cg_database g)) g s st
      = (Inr u, st1)"
  shows "data_accepted env cl src m opts (g, s) (r_server st1)"
proof -
  let ?db = "unit_client env cl opts (cg_database g)"
  let ?page = "\<lambda>p. act_bind (act_lift (read_data src p m)) (\<lambda>b. ask (restore_data env ?db (cg_name g) b))"
  let ?index = "\<lambda>i. if implicit_index i then act_return () else ask (create_index env ?db (cg_name g) i)"
  obtain st2 where pages: "act_all ?page (cg_data_paths g) st = (Inr (), st2)"
    and indexes: "act_all ?index (st_indexes s) st2 = (Inr u, st1)"
    using assms unfolding load_collection_data_def http_restore_simps unit_client_def by (auto simp: act_bind_Inr)
  note page1 = kept_by(3) [of _ _ _ _ _ _ cl, simplified] and index1 = kept_by(4) [of _ _ _ _ _ _ cl, simplified]
  have page: "act_keeps (\<lambda>t. accepted env c mm path q b (r_server t)) (?page p)" for c mm path q b p
    unfolding unit_client_def by (intro act_intros page1)
  have index: "act_keeps (\<lambda>t. accepted env c mm path q b (r_server t)) (?index i)" for c mm path q b i
    unfolding unit_client_def by (cases "implicit_index i") (simp_all add: index1 act_keeps_basic)
  have "\<forall>p \<in> set (cg_data_paths g). page_accepted env ?db src m (cg_name g) p (r_server st2)"
    by (rule act_all_gives [OF pages _ accepted_stays(2) [OF page]])
      (auto simp: act_bind_Inr ask_Inr page_accepted_def dest: restore_requests_accepted(1))
  moreover have "\<forall>i \<in> set (st_indexes s). \<not> implicit_index i \<longrightarrow> index_accepted env ?db (cg_name g) i (r_server st1)"
    by (rule act_all_gives [OF indexes _ accepted_stays(3) [OF index]])
      (auto simp: ask_Inr index_accepted_def dest: restore_requests_accepted(2) split: if_splits)
  moreover have "page_accepted env ?db src m (cg_name g) p (r_server st1)"
    if "page_accepted env ?db src m (cg_name g) p (r_server st2)" for p
    by (rule act_keepsD [OF act_keeps_all [OF accepted_stays(2) [OF index]] that indexes])
  ultimately show ?thesis by (simp add: data_accepted_def Let_def)
qed

lemma step_accepted:
  assumes "ro_checkpoint opts = None"
  shows "create_collection (http_restore_client env cl) opts u st = (Inr x, st1)
      \<Longrightarrow> structure_accepted env cl opts u (r_server st1)"
    and "data_step (http_restore_client env cl) src ser opts m u st = (Inr x, st1)
      \<Longrightarrow> data_accepted env cl src m opts u (r_server st1)"
    and "view_step (http_restore_client env cl) show_error ser opts v st = (Inr x, st1)
      \<Longrightarrow> view_accepted env cl opts v (r_server st1)"
proof -
  note none = unit_done_def assms
  show "create_collection (http_restore_client env cl) opts u st = (Inr x, st1)
      \<Longrightarrow> structure_accepted env cl opts u (r_server st1)"
    by (auto simp: create_collection_def none ask_Inr structure_accepted_def unit_client_def
        dest: restore_requests_accepted(3) split: prod.splits)
  show "data_accepted env cl src m opts u (r_server st1)"
    if run: "data_step (http_restore_client env cl) src ser opts m u st = (Inr x, st1)"
  proof -
    obtain st2 where "load_collection_data (http_restore_client env cl) src m
        (unit_database (http_restore_client env cl) opts (cg_database (fst u))) (fst u) (snd u) st = (Inr (), st2)"
      "r_server st1 = r_server st2"
      using run by (auto simp: data_step_def none act_bind_Inr record_unit_def split: prod.splits)
    then show ?thesis using load_accepted by fastforce
  qed
  show "view_accepted env cl opts v (r_server st1)"
    if run: "view_step (http_restore_client env cl) show_error ser opts v st = (Inr x, st1)"
  proof -
    obtain st2 where "restore_view (http_restore_client env cl) show_error opts v st = (Inr (), st2)"
      "r_server st1 = r_server st2"
      using run by (auto simp: view_step_def none act_bind_Inr record_unit_def)
    then show ?thesis
      by (auto simp: restore_view_def Let_def act_bind_Inr recovered_Inr ask_Inr view_accepted_def unit_client_def
          dest: restore_requests_accepted(4))
  qed
qed

lemma phases_accepted:
  assumes "ro_checkpoint opts = None"
    and "run_phases (http_restore_client env cl) src show_error ser opts m us vs st = (Inr x, st1)"
  shows "(\<forall>u \<in> set us. structure_accepted env cl opts u (r_server st1) \<and> data_accepted env cl src m opts u (r_server st1))
    \<and> (\<forall>v \<in> set vs. view_accepted env cl opts v (r_server st1))"
proof -
  let ?c = "http_restore_client env cl"
  let ?views = "act_all (view_step ?c show_error ser opts)"
  obtain st2 st3 st4 where run: "act_all (create_collection ?c opts) us st = (Inr (), st2)"
    "?views (filter (\<lambda>v. \<not> is_search_alias v) vs) st2 = (Inr (), st3)"
    "act_all (data_step ?c src ser opts m) us st3 = (Inr (), st4)"
    "?views (filter is_search_alias vs) st4 = (Inr x, st1)"
    using assms(2) by (auto simp: run_phases_def act_bind_Inr)
  note first = kept_by_steps(1) and second = kept_by_steps(2) and third = kept_by_steps(3)
  note views = act_keeps_all [OF accepted_stays(1) [OF second]] act_keeps_all [OF accepted_stays(4) [OF second]]
    act_keeps_all [OF accepted_stays(5) [OF second]]
  have "\<forall>u \<in> set us. structure_accepted env cl opts u (r_server st2)"
    by (rule act_all_gives [OF run(1) step_accepted(1) [OF assms(1)] accepted_stays(1) [OF first]])
  moreover have "structure_accepted env cl opts u (r_server st1)" if "structure_accepted env cl opts u (r_server st2)" for u
    using that act_keepsD [OF views(1) _ run(2)] act_keepsD [OF act_keeps_all [OF accepted_stays(1) [OF third]] _ run(3)]
      act_keepsD [OF views(1) _ run(4)] by blast
  moreover have "\<forall>v \<in> set (filter (\<lambda>v. \<not> is_search_alias v) vs). view_accepted env cl opts v (r_server st3)"
    by (rule act_all_gives [OF run(2) step_accepted(3) [OF assms(1)] accepted_stays(5) [OF second]])
  moreover have "view_accepted env cl opts v (r_server st1)" if "view_accepted env cl opts v (r_server st3)" for v
    using that act_keepsD [OF act_keeps_all [OF accepted_stays(5) [OF third]] _ run(3)]
      act_keepsD [OF views(3) _ run(4)] by blast
  moreover have "\<forall>u \<in> set us. data_accepted env cl src m opts u (r_server st4)"
    by (rule act_all_gives [OF run(3) step_accepted(2) [OF assms(1)] accepted_stays(4) [OF third]])
  moreover have "data_accepted env cl src m opts u (r_server st1)" if "data_accepted env cl src m opts u (r_server st4)" for u
    by (rule act_keepsD [OF views(2) that run(4)])
  moreover have "\<forall>v \<in> set (filter is_search_alias vs). view_accepted env cl opts v (r_server st1)"
    by (rule act_all_gives [OF run(4) step_accepted(3) [OF assms(1)] accepted_stays(5) [OF second]])
  ultimately show ?thesis by auto
qed

text \<open>
  C14: a restore over HTTP that reports success has everything on the server: for every collection
  of the dump the server answered with success the request that creates it from its structure, a
  request with exactly the bytes of every data artifact as they are read from the dump, and one
  for every index that is not implicit, all on the database of that collection; and for every
  view the request that creates it.  This is a run without a checkpoint, whatever retries and new
  tokens it took.
\<close>

theorem restore_over_http:
  assumes "run_restore (http_restore_client env cl) src show_error ser opts st = (Inr s, st1)"
    and "ro_checkpoint opts = None" "read_dump src = Inr (m, us, vs)"
  shows "(\<forall>u \<in> set us. structure_accepted env cl opts u (r_server st1) \<and> data_accepted env cl src m opts u (r_server st1))
    \<and> (\<forall>v \<in> set vs. view_accepted env cl opts v (r_server st1))"
proof -
  obtain st2 st3 where "run_phases (http_restore_client env cl) src show_error ser opts m (order_units us) vs st2 = (Inr (), st3)"
    "r_server st1 = r_server st3"
    using assms(1,3) by (auto simp: run_restore_def act_bind_Inr)
  from phases_accepted [OF assms(2) this(1)] this(2) show ?thesis by (simp add: order_units_def)
qed

text \<open>The small server accepts every request, so the small dump is restored to the end.\<close>

definition act_ok :: "('s, error, unit) act \<Rightarrow> bool" where
  "act_ok f \<longleftrightarrow> (\<forall>st. \<exists>st1. f st = (Inr (), st1))"

lemma act_ok_basic: "act_ok (act_return ())" "(\<And>c. \<exists>c1. f c = (Inr (), c1)) \<Longrightarrow> act_ok (ask f)"
  unfolding act_ok_def by (simp_all add: ask_Inr)

lemma act_ok_bind: "act_ok f \<Longrightarrow> act_ok g \<Longrightarrow> act_ok (act_bind f (\<lambda>_. g))"
  unfolding act_ok_def by (metis (mono_tags) act_bind_Inr)

lemma act_ok_all: "(\<And>x. act_ok (f x)) \<Longrightarrow> act_ok (act_all f xs)"
  by (induction xs) (auto intro: act_ok_basic act_ok_bind)

abbreviation small_http_client :: client where
  "small_http_client \<equiv> tiny_http_client\<lparr>cl_config := connection_default\<rparr>"

lemma small_http_accepts:
  "fst (restore_data tiny_http (with_database db small_http_client) coll b st) = Inr ()"
  "fst (create_index tiny_http (with_database db small_http_client) coll i st) = Inr ()"
  "fst (ClientOps.restore_collection tiny_http (with_database db small_http_client) ps is ow st) = Inr ()"
  "fst (create_view tiny_http (with_database db small_http_client) v st) = Inr ()"
  "fst (drop_view tiny_http (with_database db small_http_client) n st) = Inr ()"
  "fst (create_database tiny_http small_http_client db st) = Inr ()"
  by (simp_all add: restore_data_def create_index_def ClientOps.restore_collection_def create_view_def drop_view_def
      create_database_def done_by_def gone_by_def send_body_def attempt_body_def joined_def with_database_def tiny_defs)

lemma small_http_asks:
  "act_ok (ask (rt_create_database (http_restore_client tiny_http small_http_client) db))"
  "act_ok (ask (rt_restore_collection (http_restore_client tiny_http small_http_client) db ps is ow))"
  "act_ok (ask (rt_restore_data (http_restore_client tiny_http small_http_client) db coll b))"
  "act_ok (ask (rt_create_index (http_restore_client tiny_http small_http_client) db coll i))"
  "act_ok (ask (rt_drop_view (http_restore_client tiny_http small_http_client) db n))"
  "act_ok (ask (rt_create_view (http_restore_client tiny_http small_http_client) db v))"
  unfolding http_restore_simps by (rule act_ok_basic(2), metis small_http_accepts prod.collapse)+

definition small_http_options :: "unit restore_options" where
  "small_http_options = \<lparr>ro_overwrite = False, ro_create_database = Some ''copy'', ro_checkpoint = None\<rparr>"

definition small_http_state :: "(nat client_state, unit) restore_state" where
  "small_http_state = \<lparr>r_server = client_start 1000, r_ckstore = (), r_checkpoint = restore_checkpoint_new [], r_restored = 0,
     r_skipped = 0, r_views = 0, r_events = []\<rparr>"

lemma small_read: "\<exists>b. read_data (small_source ''none'') p m = Inr b"
  by (simp add: read_data_def read_object_def small_source_def res_simps split: option.split)

lemma small_http_phases:
  "act_ok (run_phases (http_restore_client tiny_http small_http_client) (small_source ''none'') (\<lambda>_. []) (\<lambda>_. Inr [])
     small_http_options m us vs)"
proof -
  let ?c = "http_restore_client tiny_http small_http_client"
  have fresh: "\<not> unit_done small_http_options st i" and rec1: "record_unit ser small_http_options i st = (Inr (), st)"
    for st :: "('c, unit) restore_state" and i ser
    by (simp_all add: unit_done_def record_unit_def small_http_options_def)
  have page: "act_ok (act_bind (act_lift (read_data (small_source ''none'') p m)) (\<lambda>b. ask (rt_restore_data ?c db n b)))" for p db n
  proof -
    obtain b where b: "read_data (small_source ''none'') p m = Inr b" using small_read by blast
    show ?thesis using small_http_asks(3) [of db n b] by (simp add: b act_ok_def act_bind_def)
  qed
  have index: "act_ok (if implicit_index i then act_return () else ask (rt_create_index ?c db n i))" for db n i
    by (cases "implicit_index i") (simp_all only: if_True if_False small_http_asks act_ok_basic)
  have load: "act_ok (load_collection_data ?c (small_source ''none'') m db g s)" for db g s
    unfolding load_collection_data_def by (intro act_ok_bind act_ok_all page index)
  have view: "act_ok (restore_view ?c (\<lambda>_. []) small_http_options v)" for v
    using small_http_asks(6) [of "unit_database ?c small_http_options (va_database v)" "va_definition v"]
    by (simp add: act_ok_def restore_view_def Let_def act_bind_Inr recovered_Inr small_http_options_def)
  show ?thesis
    unfolding run_phases_def
  proof (intro act_ok_bind act_ok_all)
    show "act_ok (create_collection ?c small_http_options u)" for u
      using small_http_asks(2) [of "unit_database ?c small_http_options (cg_database (fst u))" "st_parameters (snd u)" "[]"
          "ro_overwrite small_http_options"]
      by (cases u) (simp add: act_ok_def create_collection_def fresh)
    show "act_ok (view_step ?c (\<lambda>_. []) (\<lambda>_. Inr []) small_http_options v)" for v
      using view [of v] by (auto simp: act_ok_def view_step_def fresh rec1 act_bind_Inr)
    show "act_ok (data_step ?c (small_source ''none'') (\<lambda>_. Inr []) small_http_options m u)" for u
      using load [of "unit_database ?c small_http_options (cg_database (fst u))" "fst u" "snd u"]
      by (cases u) (auto simp: act_ok_def data_step_def fresh rec1 act_bind_Inr)
    show "act_ok (view_step ?c (\<lambda>_. []) (\<lambda>_. Inr []) small_http_options v)" for v
      using view [of v] by (auto simp: act_ok_def view_step_def fresh rec1 act_bind_Inr)
  qed
qed

lemma small_http_restore:
  "\<exists>s st1. run_restore (http_restore_client tiny_http small_http_client) (small_source ''none'') (\<lambda>_. []) (\<lambda>_. Inr [])
     small_http_options small_http_state = (Inr s, st1)"
proof -
  obtain m us vs where d: "read_dump (small_source ''none'') = Inr (m, us, vs)" by (rule small_dumpE)
  have c: "open_checkpoint (small_source ''none'') small_http_options fp k = Inr (restore_checkpoint_new fp)" for fp k
    by (simp add: open_checkpoint_def small_http_options_def)
  obtain st1 where "act_all (\<lambda>d. ask (rt_create_database (http_restore_client tiny_http small_http_client) d))
      (target_databases small_http_options us) small_http_state = (Inr (), st1)"
    using act_ok_all [of "\<lambda>d. ask (rt_create_database (http_restore_client tiny_http small_http_client) d)"] small_http_asks(1)
    unfolding act_ok_def by blast
  moreover obtain st2 where "run_phases (http_restore_client tiny_http small_http_client) (small_source ''none'') (\<lambda>_. [])
      (\<lambda>_. Inr []) small_http_options m (order_units us) vs
      (st1\<lparr>r_checkpoint := restore_checkpoint_new (fingerprint m), r_restored := 0, r_skipped := 0, r_views := 0\<rparr>) = (Inr (), st2)"
    using small_http_phases unfolding act_ok_def by blast
  ultimately show ?thesis by (simp add: run_restore_def act_bind_def d c)
qed

lemma small_units:
  "case read_dump (small_source ''none'') of
     Inr (m, us, vs) \<Rightarrow> list_ex (\<lambda>u. cg_name (fst u) = ''users'' \<and> cg_database (fst u) = None
       \<and> cg_data_paths (fst u) = [''users.data.jsonl'']) us
   | Inl _ \<Rightarrow> False"
  by code_simp

lemma restore_over_http_witness:
  "\<exists>(st1 :: (nat client_state, unit) restore_state) m. page_accepted tiny_http
     (unit_client tiny_http small_http_client small_http_options None) (small_source ''none'') m ''users''
     ''users.data.jsonl'' (r_server st1)"
proof -
  obtain m us vs where d: "read_dump (small_source ''none'') = Inr (m, us, vs)" by (rule small_dumpE)
  obtain s and st1 :: "(nat client_state, unit) restore_state" where run:
    "run_restore (http_restore_client tiny_http small_http_client) (small_source ''none'') (\<lambda>_. []) (\<lambda>_. Inr [])
       small_http_options small_http_state = (Inr s, st1)"
    using small_http_restore by blast
  have none: "ro_checkpoint small_http_options = None" by (simp add: small_http_options_def)
  obtain u where u: "u \<in> set us" "cg_name (fst u) = ''users''" "cg_database (fst u) = None"
    "cg_data_paths (fst u) = [''users.data.jsonl'']"
    using small_units by (auto simp: d list_ex_iff)
  have "data_accepted tiny_http small_http_client (small_source ''none'') m small_http_options u (r_server st1)"
    using restore_over_http [OF run none d] u(1) by blast
  then have "page_accepted tiny_http (unit_client tiny_http small_http_client small_http_options None) (small_source ''none'')
      m ''users'' ''users.data.jsonl'' (r_server st1)"
    using u(2-4) by (simp add: data_accepted_def Let_def)
  then show ?thesis by blast
qed

end
