(* ===== verification/Cli.thy ===== *)
theory Cli
  imports ImportSend Columns Edge
begin

text \<open>
  The commands of \<open>arangodb-tools-cli\<close> up to the point where they hand over to the job crates:
  connection and credentials (\<open>connection.rs\<close>), locations and codecs (\<open>mod.rs\<close>), the settings of an
  import, an export, a dump, a restore and an RDF import, and the \<open>graph\<close> commands.  Arguments are
  records with the fields the commands read; environment variables and files are the record
  \<open>cli_env\<close>.
\<close>

section \<open>Connection\<close>

datatype auth_mode = BasicMode | JwtMode

record connection_args =
  ca_endpoint :: string
  ca_database :: string
  ca_username :: "string option"
  ca_password_env :: "string option"
  ca_auth_token_env :: "string option"
  ca_jwt_secret_file :: "string option"
  ca_jwt_secret_env :: "string option"
  ca_auth :: auth_mode
  ca_tls_ca :: "string option"
  ca_insecure :: bool
  ca_request_timeout_secs :: nat
  ca_max_retries :: nat
  ca_max_retry_delay_secs :: nat

record cli_env =
  ce_var :: "string \<Rightarrow> string option"
  ce_read :: "string \<Rightarrow> string + string"

definition read_env :: "cli_env \<Rightarrow> string \<Rightarrow> string res" where
  "read_env ce var = ok_or (Config (''environment variable '' @ quoted var @ '' is not set'')) (ce_var ce var)"

definition trim_newlines :: "string \<Rightarrow> string" where
  "trim_newlines s = rev (dropWhile (\<lambda>c. c = CHR 0x0A \<or> c = CHR 0x0D) (rev s))"

definition credential_sources :: "connection_args \<Rightarrow> string list" where
  "credential_sources a =
     (if ca_auth_token_env a \<noteq> None then [''--auth-token-env''] else [])
     @ (if ca_jwt_secret_file a \<noteq> None then [''--jwt-secret-file''] else [])
     @ (if ca_jwt_secret_env a \<noteq> None then [''--jwt-secret-env''] else [])
     @ (if ca_username a \<noteq> None then [''--username''] else [])"

definition cli_apply_auth :: "cli_env \<Rightarrow> connection_args \<Rightarrow> client_builder \<Rightarrow> client_builder res" where
  "cli_apply_auth ce a b =
     (if length (credential_sources a) > 1 then
        Inl (Config (''conflicting authentication options: '' @ join '', '' (credential_sources a)
          @ ''. Choose exactly one of: --username (with --password-env, optionally --auth jwt), ''
          @ ''--jwt-secret-file / --jwt-secret-env (superuser JWT), or --auth-token-env (a token you already hold).''))
      else if ca_auth a = JwtMode \<and> ca_username a = None then
        Inl (Config (''--auth jwt requires --username (it logs in at POST /_open/auth). To use the server''
          @ [CHR 0x27] @ ''s JWT secret instead, pass --jwt-secret-file or --jwt-secret-env; to use a token ''
          @ ''you already hold, pass --auth-token-env.''))
      else case ca_auth_token_env a of
        Some var \<Rightarrow> try_res (read_env ce var) (\<lambda>t. Inr (bearer_auth t b))
      | None \<Rightarrow>
      (case ca_jwt_secret_file a of
        Some path \<Rightarrow>
          (case ce_read ce path of
             Inl err \<Rightarrow> Inl (Config (''cannot read JWT secret file '' @ quoted path @ '': '' @ err))
           | Inr secret \<Rightarrow> Inr (jwt_secret (trim_newlines secret) b))
      | None \<Rightarrow>
      (case ca_jwt_secret_env a of
        Some var \<Rightarrow> try_res (read_env ce var) (\<lambda>s. Inr (jwt_secret s b))
      | None \<Rightarrow>
      (case ca_username a of
        Some username \<Rightarrow>
          try_res (case ca_password_env a of Some var \<Rightarrow> read_env ce var | None \<Rightarrow> Inr []) (\<lambda>password.
            Inr (case ca_auth a of
                   BasicMode \<Rightarrow> basic_auth username password b
                 | JwtMode \<Rightarrow> jwt_login username password b))
      | None \<Rightarrow> Inr b))))"

definition cli_retry_policy :: "connection_args \<Rightarrow> retry_policy" where
  "cli_retry_policy a = retry_policy_default\<lparr>max_attempts := max (ca_max_retries a) 1,
     max_delay := max (ca_max_retry_delay_secs a) 1 * 10 ^ 9, has_stats := True\<rparr>"

definition build_client :: "'w http_env \<Rightarrow> cli_env \<Rightarrow> connection_args \<Rightarrow> client res" where
  "build_client env ce a =
     (let b0 = set_retry (cli_retry_policy a) (set_request_timeout (ca_request_timeout_secs a)
                 (set_insecure (ca_insecure a) (set_database (ca_database a) (set_endpoint (ca_endpoint a) builder_new))))
      in try_res (cli_apply_auth ce a b0) (\<lambda>b.
           client_build env
             (case ca_tls_ca a of
                Some ca \<Rightarrow> set_tls \<lparr>tls_verify = \<not> ca_insecure a, tls_ca_file = Some ca\<rparr> b
              | None \<Rightarrow> b)))"

section \<open>Locations and codecs\<close>

text \<open>\<open>trim_start_matches\<close> with a text: every copy at the start goes.\<close>

function strip_starts :: "string \<Rightarrow> string \<Rightarrow> string" where
  "strip_starts p s =
     (case strip_prefix p s of
        Some r \<Rightarrow> if p = [] then s else strip_starts p r
      | None \<Rightarrow> s)"
  by pat_completeness auto
termination
  by (relation "measure (\<lambda>(p, s). length s)") (auto simp: strip_prefix_Some)

declare strip_starts.simps [simp del]

text \<open>
  \<open>Path::parent\<close> where there is a file name, or \<open>"."\<close> for an empty one: the text before the last
  component without trailing separators.  A \<open>"."\<close> at the end of it is dropped as well; it names
  the same directory.
\<close>

definition parent_dir :: "string \<Rightarrow> string" where
  "parent_dir path =
     (let skip = dropWhile (\<lambda>c. c = [] \<or> c = ''.'');
          before = rev (skip (tl (skip (rev (path_segments path)))));
          text1 = join ''/'' before
      in if text1 \<noteq> [] then text1
         else if (case path of c # _ \<Rightarrow> c = CHR ''/'' | [] \<Rightarrow> False) then ''/'' else ''.'')"

text \<open>A store is a local directory or what the builder of the cloud backend gives.\<close>

type_synonym 'b opened = "string + 'b"

definition open_local_object :: "string \<Rightarrow> ('b opened \<times> object_path) res" where
  "open_local_object path =
     (case file_name path of
        None \<Rightarrow> Inl (Config (''path has no file name: '' @ path))
      | Some name \<Rightarrow> Inr (Inl (parent_dir path), path_new name))"

definition open_store_root :: "(storage_uri \<Rightarrow> string option \<Rightarrow> 'b res) \<Rightarrow> string \<Rightarrow> 'b opened res" where
  "open_store_root build location =
     (case split_once_str ''://'' location of
        Some (scheme, _) \<Rightarrow>
          if scheme = ''file'' then Inr (Inl (strip_starts ''file://'' location))
          else try_res (storage_uri_parse location) (\<lambda>u. try_res (build u (os_for_prefix u)) (\<lambda>b. Inr (Inr b)))
      | None \<Rightarrow> Inr (Inl location))"

definition open_object ::
  "(storage_uri \<Rightarrow> string option \<Rightarrow> 'b res) \<Rightarrow> string \<Rightarrow> ('b opened \<times> object_path) res"
where
  "open_object build location =
     (case split_once_str ''://'' location of
        Some (scheme, _) \<Rightarrow>
          if scheme = ''file'' then open_local_object (strip_starts ''file://'' location)
          else try_res (storage_uri_parse location) (\<lambda>u.
               try_res (build u (os_for_bucket u)) (\<lambda>b. Inr (Inr b, path_new (u_path u))))
      | None \<Rightarrow> open_local_object location)"

text \<open>\<open>open_input\<close>: standard input, files and object streams are parameters.\<close>

definition open_local_file :: "(string \<Rightarrow> string + byte_stream) \<Rightarrow> string \<Rightarrow> byte_stream res" where
  "open_local_file open_file path =
     (case open_file path of
        Inl err \<Rightarrow> Inl (Config (''cannot open input '' @ quoted path @ '': '' @ err))
      | Inr s \<Rightarrow> Inr s)"

definition open_input ::
  "(storage_uri \<Rightarrow> string option \<Rightarrow> 'b res) \<Rightarrow> byte_stream \<Rightarrow> (string \<Rightarrow> string + byte_stream)
   \<Rightarrow> ('b opened \<Rightarrow> object_path \<Rightarrow> byte_stream res) \<Rightarrow> string \<Rightarrow> byte_stream res"
where
  "open_input build stdin_stream open_file get_stream input =
     (if input = ''-'' then Inr stdin_stream
      else case split_once_str ''://'' input of
        Some (scheme, _) \<Rightarrow>
          if scheme = ''file'' then open_local_file open_file (strip_starts ''file://'' input)
          else try_res (open_object build input) (\<lambda>(store, p). get_stream store p)
      | None \<Rightarrow> open_local_file open_file input)"

datatype compression_arg = AutoCompression | ArgNone | ArgGzip | ArgZstd

fun compression_resolve :: "compression_arg \<Rightarrow> string \<Rightarrow> codec" where
  "compression_resolve ArgNone location = CodecNone"
| "compression_resolve ArgGzip location = CodecGzip"
| "compression_resolve ArgZstd location = CodecZstd"
| "compression_resolve AutoCompression location = (if location = ''-'' then CodecNone else infer_codec location)"

section \<open>Import\<close>

text \<open>\<open>unwrap_or\<close>.\<close>

definition given :: "'a \<Rightarrow> 'a option \<Rightarrow> 'a" where
  "given d v = (case v of Some x \<Rightarrow> x | None \<Rightarrow> d)"

definition resolve_import_format :: "string option \<Rightarrow> string \<Rightarrow> import_format res" where
  "resolve_import_format explicit input =
     (case explicit of
        Some name \<Rightarrow> ok_or (Config (''unknown import format '' @ quoted name
            @ ''; expected one of jsonl, ndjson, json, csv, tsv''))
            (import_format_from_extension (to_ascii_lowercase name))
      | None \<Rightarrow>
          if input = ''-'' then Inl (Config ''reading from stdin requires an explicit --format'')
          else import_format_infer input)"

record import_args =
  ia_connection :: connection_args
  ia_collection :: string
  ia_input :: string
  ia_format :: "string option"
  ia_compression :: compression_arg
  ia_create_collection :: bool
  ia_edge :: bool
  ia_on_duplicate :: on_duplicate
  ia_overwrite :: bool
  ia_datatype :: "string list"
  ia_translate :: "string list"
  ia_merge_attributes :: "string list"
  ia_remove_attribute :: "string list"
  ia_from_prefix :: "string option"
  ia_to_prefix :: "string option"
  ia_batch_size_bytes :: nat
  ia_max_docs :: nat
  ia_threads :: "nat option"
  ia_max_in_flight_bytes :: nat
  ia_no_adaptive :: bool

definition import_options_of :: "import_args \<Rightarrow> import_options" where
  "import_options_of a = (import_options_new (ia_collection a))\<lparr>io_on_duplicate := ia_on_duplicate a,
     io_overwrite := ia_overwrite a, io_from_prefix := ia_from_prefix a, io_to_prefix := ia_to_prefix a\<rparr>"

definition transforms_empty :: "column_transforms \<Rightarrow> bool" where
  "transforms_empty t \<longleftrightarrow> ct_types t = Map.empty \<and> ct_renames t = Map.empty \<and> ct_merges t = [] \<and> ct_removals t = []"

record import_job =
  ij_client :: client
  ij_options :: import_options
  ij_batch :: batch_config
  ij_concurrency :: concurrency_config
  ij_format :: import_format
  ij_compression :: codec
  ij_input :: byte_stream
  ij_transforms :: column_transforms
  ij_edge :: bool

text \<open>\<open>run\<close> up to the pipeline; opening the input is a parameter.\<close>

definition import_setup ::
  "'w http_env \<Rightarrow> cli_env \<Rightarrow> (string \<Rightarrow> byte_stream res) \<Rightarrow> nat option \<Rightarrow> import_args \<Rightarrow> ('w, import_job) call"
where
  "import_setup env ce open_in available a =
     act_bind (act_lift (resolve_import_format (ia_format a) (ia_input a))) (\<lambda>fmt.
     act_bind (act_lift (build_client env ce (ia_connection a))) (\<lambda>cl.
     act_bind (if ia_create_collection a
               then ensure_collection env cl (ia_collection a) (if ia_edge a then EdgeKind else DocumentKind)
               else act_return ()) (\<lambda>_.
     act_bind (act_lift (open_in (ia_input a))) (\<lambda>raw.
     act_bind (act_lift (column_transforms_new (ia_datatype a) (ia_translate a) (ia_merge_attributes a)
                           (ia_remove_attribute a))) (\<lambda>ts.
       if \<not> transforms_empty ts \<and> fmt \<noteq> CsvFormat \<and> fmt \<noteq> TsvFormat then
         act_fail (Config (''--datatype, --translate, --merge-attributes and --remove-attribute apply to ''
           @ ''CSV/TSV input only; JSON and JSONL documents already carry their own attribute names and types''))
       else act_return \<lparr>ij_client = cl, ij_options = import_options_of a,
         ij_batch = \<lparr>max_bytes = ia_batch_size_bytes a, max_docs = ia_max_docs a\<rparr>,
         ij_concurrency = \<lparr>cc_workers = given (default_workers available) (ia_threads a),
           cc_max_in_flight_bytes = ia_max_in_flight_bytes a, cc_adaptive = \<not> ia_no_adaptive a\<rparr>,
         ij_format = fmt, ij_compression = compression_resolve (ia_compression a) (ia_input a),
         ij_input = raw, ij_transforms = ts, ij_edge = ia_edge a\<rparr>)))))"

text \<open>The edge check of a job, and its exit once the pipeline is done.\<close>

definition job_documents :: "import_job \<Rightarrow> json res list \<Rightarrow> json res list \<times> nat" where
  "job_documents j docs =
     (if ij_edge j
      then validate_edge_documents docs (io_from_prefix (ij_options j) \<noteq> None) (io_to_prefix (ij_options j) \<noteq> None)
      else (docs, 0))"

definition import_exit :: "import_summary \<Rightarrow> unit res" where
  "import_exit s =
     (if is_errors s > 0 then Inl (Config (dec (is_errors s) @ '' document(s) were rejected by the server'')) else Inr ())"

section \<open>Export\<close>

text \<open>The JSON parser is a parameter; its error is text.\<close>

definition build_request ::
  "(string \<Rightarrow> string + json) \<Rightarrow> string option \<Rightarrow> string option \<Rightarrow> string option \<Rightarrow> nat \<Rightarrow> cursor_request res"
where
  "build_request parse collection query bind_vars batch_size =
     (case (collection, query) of
        (Some c, None) \<Rightarrow> Inr (collection_query c batch_size)
      | (None, Some q) \<Rightarrow>
          (let request = with_batch_size batch_size (cursor_request_new q) in
           case bind_vars of
             Some b \<Rightarrow> (case parse b of
                 Inl err \<Rightarrow> Inl (Config (''invalid --bind-vars JSON: '' @ err))
               | Inr v \<Rightarrow> Inr (with_bind_vars v request))
           | None \<Rightarrow> Inr request)
      | (None, None) \<Rightarrow> Inl (Config ''one of --collection or --query is required'')
      | (Some _, Some _) \<Rightarrow> Inl (Config ''--collection and --query are mutually exclusive''))"

record export_args =
  ea_connection :: connection_args
  ea_collection :: "string option"
  ea_query :: "string option"
  ea_bind_vars :: "string option"
  ea_output :: string
  ea_format :: string
  ea_fields :: "string list"
  ea_compression :: compression_arg
  ea_batch_size :: nat
  ea_split_bytes :: "nat option"

record 'b export_job =
  ej_client :: client
  ej_request :: cursor_request
  ej_format :: export_format
  ej_fields :: "string list option"
  ej_compression :: codec
  ej_store :: "'b opened"
  ej_path :: object_path

definition export_fields :: "string list \<Rightarrow> string list option" where
  "export_fields fs = (if fs = [] then None else Some fs)"

text \<open>\<open>run\<close> up to the export; the manifest's header is only used by a split export.\<close>

definition export_setup ::
  "'w http_env \<Rightarrow> cli_env \<Rightarrow> (string \<Rightarrow> string + json) \<Rightarrow> (storage_uri \<Rightarrow> string option \<Rightarrow> 'b res) \<Rightarrow> export_args
   \<Rightarrow> 'b export_job res"
where
  "export_setup env ce parse build a =
     try_res (export_format_parse (ea_format a)) (\<lambda>fmt.
     try_res (build_request parse (ea_collection a) (ea_query a) (ea_bind_vars a) (ea_batch_size a)) (\<lambda>request.
     try_res (build_client env ce (ea_connection a)) (\<lambda>cl.
     try_res (open_object build (ea_output a)) (\<lambda>(store, p).
       Inr \<lparr>ej_client = cl, ej_request = request, ej_format = fmt, ej_fields = export_fields (ea_fields a),
            ej_compression = compression_resolve (ea_compression a) (ea_output a), ej_store = store, ej_path = p\<rparr>))))"

definition export_meta :: "string \<Rightarrow> string \<Rightarrow> export_args \<Rightarrow> manifest_meta" where
  "export_meta version now a =
     \<lparr>mm_database = ca_database (ea_connection a), mm_tool_version = version, mm_created_at = now,
      mm_source = (case ea_collection a of Some c \<Rightarrow> Some c | None \<Rightarrow> ea_query a)\<rparr>"

section \<open>Dump and restore\<close>

record dump_args =
  da_connection :: connection_args
  da_output :: string
  da_compression :: compression_arg
  da_include_system :: bool
  da_overwrite :: bool
  da_all_databases :: bool
  da_include_collections :: "string option"
  da_exclude_collections :: "string option"
  da_batch_ttl_secs :: nat

text \<open>The patterns are compiled by the regular expression library, a parameter.\<close>

definition filter_options_new ::
  "(string \<Rightarrow> string + (string \<Rightarrow> bool)) \<Rightarrow> string option \<Rightarrow> string option \<Rightarrow> filter_options res"
where
  "filter_options_new regex inc exc =
     (let compile = (\<lambda>p. case p of
          Some pattern \<Rightarrow> (case regex pattern of
              Inl err \<Rightarrow> Inl (Config (''invalid collection filter regex: '' @ err))
            | Inr f \<Rightarrow> Inr (Some f))
        | None \<Rightarrow> Inr None)
      in try_res (compile inc) (\<lambda>i. try_res (compile exc) (\<lambda>e. Inr \<lparr>fo_include = i, fo_exclude = e\<rparr>)))"

definition dump_options_of :: "string \<Rightarrow> string \<Rightarrow> filter_options \<Rightarrow> dump_args \<Rightarrow> dump_options" where
  "dump_options_of version now filters a =
     \<lparr>do_include_system = da_include_system a, do_overwrite = da_overwrite a,
      do_all_databases = da_all_databases a, do_filters = filters,
      do_compression = compression_resolve (da_compression a) [], do_batch_ttl = da_batch_ttl_secs a,
      do_chunk_size = 8 * 1024 * 1024, do_database = ca_database (da_connection a),
      do_tool_version = version, do_created_at = now\<rparr>"

definition dump_setup ::
  "'w http_env \<Rightarrow> cli_env \<Rightarrow> (storage_uri \<Rightarrow> string option \<Rightarrow> 'b res) \<Rightarrow> (string \<Rightarrow> string + (string \<Rightarrow> bool))
   \<Rightarrow> string \<Rightarrow> string \<Rightarrow> dump_args \<Rightarrow> (client \<times> 'b opened \<times> dump_options) res"
where
  "dump_setup env ce build regex version now a =
     try_res (build_client env ce (da_connection a)) (\<lambda>cl.
     try_res (open_store_root build (da_output a)) (\<lambda>store.
     try_res (filter_options_new regex (da_include_collections a) (da_exclude_collections a)) (\<lambda>filters.
       Inr (cl, store, dump_options_of version now filters a))))"

record restore_args =
  ra_connection :: connection_args
  ra_input :: string
  ra_create_database :: bool
  ra_overwrite :: bool
  ra_checkpoint :: "string option"

definition restore_options_of :: "'k checkpoint_config option \<Rightarrow> restore_args \<Rightarrow> 'k restore_options" where
  "restore_options_of checkpoint a =
     \<lparr>ro_overwrite = ra_overwrite a,
      ro_create_database = (if ra_create_database a then Some (ca_database (ra_connection a)) else None),
      ro_checkpoint = checkpoint\<rparr>"

text \<open>The operations of an opened store on a checkpoint object are a parameter.\<close>

definition build_restore_checkpoint ::
  "(storage_uri \<Rightarrow> string option \<Rightarrow> 'b res) \<Rightarrow> ('b opened \<Rightarrow> object_path \<Rightarrow> 'k checkpoint_config) \<Rightarrow> string
   \<Rightarrow> 'k checkpoint_config res"
where
  "build_restore_checkpoint build ops uri = try_res (open_object build uri) (\<lambda>(store, p). Inr (ops store p))"

definition restore_setup ::
  "'w http_env \<Rightarrow> cli_env \<Rightarrow> (storage_uri \<Rightarrow> string option \<Rightarrow> 'b res)
   \<Rightarrow> ('b opened \<Rightarrow> object_path \<Rightarrow> 'k checkpoint_config) \<Rightarrow> restore_args
   \<Rightarrow> (client \<times> 'b opened \<times> 'k restore_options) res"
where
  "restore_setup env ce build ops a =
     try_res (build_client env ce (ra_connection a)) (\<lambda>cl.
     try_res (open_store_root build (ra_input a)) (\<lambda>store.
     try_res (case ra_checkpoint a of
                Some uri \<Rightarrow> try_res (build_restore_checkpoint build ops uri) (\<lambda>c. Inr (Some c))
              | None \<Rightarrow> Inr None) (\<lambda>checkpoint.
       Inr (cl, store, restore_options_of checkpoint a))))"

section \<open>RDF\<close>

record rdf_args =
  fa_connection :: connection_args
  fa_input :: string
  fa_format :: "string option"
  fa_graph_model :: graph_model
  fa_vertex_collection :: string
  fa_edge_collection :: string
  fa_literal_policy :: rdf_literal_policy
  fa_named_graph :: named_graph_mode
  fa_blank_node_scope :: "string option"
  fa_compression :: compression_arg
  fa_batch_size_bytes :: nat
  fa_max_docs :: nat
  fa_threads :: "nat option"
  fa_max_in_flight_bytes :: nat

record rdf_job =
  rj_client :: client
  rj_options :: rdf_options
  rj_batch :: batch_config
  rj_concurrency :: concurrency_config
  rj_format :: rdf_format
  rj_compression :: codec
  rj_input :: byte_stream

definition resolve_blank_node_scope :: "string option \<Rightarrow> string \<Rightarrow> string option" where
  "resolve_blank_node_scope explicit input =
     (case explicit of
        Some scope \<Rightarrow> if scope = [] then None else Some scope
      | None \<Rightarrow> if input = ''-'' then None else Some input)"

definition resolve_rdf_format :: "string option \<Rightarrow> string \<Rightarrow> rdf_format res" where
  "resolve_rdf_format explicit input =
     (case explicit of
        Some name \<Rightarrow> rdf_format_parse name
      | None \<Rightarrow>
          if input = ''-'' then Inl (Config ''reading RDF from stdin requires an explicit --format'')
          else rdf_format_infer input)"

definition rdf_options_of ::
  "rdf_args \<Rightarrow> rdf_options"
where
  "rdf_options_of a =
     \<lparr>ro_vertex_collection = fa_vertex_collection a, ro_edge_collection = fa_edge_collection a,
      ro_graph_model = fa_graph_model a, ro_literal_policy = fa_literal_policy a, ro_named_graph = fa_named_graph a,
      ro_blank_scope = resolve_blank_node_scope (fa_blank_node_scope a) (fa_input a)\<rparr>"

definition rdf_setup ::
  "'w http_env \<Rightarrow> cli_env \<Rightarrow> (string \<Rightarrow> byte_stream res) \<Rightarrow> nat option \<Rightarrow> rdf_args \<Rightarrow> rdf_job res"
where
  "rdf_setup env ce open_in available a =
     try_res (resolve_rdf_format (fa_format a) (fa_input a)) (\<lambda>fmt.
     try_res (build_client env ce (fa_connection a)) (\<lambda>cl.
     try_res (open_in (fa_input a)) (\<lambda>raw.
       Inr \<lparr>rj_client = cl, rj_options = rdf_options_of a,
         rj_batch = \<lparr>max_bytes = fa_batch_size_bytes a, max_docs = fa_max_docs a\<rparr>,
         rj_concurrency = \<lparr>cc_workers = given (default_workers available) (fa_threads a),
           cc_max_in_flight_bytes = fa_max_in_flight_bytes a, cc_adaptive = True\<rparr>,
         rj_format = fmt, rj_compression = compression_resolve (fa_compression a) (fa_input a), rj_input = raw\<rparr>)))"

fun rdf_format_name :: "rdf_format \<Rightarrow> string" where
  "rdf_format_name NTriples = ''ntriples''"
| "rdf_format_name NQuads = ''nquads''"
| "rdf_format_name Turtle = ''turtle''"

section \<open>Named graphs\<close>

text \<open>\<open>str::trim\<close>.\<close>

definition str_trim :: "string \<Rightarrow> string" where
  "str_trim s = (case from_utf8 s of Some cs \<Rightarrow> utf8 (cp_trim cs) | None \<Rightarrow> s)"

definition bad_edge_definition :: "string \<Rightarrow> string \<Rightarrow> error" where
  "bad_edge_definition spec reason = Config (''invalid --edge-definition '' @ quoted spec @ '': '' @ reason
     @ ''. Expected '' @ quoted ''EDGE_COLLECTION:FROM[,FROM...]->TO[,TO...]''
     @ '', for example '' @ quoted ''orders_to_customers:orders->customers'')"

definition definition_names :: "string \<Rightarrow> string \<Rightarrow> string \<Rightarrow> string list res" where
  "definition_names spec list1 side =
     (let parsed = filter (\<lambda>n. n \<noteq> []) (map str_trim (split_on (CHR '','') list1)) in
      if parsed = [] then Inl (bad_edge_definition spec (''the '' @ side @ '' side names no collection''))
      else Inr parsed)"

definition parse_edge_definition :: "string \<Rightarrow> json res" where
  "parse_edge_definition spec =
     (case split_once (CHR '':'') spec of
        None \<Rightarrow> Inl (bad_edge_definition spec (''no '' @ quoted '':'' @ '' separator''))
      | Some (collection0, rest) \<Rightarrow>
          (case split_once_str ''->'' rest of
             None \<Rightarrow> Inl (bad_edge_definition spec (''no '' @ quoted ''->'' @ '' separator''))
           | Some (from_part, to_part) \<Rightarrow>
               (let collection = str_trim collection0 in
                if collection = [] then Inl (bad_edge_definition spec ''the edge collection name is empty'')
                else try_res (definition_names spec from_part (quoted ''from'')) (\<lambda>fs.
                     try_res (definition_names spec to_part (quoted ''to'')) (\<lambda>ts.
                       Inr (json_object [(''collection'', JString collection),
                         (''from'', JArray (map JString fs)), (''to'', JArray (map JString ts))]))))))"

record graph_create_args =
  gc_connection :: connection_args
  gc_name :: string
  gc_edge_definition :: "string list"
  gc_orphan_collection :: "string list"
  gc_overwrite :: bool

definition graph_body :: "string \<Rightarrow> json list \<Rightarrow> string list \<Rightarrow> json" where
  "graph_body name definitions orphans = json_object
     [(''name'', JString name), (''edgeDefinitions'', JArray definitions),
      (''orphanCollections'', JArray (map JString orphans))]"

text \<open>The rendering of the server's error in the message is a parameter.\<close>

definition graph_create ::
  "'w http_env \<Rightarrow> cli_env \<Rightarrow> (error \<Rightarrow> string) \<Rightarrow> graph_create_args \<Rightarrow> ('w, unit) call"
where
  "graph_create env ce show_error a =
     act_bind (act_lift (build_client env ce (gc_connection a))) (\<lambda>cl.
     act_bind (act_lift (map_res parse_edge_definition (gc_edge_definition a))) (\<lambda>definitions.
       if definitions = [] \<and> gc_orphan_collection a = [] then
         act_fail (Config ''a graph needs at least one --edge-definition or --orphan-collection'')
       else
         act_bind (if gc_overwrite a then drop_graph env cl (gc_name a) False else act_return ()) (\<lambda>_ st.
           case create_graph env cl (graph_body (gc_name a) definitions (gc_orphan_collection a)) st of
             (Inr u, st1) \<Rightarrow> (Inr u, st1)
           | (Inl err, st1) \<Rightarrow> (Inl (Config (''failed to create graph '' @ quoted (gc_name a) @ '': '' @ show_error err
               @ ''. Pass --overwrite to replace an existing graph of the same name; collections named in the ''
               @ ''definitions are created automatically if missing.'')), st1))))"

definition graph_drop :: "'w http_env \<Rightarrow> cli_env \<Rightarrow> connection_args \<Rightarrow> string \<Rightarrow> bool \<Rightarrow> ('w, unit) call" where
  "graph_drop env ce conn name drop_collections =
     act_bind (act_lift (build_client env ce conn)) (\<lambda>cl. drop_graph env cl name drop_collections)"

end
