(* ===== verification/CliLaws.thy ===== *)
theory CliLaws
  imports Cli NQuads
begin

text \<open>What the commands make of their arguments.\<close>

section \<open>Connections\<close>

lemma client_build_config: "client_build env b = Inr cl \<Longrightarrow> cl_config cl = bd_config b \<and> cl_retry cl = bd_retry b"
  by (auto simp: client_build_def split: sum.splits)

lemmas builder_defs = set_retry_def set_request_timeout_def set_insecure_def set_tls_def set_database_def
  set_endpoint_def set_auth_def basic_auth_def bearer_auth_def jwt_secret_def jwt_login_def

text \<open>The credential that the arguments stand for.\<close>

definition credential_of :: "cli_env \<Rightarrow> connection_args \<Rightarrow> auth_config \<Rightarrow> bool" where
  "credential_of ce a auth \<longleftrightarrow>
     (case credential_sources a of
        [] \<Rightarrow> auth = AuthNone
      | [source] \<Rightarrow>
          (if source = ''--auth-token-env'' then \<exists>var t. ca_auth_token_env a = Some var \<and> ce_var ce var = Some t \<and> auth = AuthBearer t
           else if source = ''--jwt-secret-file'' then \<exists>path s. ca_jwt_secret_file a = Some path \<and> ce_read ce path = Inr s
             \<and> auth = AuthJwtSecret (trim_newlines s)
           else if source = ''--jwt-secret-env'' then \<exists>var s. ca_jwt_secret_env a = Some var \<and> ce_var ce var = Some s \<and> auth = AuthJwtSecret s
           else \<exists>u p. ca_username a = Some u
             \<and> (case ca_password_env a of Some var \<Rightarrow> ce_var ce var = Some p | None \<Rightarrow> p = [])
             \<and> auth = (case ca_auth a of BasicMode \<Rightarrow> AuthBasic u p | JwtMode \<Rightarrow> AuthJwtLogin u p))
      | _ \<Rightarrow> False)"

lemma cli_auth_config:
  assumes "cli_apply_auth ce a b = Inr b1" "cn_auth (bd_config b) = AuthNone"
  shows "credential_of ce a (cn_auth (bd_config b1)) \<and> b1 = b\<lparr>bd_config := (bd_config b)\<lparr>cn_auth := cn_auth (bd_config b1)\<rparr>\<rparr>"
  using assms
  by (cases "ca_auth_token_env a"; cases "ca_jwt_secret_file a"; cases "ca_jwt_secret_env a"; cases "ca_username a")
    (auto simp: cli_apply_auth_def credential_of_def credential_sources_def builder_defs read_env_def ok_or_def
      res_simps split: option.splits sum.splits auth_mode.splits if_splits)

text \<open>
  C15: the client that the commands build is the one the arguments ask for.  Exactly one source of
  credentials was given or none, and the client uses what that source holds; certificates are
  checked unless \<open>--insecure\<close> was given, with a certificate bundle of its own or without; the
  database, the endpoint and the time limit of a request are the given ones.  A request is tried as
  often as \<open>--max-retries\<close> says, at least once, and never waits longer between two attempts than
  \<open>--max-retry-delay-secs\<close>, at least one second; the other settings are the defaults.
\<close>

theorem connection_settings:
  assumes "build_client env ce a = Inr cl"
  shows "length (credential_sources a) \<le> 1 \<and> credential_of ce a (cl_auth cl)
    \<and> tls_verify (cn_tls (cl_config cl)) = (\<not> ca_insecure a)
    \<and> tls_ca_file (cn_tls (cl_config cl)) = ca_tls_ca a
    \<and> cn_endpoint (cl_config cl) = ca_endpoint a \<and> cn_database (cl_config cl) = ca_database a
    \<and> cn_request_timeout (cl_config cl) = ca_request_timeout_secs a
    \<and> cn_connect_timeout (cl_config cl) = 10
    \<and> max_attempts (cl_retry cl) = max (ca_max_retries a) 1
    \<and> max_delay (cl_retry cl) = max (ca_max_retry_delay_secs a) 1 * 10 ^ 9
    \<and> base_delay (cl_retry cl) = 100 * 10 ^ 6 \<and> multiplier (cl_retry cl) = 2 \<and> jitter (cl_retry cl)"
proof -
  let ?b0 = "set_retry (cli_retry_policy a) (set_request_timeout (ca_request_timeout_secs a)
               (set_insecure (ca_insecure a) (set_database (ca_database a) (set_endpoint (ca_endpoint a) builder_new))))"
  obtain b where b: "cli_apply_auth ce a ?b0 = Inr b"
    and build: "client_build env (case ca_tls_ca a of
                Some ca \<Rightarrow> set_tls \<lparr>tls_verify = \<not> ca_insecure a, tls_ca_file = Some ca\<rparr> b
              | None \<Rightarrow> b) = Inr cl"
    using assms by (auto simp: build_client_def Let_def res_simps)
  have none: "cn_auth (bd_config ?b0) = AuthNone" by (simp add: builder_defs builder_new_def connection_default_def)
  note auth = cli_auth_config [OF b none]
  have cred: "credential_of ce a (cn_auth (bd_config b))" using auth by simp
  then have one: "length (credential_sources a) \<le> 1" unfolding credential_of_def by (simp split: list.splits)
  obtain au where b1: "b = ?b0\<lparr>bd_config := (bd_config ?b0)\<lparr>cn_auth := au\<rparr>\<rparr>" using auth by blast
  show ?thesis using client_build_config [OF build] cred one
    by (auto simp: b1 cl_auth_def builder_defs builder_new_def connection_default_def tls_default_def
        cli_retry_policy_def retry_policy_default_def split: option.splits)
qed

text \<open>\<open>--username u --password-env V --auth jwt --insecure\<close>.\<close>

definition tiny_connection :: connection_args where
  "tiny_connection = \<lparr>ca_endpoint = ''http://h'', ca_database = ''d'', ca_username = Some ''u'',
     ca_password_env = Some ''V'', ca_auth_token_env = None, ca_jwt_secret_file = None, ca_jwt_secret_env = None,
     ca_auth = JwtMode, ca_tls_ca = Some ''ca.pem'', ca_insecure = True, ca_request_timeout_secs = 10,
     ca_max_retries = 0, ca_max_retry_delay_secs = 0\<rparr>"

definition tiny_cli_env :: cli_env where
  "tiny_cli_env = \<lparr>ce_var = (\<lambda>v. if v = ''V'' then Some ''p'' else None), ce_read = (\<lambda>p. Inl ''no file'')\<rparr>"

lemma tiny_connection_builds:
  "\<exists>cl. build_client tiny_http tiny_cli_env tiny_connection = Inr cl \<and> cl_auth cl = AuthJwtLogin ''u'' ''p''"
  by (simp add: build_client_def tiny_connection_def tiny_cli_env_def cli_apply_auth_def credential_sources_def read_env_def
      ok_or_def builder_defs client_build_def tiny_http_def cl_auth_def res_simps)

lemma connection_settings_witness:
  "\<exists>cl. build_client tiny_http tiny_cli_env tiny_connection = Inr cl
    \<and> \<not> tls_verify (cn_tls (cl_config cl)) \<and> max_attempts (cl_retry cl) = 1 \<and> max_delay (cl_retry cl) = 10 ^ 9"
proof -
  obtain cl where cl: "build_client tiny_http tiny_cli_env tiny_connection = Inr cl"
    using tiny_connection_builds by blast
  show ?thesis using connection_settings [OF cl] cl by (auto simp: tiny_connection_def)
qed

section \<open>Locations\<close>

lemma split_on_join:
  "ss \<noteq> [] \<Longrightarrow> (\<And>s. s \<in> set ss \<Longrightarrow> c \<notin> set s) \<Longrightarrow> split_on c (join [c] ss) = ss"
proof (induction ss)
  case (Cons s ss)
  then show ?case by (cases ss) (simp_all add: split_on_free split_on_append)
qed simp







section \<open>Edge definitions\<close>

text \<open>A name without white space at its ends, and the text of a definition.\<close>

definition trimmed :: "string \<Rightarrow> bool" where
  "trimmed s \<longleftrightarrow> (\<exists>cs. s = utf8 cs \<and> list_all is_scalar cs \<and> cs \<noteq> []
     \<and> \<not> cp_whitespace (hd cs) \<and> \<not> cp_whitespace (last cs))"

definition edge_definition_text :: "string \<Rightarrow> string list \<Rightarrow> string list \<Rightarrow> string" where
  "edge_definition_text collection fs ts = collection @ '':'' @ join '','' fs @ ''->'' @ join '','' ts"

lemma str_trim_trimmed: "trimmed s \<Longrightarrow> str_trim s = s \<and> s \<noteq> []"
proof (unfold trimmed_def, elim exE conjE)
  fix cs
  assume s: "s = utf8 cs" and cs: "list_all is_scalar cs" "cs \<noteq> []"
    and blank: "\<not> cp_whitespace (hd cs)" "\<not> cp_whitespace (last cs)"
  have "utf8 cs \<noteq> []" using cs(2) utf8_char_not_Nil by (cases cs) (auto simp: utf8_simps)
  then show "str_trim s = s \<and> s \<noteq> []" using s cs blank by (simp add: str_trim_def trimmed_line)
qed

lemma definition_names_text:
  assumes "ns \<noteq> []" "\<And>n. n \<in> set ns \<Longrightarrow> trimmed n \<and> CHR '','' \<notin> set n"
  shows "definition_names spec (join '','' ns) side = Inr ns"
proof -
  have "split_on (CHR '','') (join '','' ns) = ns" using assms by (intro split_on_join) auto
  moreover have "map str_trim ns = ns" using assms(2) str_trim_trimmed by (simp add: map_idI)
  moreover have "filter (\<lambda>n. n \<noteq> []) ns = ns" using assms(2) str_trim_trimmed by (simp add: filter_id_conv)
  ultimately show ?thesis using assms(1) by (simp add: definition_names_def)
qed

lemma split_arrow: "CHR ''>'' \<notin> set a \<Longrightarrow> split_once_str ''->'' (a @ ''->'' @ b) = Some (a, b)"
proof (induction a)
  case Nil
  then show ?case by (simp add: split_once_str.simps)
next
  case (Cons c a)
  have "strip_prefix ''->'' (c # a @ ''->'' @ b) = None"
    using Cons.prems by (cases a) auto
  then show ?case using Cons by (subst split_once_str.simps) simp
qed

lemma join_free: "(\<And>s. s \<in> set ss \<Longrightarrow> c \<notin> set s) \<Longrightarrow> c \<notin> set sep \<Longrightarrow> c \<notin> set (join sep ss)"
  by (induction sep ss rule: join.induct) auto

text \<open>
  C33: an edge definition on the command line means what it says: a collection and the names on
  both sides, written with \<open>:\<close>, \<open>,\<close> and \<open>->\<close>, parse to exactly these names, in any script, as
  long as the collection has no \<open>:\<close> and the names no comma and, on the left, no \<open>>\<close>.
\<close>

theorem edge_definition_roundtrip:
  assumes "trimmed collection" "CHR '':'' \<notin> set collection" "fs \<noteq> []" "ts \<noteq> []"
    and "\<And>n. n \<in> set fs \<Longrightarrow> trimmed n \<and> CHR '','' \<notin> set n \<and> CHR ''>'' \<notin> set n"
    and "\<And>n. n \<in> set ts \<Longrightarrow> trimmed n \<and> CHR '','' \<notin> set n"
  shows "parse_edge_definition (edge_definition_text collection fs ts) = Inr (json_object
    [(''collection'', JString collection), (''from'', JArray (map JString fs)), (''to'', JArray (map JString ts))])"
proof -
  let ?s = "edge_definition_text collection fs ts"
  have one: "split_once (CHR '':'') ?s = Some (collection, join '','' fs @ ''->'' @ join '','' ts)"
    using assms(2) by (simp add: split_once_Some edge_definition_text_def)
  have "CHR ''>'' \<notin> set (join '','' fs)" using assms(5) by (intro join_free) auto
  then have two: "split_once_str ''->'' (join '','' fs @ ''->'' @ join '','' ts) = Some (join '','' fs, join '','' ts)"
    by (rule split_arrow)
  have "definition_names ?s (join '','' fs) side = Inr fs" "definition_names ?s (join '','' ts) side = Inr ts" for side
    using assms(3-6) by (auto intro!: definition_names_text)
  then show ?thesis using str_trim_trimmed [OF assms(1)]
    by (simp add: parse_edge_definition_def one two [simplified] res_simps)
qed

lemma trimmed_ascii:
  assumes "s \<noteq> []" "\<forall>c \<in> set s. 33 \<le> (of_char c :: nat) \<and> (of_char c :: nat) < 127"
  shows "trimmed s"
proof -
  have small: "\<not> cp_whitespace (of_char c) \<and> is_scalar (of_char c)" if "c \<in> set s" for c
    using assms(2) that by (auto simp: cp_whitespace_def is_scalar_def)
  have "utf8 (cps s) = s" using assms(2) by (intro utf8_ascii) auto
  moreover have "list_all is_scalar (cps s)" using small by (auto simp: list_all_iff)
  moreover have "\<not> cp_whitespace (hd (cps s))" "\<not> cp_whitespace (last (cps s))"
    using assms(1) small by (simp_all add: hd_map last_map)
  ultimately show ?thesis using assms(1) unfolding trimmed_def by (intro exI [of _ "cps s"]) auto
qed

lemma edge_definition_roundtrip_witness:
  "parse_edge_definition ''knows:a,b->c'' = Inr (json_object
    [(''collection'', JString ''knows''), (''from'', JArray [JString ''a'', JString ''b'']), (''to'', JArray [JString ''c''])])"
proof -
  have t: "trimmed s" if "s \<in> {''knows'', ''a'', ''b'', ''c''}" for s
    by (rule trimmed_ascii; use that in \<open>elim insertE emptyE; simp\<close>)
  have k: "trimmed ''knows''" and a: "trimmed ''a''" and b: "trimmed ''b''" and c: "trimmed ''c''"
    by (rule t, simp)+
  have l: "trimmed n \<and> CHR '','' \<notin> set n \<and> CHR ''>'' \<notin> set n" if "n \<in> set [''a'', ''b'']" for n
  proof -
    from that consider "n = ''a''" | "n = ''b''" by auto
    then show ?thesis by cases (simp_all add: a b)
  qed
  have r: "trimmed n \<and> CHR '','' \<notin> set n" if "n \<in> set [''c'']" for n
  proof -
    from that have "n = ''c''" by simp
    then show ?thesis by (simp add: c)
  qed
  have "CHR '':'' \<notin> set ''knows''" "[''a'', ''b''] \<noteq> []" "[''c''] \<noteq> []" by simp_all
  note edge_definition_roundtrip [OF k this l r]
  then show ?thesis by (simp add: edge_definition_text_def)
qed

end
