(* ===== verification/Python.thy ===== *)
theory Python
  imports CliLaws
begin

text \<open>
  The Python functions (\<open>bindings/python/src/lib.rs\<close>) up to the point where they hand over to the job
  crates: the same steps as the commands of \<open>Cli\<close>, with settings of their own.
\<close>

section \<open>The Python functions\<close>

record py_conn =
  py_endpoint :: string
  py_database :: string
  py_username :: "string option"
  py_password :: "string option"
  py_token :: "string option"
  py_insecure :: bool
  py_request_timeout_secs :: nat


definition py_build :: "'w http_env \<Rightarrow> py_conn \<Rightarrow> client res" where
  "py_build env c =
     (let b = set_request_timeout (py_request_timeout_secs c) (set_insecure (py_insecure c)
                (set_database (py_database c) (set_endpoint (py_endpoint c) builder_new)))
      in client_build env
           (case py_token c of
              Some token \<Rightarrow> bearer_auth token b
            | None \<Rightarrow>
                (case py_username c of
                   Some username \<Rightarrow> basic_auth username (case py_password c of Some p \<Rightarrow> p | None \<Rightarrow> []) b
                 | None \<Rightarrow> b)))"



definition py_compression :: "string option \<Rightarrow> string \<Rightarrow> codec res" where
  "py_compression name path =
     (let n = to_ascii_lowercase (case name of Some s \<Rightarrow> s | None \<Rightarrow> ''auto'') in
      if n = ''auto'' then Inr (infer_codec path)
      else if n = ''none'' then Inr CodecNone
      else if n = ''gzip'' then Inr CodecGzip
      else if n = ''zstd'' then Inr CodecZstd
      else Inl (Config (''unknown compression '' @ quoted n @ ''; expected auto, none, gzip, or zstd'')))"



section \<open>Export\<close>

text \<open>As on the command line, with messages of its own.\<close>

definition py_build_request ::
  "(string \<Rightarrow> string + json) \<Rightarrow> string option \<Rightarrow> string option \<Rightarrow> string option \<Rightarrow> nat \<Rightarrow> cursor_request res"
where
  "py_build_request parse collection query bind_vars batch_size =
     (case (collection, query) of
        (Some c, None) \<Rightarrow> Inr (collection_query c batch_size)
      | (None, Some q) \<Rightarrow>
          (let request = with_batch_size batch_size (cursor_request_new q) in
           case bind_vars of
             Some b \<Rightarrow> (case parse b of
                 Inl err \<Rightarrow> Inl (Config (''invalid bind_vars JSON: '' @ err))
               | Inr v \<Rightarrow> Inr (with_bind_vars v request))
           | None \<Rightarrow> Inr request)
      | (None, None) \<Rightarrow> Inl (Config ''one of collection or query is required'')
      | (Some _, Some _) \<Rightarrow> Inl (Config ''collection and query are mutually exclusive''))"

definition py_open_local :: "string \<Rightarrow> ('b opened \<times> object_path) res" where
  "py_open_local path =
     (case file_name path of
        None \<Rightarrow> Inl (Config (''output path has no file name: '' @ path))
      | Some name \<Rightarrow> Inr (Inl (parent_dir path), path_new name))"

definition py_open_output ::
  "(storage_uri \<Rightarrow> string option \<Rightarrow> 'b res) \<Rightarrow> string \<Rightarrow> ('b opened \<times> object_path) res"
where
  "py_open_output build output =
     (case split_once_str ''://'' output of
        Some (scheme, _) \<Rightarrow>
          if scheme = ''file'' then py_open_local (strip_starts ''file://'' output)
          else try_res (storage_uri_parse output) (\<lambda>u.
               try_res (build u (os_for_bucket u)) (\<lambda>b. Inr (Inr b, path_new (u_path u))))
      | None \<Rightarrow> py_open_local output)"

definition py_open_store_root :: "(storage_uri \<Rightarrow> string option \<Rightarrow> 'b res) \<Rightarrow> string \<Rightarrow> 'b opened res" where
  "py_open_store_root build location =
     (case split_once_str ''://'' location of
        Some (scheme, _) \<Rightarrow>
          if scheme = ''file'' then Inr (Inl (strip_starts ''file://'' location))
          else try_res (storage_uri_parse location) (\<lambda>u. try_res (build u (os_for_prefix u)) (\<lambda>b. Inr (Inr b)))
      | None \<Rightarrow> Inr (Inl location))"

record py_export_params =
  pe_conn :: py_conn
  pe_output :: string
  pe_collection :: "string option"
  pe_query :: "string option"
  pe_bind_vars :: "string option"
  pe_format :: string
  pe_fields :: "string list option"
  pe_compression :: "string option"
  pe_batch_size :: nat
  pe_split_bytes :: "nat option"

definition py_export_setup ::
  "'w http_env \<Rightarrow> (string \<Rightarrow> string + json) \<Rightarrow> (storage_uri \<Rightarrow> string option \<Rightarrow> 'b res) \<Rightarrow> py_export_params
   \<Rightarrow> 'b export_job res"
where
  "py_export_setup env parse build a =
     try_res (export_format_parse (pe_format a)) (\<lambda>fmt.
     try_res (py_build_request parse (pe_collection a) (pe_query a) (pe_bind_vars a) (pe_batch_size a)) (\<lambda>request.
     try_res (py_compression (pe_compression a) (pe_output a)) (\<lambda>cmp.
     try_res (py_build env (pe_conn a)) (\<lambda>cl.
     try_res (py_open_output build (pe_output a)) (\<lambda>(store, p).
       Inr \<lparr>ej_client = cl, ej_request = request, ej_format = fmt,
            ej_fields = (case pe_fields a of Some fs \<Rightarrow> (if fs = [] then None else Some fs) | None \<Rightarrow> None),
            ej_compression = cmp, ej_store = store, ej_path = p\<rparr>)))))"

section \<open>Dump and restore\<close>

record py_dump_params =
  pd_conn :: py_conn
  pd_output :: string
  pd_include_system :: bool
  pd_compression :: "string option"
  pd_batch_ttl_secs :: nat

definition filter_options_default :: filter_options where
  "filter_options_default = \<lparr>fo_include = None, fo_exclude = None\<rparr>"

definition dump_options_default :: "string \<Rightarrow> dump_options" where
  "dump_options_default version =
     \<lparr>do_include_system = False, do_overwrite = False, do_all_databases = False,
      do_filters = filter_options_default, do_compression = CodecNone, do_batch_ttl = 600,
      do_chunk_size = 8 * 1024 * 1024, do_database = ''_system'', do_tool_version = version, do_created_at = []\<rparr>"

definition py_dump_setup ::
  "'w http_env \<Rightarrow> (storage_uri \<Rightarrow> string option \<Rightarrow> 'b res) \<Rightarrow> string \<Rightarrow> string \<Rightarrow> py_dump_params
   \<Rightarrow> (client \<times> 'b opened \<times> dump_options) res"
where
  "py_dump_setup env build version now a =
     try_res (py_build env (pd_conn a)) (\<lambda>cl.
     try_res (py_open_store_root build (pd_output a)) (\<lambda>store.
     try_res (py_compression (pd_compression a) []) (\<lambda>cmp.
       Inr (cl, store, (dump_options_default version)\<lparr>do_include_system := pd_include_system a,
         do_compression := cmp, do_batch_ttl := pd_batch_ttl_secs a, do_database := py_database (pd_conn a),
         do_tool_version := version, do_created_at := now\<rparr>))))"

record py_restore_params =
  pr_conn :: py_conn
  pr_input :: string
  pr_create_database :: bool
  pr_overwrite :: bool

definition py_restore_setup ::
  "'w http_env \<Rightarrow> (storage_uri \<Rightarrow> string option \<Rightarrow> 'b res) \<Rightarrow> py_restore_params
   \<Rightarrow> (client \<times> 'b opened \<times> 'k restore_options) res"
where
  "py_restore_setup env build a =
     try_res (py_build env (pr_conn a)) (\<lambda>cl.
     try_res (py_open_store_root build (pr_input a)) (\<lambda>store.
       Inr (cl, store, \<lparr>ro_overwrite = pr_overwrite a,
         ro_create_database = (if pr_create_database a then Some (py_database (pr_conn a)) else None),
         ro_checkpoint = None\<rparr>)))"

section \<open>Against the command line\<close>













end
