(* ===== verification/Spec2Isabelle.thy ===== *)
theory Spec2Isabelle
  imports Prelude Unicode Errors Retry BTree Json Manifest Store LocalFs Uri Resumable
    Batch Checkpoint Adaptive Pipeline Readers Edge Columns Export Dump Restore
    Rdf RdfGraph NQuads TurtleParser TurtleLines TurtleNodes
    Http ClientOps ClientLaws ClientSession ClientTokens
    ImportSend ClientRestore Cli CliLaws Python
begin

text \<open>
  A verification development for arangodb-data-tools-rs, the bulk data tools for ArangoDB.

  The program moves data between a database server and an object store.  \<open>import\<close> reads JSON
  lines, a JSON array or a delimited file, checks edges, packs documents into batches and sends
  them concurrently, recording a checkpoint.  \<open>export\<close> turns a cursor into documents, encodes
  and compresses them, and writes one object or parts with a manifest.  \<open>dump\<close> writes a
  database's structure, data and views with a manifest, \<open>restore\<close> puts them back.  \<open>rdf\<close> turns
  triples into documents.  All of them share the error type, the retry policy, the manifest and
  the storage interface.

  Theories, in the order in which they build on each other (paths are below \<open>src/crates\<close>):

  \<^item> \<open>Prelude\<close>: bytes, fallible results, operations on a state that may fail, the string
    functions of the standard library, decimal numbers; \<open>Unicode\<close>: UTF-8 and trimming.
  \<^item> \<open>Errors\<close> (\<open>arangodb-tools-core/src/error.rs\<close>): the error type, its context and rendering.
  \<^item> \<open>Retry\<close> (\<open>retry.rs\<close>): backoff and the retry loop, with clock and jitter as inputs.
  \<^item> \<open>BTree\<close>, \<open>Json\<close>: ordered maps and JSON values of \<open>serde_json\<close>.
  \<^item> \<open>Manifest\<close> (\<open>manifest.rs\<close>): manifest and checkpoint documents, encoding and decoding.
  \<^item> \<open>Store\<close>, \<open>LocalFs\<close>, \<open>Uri\<close>, \<open>Resumable\<close> (\<open>arangodb-storage\<close>): the interface
    \<open>object_store\<close> as a locale, the local backend over a directory tree (the locale's
    interpretation \<open>lfs\<close>), storage addresses and cloud paths, resumable uploads in parts.
  \<^item> \<open>Readers\<close>, \<open>Columns\<close>, \<open>Edge\<close> (\<open>arangodb-import/src/reader\<close>, \<open>edge.rs\<close>, \<open>format.rs\<close>):
    the chunked array scanner, the line reader, the delimited reader with its column
    transforms, edge validation, format inference.
  \<^item> \<open>Batch\<close>, \<open>Checkpoint\<close>, \<open>Adaptive\<close>, \<open>Pipeline\<close> (\<open>batch.rs\<close>, \<open>sender.rs\<close>,
    \<open>adaptive.rs\<close>): batching, the checkpoint task, the adaptive limiter, and the concurrent
    pipeline as the step relation \<open>pipe_step\<close> (one step per await point of producer, worker
    and checkpoint task).
  \<^item> \<open>Export\<close> (\<open>arangodb-export\<close>): encoders, split export, cursor task.
  \<^item> \<open>Dump\<close> (\<open>arangodb-dump\<close>, and \<open>topology.rs\<close>, \<open>replication.rs\<close> of the client): the claim
    on the destination, the inventory, artifacts, pages, the manifest.
  \<^item> \<open>Restore\<close> (\<open>arangodb-restore\<close>): validation, grouping, the four phases, resumption.
  \<^item> \<open>Rdf\<close>, \<open>RdfGraph\<close> (\<open>arangodb-rdf\<close>, \<open>model.rs\<close>, \<open>format.rs\<close>, \<open>lib.rs\<close>): terms, keys and
    documents; the buffers of an import, the loop that fills them, the load phases.
  \<^item> \<open>NQuads\<close> (\<open>parser.rs\<close>), \<open>TurtleParser\<close> (\<open>turtle.rs\<close>): the line reader and the Turtle parser;
    \<open>TurtleLines\<close> compares the two, \<open>TurtleNodes\<close> is about the nodes the second one makes.
  \<^item> \<open>Http\<close> (\<open>arangodb-client/src/client.rs\<close>, \<open>auth.rs\<close>, settings of \<open>config.rs\<close>): credentials, the
    token cache, attempts, the refresh after a 401, the retry loop; \<open>ClientOps\<close>: every operation of
    the client with the decoding of its answer.
  \<^item> \<open>ClientLaws\<close>: what holds of one operation (exchanges it costs, whose success and whose refusal
    it reports); \<open>ClientSession\<close>: sequences of operations, the requests each operation may send
    (\<open>op_requests\<close>), and the locale \<open>client_invariant\<close> of predicates that hold along all sequences;
    \<open>ClientTokens\<close>: its interpretations, tokens and credentials; \<open>ClientRestore\<close>: the restore of
    \<open>Restore\<close> over the client, where a sublocale turns every invariant of the client into one of the
    restore; \<open>ImportSend\<close> (\<open>ArangoBatchSender\<close> of \<open>sender.rs\<close>): the sending of one batch.
  \<^item> \<open>Cli\<close> (\<open>arangodb-tools-cli/src/commands\<close>): the commands up to the point where they hand over to
    the jobs: credentials, locations, codecs, the settings of each job, the \<open>graph\<close> commands;
    \<open>CliLaws\<close>: their properties; \<open>Python\<close> (\<open>bindings/python/src/lib.rs\<close>): the same for the Python
    functions.
  \<^item> this theory: properties that span components.

  How state and operations correspond to the code: a struct is a record with a two-letter field
  prefix, an enum a datatype, a \<open>Result\<close> the sum \<open>error + 'a\<close>, a \<open>Vec<u8>\<close> or \<open>String\<close> a list
  of bytes, a \<open>BTreeMap\<close> a sorted association list, a stream the list of the items it yields.  An
  \<open>async\<close> function is a function on the state it awaits; where tasks run concurrently their
  interleaving is a step relation.  64-bit replication ticks are words; other counters are natural
  numbers that stay far below their width (the nesting depth of the array scanner is an integer
  where the code has 32 bits), and casts that saturate are written out.  Recursion has no stack
  limit here, so the Turtle parser reads nesting of any depth.

  What the lemmas show: codecs and parsers invert each other (manifest, templates, storage
  addresses, uploads, export against import); the backend keeps every path below its root and a
  conditional write is exclusive; batching is greedy and its cut points are stable, which is
  what makes a checkpoint meaningful; the checkpoint is exactly the contiguous prefix of
  acknowledged batches; the pipeline respects its memory budget (a batch counts for at most the
  budget and at most 4 GiB less one byte), terminates, and reports success only when every batch
  was accepted; a resumed import misses nothing; an upload that is interrupted or killed any number
  of times can be completed and then reads back as the data; a dump never mixes with
  another and its marker and manifest tell the truth; a resumed restore redoes nothing that is
  recorded and the phases keep the order the server needs; an RDF import refines the graph of the
  statements read, with no dangling edge and keys that identify them; both RDF readers give back
  what is written, and the Turtle parser always returns; a request of the client costs a bounded
  number of exchanges and reports only what the server said, its tokens are current whenever they
  are sent, and each of its requests is one the operation stands for, at the endpoint, with the
  configured credential and nothing of it anywhere else, in every session; a restore over HTTP that
  succeeds has had every structure, page, index and view accepted; a batch of an import that is
  acknowledged was accepted with exactly its bytes; the commands build the client the arguments
  ask for, open the file a location names, and read edge definitions as they are written; an
  import from Python is the one of the command, but for the edge check.

  Bounds and fuel: the grammar rules of the Turtle parser count down fuel, four units for every
  character and four more, and \<open>turtle_total\<close> shows that this is enough for every text.  No other
  definition uses fuel: loops that are not structural have measures, the rest of a template or of
  a token, the pending acknowledgements, the distance of the tick to \<open>2^64\<close>.

  Parameters (code outside the repository): \<open>serde_json\<close> text, SHA-256, the compressors, the
  \<open>csv\<close> crates, \<open>object_store\<close>, regular expressions, the HTTP library with its URLs, base64 and
  HMAC, and the server, which is a function of its own state.  What a theorem relies on of them is
  a hypothesis of that theorem, and its witness instantiates them with concrete functions.

  Not modelled: requests of one client that overlap in time (its operations run one after another
  here); the argument parser of the command line and what the commands print (clap and output
  only); the progress renderers and the redaction of secrets for display; the conversion between
  Python and Rust values and the runtimes (PyO3, tokio).  \<open>Pipeline\<close> has the concurrent workers over
  an abstract server, \<open>ImportSend\<close> one batch over the client; the two are not composed.
\<close>

section \<open>Restarting an import\<close>

text \<open>
  C2: an import that was killed at any moment and restarted from a checkpoint of the killed
  run delivers every document: once the second run reports success, every batch of the input
  was accepted by the server in the first run or in the second, and the second run sent none
  of the batches the checkpoint claims.
\<close>

theorem resumed_import_complete:
  assumes "pipe_reach cfg1 (into_batches ser bc docs) p1" "pc_checkpointing cfg1"
    and "pc_resume cfg1 = import_checkpoint_default"
    and "pc_resume cfg2 = t_state (p_tracker p1)"
    and "pipe_reach cfg2 (into_batches ser bc docs) p2" "pipe_over p2" "0 < pc_workers cfg2"
    and "pipe_result order p2 = Inr s" "set order = set (p_workers p2)"
  shows "\<exists>bs. into_batches ser bc docs = map Inr bs
    \<and> set bs = set (p_acked p1) \<union> set (p_acked p2)
    \<and> (\<forall>b \<in> set (p_acked p2). committed_batches (pc_resume cfg2) < b_index b)"
proof -
  obtain bs where bs: "into_batches ser bc docs = map Inr bs"
    and acc: "mset (p_acked p2) = mset (filter (\<lambda>b. committed_batches (pc_resume cfg2) < b_index b) bs)"
    using success_accepts_all [OF assms(5-9)] by blast
  have oks: "oks (map Inr xs) = xs" for xs :: "batch list" by (induction xs) auto
  have set2: "set (p_acked p2) = {b \<in> set bs. committed_batches (pc_resume cfg2) < b_index b}"
    using acc by (metis set_filter set_mset_mset)
  have sub1: "set (p_acked p1) \<subseteq> set bs" using acked_subset [OF assms(1)] by (simp add: bs oks)
  have dist: "inj_on b_index (set bs)"
    using into_batches_distinct [of ser bc docs] by (simp add: bs oks distinct_map)
  have "b \<in> set (p_acked p1)" if b: "b \<in> set bs" "\<not> committed_batches (pc_resume cfg2) < b_index b" for b
  proof -
    have "0 < b_index b"
      using b(1) into_batches_from_indices [of 0 ser bc "[]" 0 docs]
      by (auto simp: into_batches_def [symmetric] bs oks numbered_after_def)
    then obtain b' where "b' \<in> set (p_acked p1)" "b_index b' = b_index b"
      using tracker_claims_accepted [OF assms(1,2)] assms(3,4) b(2)
      by (auto simp: import_checkpoint_default_def)
    then show ?thesis using dist sub1 b(1) by (metis inj_on_def subsetD)
  qed
  then show ?thesis using bs set2 sub1 by (intro exI [of _ bs]) auto
qed

text \<open>Killed before anything was sent, then run to the end.\<close>

lemma resumed_import_complete_witness:
  "\<exists>p. pipe_over p \<and> {b. Inr b \<in> set tiny_batches} = set (p_acked p)"
proof -
  let ?cfg1 = "tiny_config\<lparr>pc_checkpointing := True\<rparr>"
  obtain p where p: "pipe_reach tiny_config tiny_batches p" "pipe_over p"
    "pipe_result (p_workers p) p = Inr (pipe_summary p)"
    using tiny_success by blast
  have "\<exists>p1. pipe_reach ?cfg1 tiny_batches p1 \<and> t_state (p_tracker p1) = import_checkpoint_default
      \<and> p_acked p1 = []"
  proof (intro exI conjI)
    show "pipe_reach ?cfg1 tiny_batches (pipe_start ?cfg1 0 tiny_batches)" by (rule pipe_reach.start)
  qed (simp_all add: pipe_start_def tracker_new_def tiny_config_def)
  then obtain p1 where p1: "pipe_reach ?cfg1 tiny_batches p1"
    "t_state (p_tracker p1) = import_checkpoint_default" "p_acked p1 = []" by blast
  have c: "pc_checkpointing ?cfg1" "pc_resume ?cfg1 = import_checkpoint_default"
    "pc_resume tiny_config = t_state (p_tracker p1)" "0 < pc_workers tiny_config"
    using p1(2) by (simp_all add: tiny_config_def)
  note res = resumed_import_complete [OF p1(1) [unfolded tiny_batches_def] c(1,2,3)
        p(1) [unfolded tiny_batches_def] p(2) c(4) p(3) refl]
  from res obtain bs where bs: "tiny_batches = map Inr bs" "set bs = set (p_acked p1) \<union> set (p_acked p)"
    unfolding tiny_batches_def by (elim exE conjE)
  have "{b. Inr b \<in> set tiny_batches} = set bs" unfolding bs(1) by auto
  then have "{b. Inr b \<in> set tiny_batches} = set (p_acked p)" using bs(2) p1(3) by simp
  then show ?thesis using p(2) by blast
qed

end
